(* ===== verification/Hc_Prelude.thy ===== *)
theory Hc_Prelude
  imports Main "HOL-Library.Word" "HOL-Library.Char_ord" "HOL-Library.List_Lexorder"
begin

text \<open>
  The base of the HAMcast development: the names of the machine types, the exceptions as
  values of a sum type, the little-endian layout of integers in memory, and the facts about
  lists and sums that the component theories share.

  A byte is a \<^typ>\<open>char\<close>, so that an IPC buffer and a \<open>std::string\<close> have the same type, as
  they have in the C++ code. \<open>size_t\<close> values are natural numbers: they count bytes or
  elements that exist in memory. Fixed-width integers that travel over IPC or wrap around are
  words.
\<close>

section \<open>Types\<close>

type_synonym byte = char
type_synonym bytes = "char list"
type_synonym u8 = "8 word"
type_synonym u16 = "16 word"
type_synonym u32 = "32 word"

section \<open>Configuration constants\<close>

definition default_max_buffer_size :: nat where
  "default_max_buffer_size = 16 * 1024 * 1024"

definition default_block_size :: nat where
  "default_block_size = 512"

definition max_pending_sends :: nat where
  "max_pending_sends = 256"

definition max_buffered_sends :: nat where
  "max_buffered_sends = 512"

definition min_buffer_chunk :: nat where
  "min_buffer_chunk = default_max_buffer_size div max_buffered_sends"

definition max_ack_block_size :: nat where
  "max_ack_block_size = 64"

definition default_max_write_buffer_size :: nat where
  "default_max_write_buffer_size = 1024 * 1024 * 5"

definition default_max_msg_size :: nat where
  "default_max_msg_size = 8 * 1024"

section \<open>Exceptions as values\<close>

text \<open>
  The exceptions the code throws. The string is the text of the failed condition or the
  message of the throw. \<open>Undefined_behaviour\<close> marks an access the language gives no meaning
  to (a write past the end of an allocation, a read through a null pointer). \<open>Terminated e\<close>
  is the end of the process by \<open>std::terminate\<close>, because a thread did not catch \<open>e\<close>. \<open>Blocked\<close> is
  an operation that never returns, because it waits for a mutex that nobody will unlock.
\<close>

datatype hc_exn =
    Requirement_failed string
  | Internal_interface_error string
  | Ios_failure string
  | Logic_error string
  | Runtime_error string
  | Range_error string
  | Undefined_behaviour string
  | Terminated hc_exn
  | Blocked string

type_synonym 'a res = "hc_exn + 'a"

definition rbind :: "'a res \<Rightarrow> ('a \<Rightarrow> 'b res) \<Rightarrow> 'b res" where
  "rbind r f = (case r of Inl e \<Rightarrow> Inl e | Inr x \<Rightarrow> f x)"

definition hc_require :: "bool \<Rightarrow> string \<Rightarrow> unit res" where
  "hc_require c msg = (if c then Inr () else Inl (Requirement_failed msg))"

text \<open>
  A member function of a mutable object: it returns or throws, and leaves an object behind in
  both cases. \<open>sbind\<close> is sequencing, an exception ends the sequence and keeps the state of the
  moment it was thrown.
\<close>

type_synonym ('s, 'a) op = "'s \<Rightarrow> 'a res \<times> 's"

definition sret :: "'a \<Rightarrow> ('s, 'a) op" where
  "sret x s = (Inr x, s)"

definition sthrow :: "hc_exn \<Rightarrow> ('s, 'a) op" where
  "sthrow e s = (Inl e, s)"

definition sbind :: "('s, 'a) op \<Rightarrow> ('a \<Rightarrow> ('s, 'b) op) \<Rightarrow> ('s, 'b) op" where
  "sbind m f s = (case m s of (Inl e, s') \<Rightarrow> (Inl e, s') | (Inr x, s') \<Rightarrow> f x s')"

definition srequire :: "bool \<Rightarrow> string \<Rightarrow> ('s, unit) op" where
  "srequire c msg = (if c then sret () else sthrow (Requirement_failed msg))"

section \<open>Integers in memory\<close>

text \<open>
  \<open>le_enc k x\<close> is the memory image of the \<open>k\<close>-byte integer \<open>x\<close> on a little-endian host,
  \<open>le_dec\<close> reads it back.
\<close>

fun le_enc :: "nat \<Rightarrow> nat \<Rightarrow> bytes" where
  "le_enc 0 x = []"
| "le_enc (Suc k) x = char_of (x mod 256) # le_enc k (x div 256)"

fun le_dec :: "bytes \<Rightarrow> nat" where
  "le_dec [] = 0"
| "le_dec (c # cs) = of_char c + 256 * le_dec cs"

section \<open>Shared facts\<close>

named_theorems hc_simps "unfolding rules for the small accessors of the model"

lemma rbind_Inl [simp]: "rbind (Inl e) f = Inl e"
  by (simp add: rbind_def)

lemma rbind_Inr [simp]: "rbind (Inr x) f = f x"
  by (simp add: rbind_def)

lemma rbind_assoc: "rbind (rbind r f) g = rbind r (\<lambda>x. rbind (f x) g)"
  by (cases r) simp_all

lemma rbind_eq_Inr: "rbind r f = Inr y \<longleftrightarrow> (\<exists>x. r = Inr x \<and> f x = Inr y)"
  by (cases r) simp_all

lemma rbind_eq_Inl: "rbind r f = Inl e \<longleftrightarrow> r = Inl e \<or> (\<exists>x. r = Inr x \<and> f x = Inl e)"
  by (cases r) simp_all

lemma rbind_cong [fundef_cong]:
  "r = r' \<Longrightarrow> (\<And>x. r' = Inr x \<Longrightarrow> f x = g x) \<Longrightarrow> rbind r f = rbind r' g"
  by (cases r') simp_all

lemma rbind_split: "P (rbind r f) \<longleftrightarrow> (\<forall>e. r = Inl e \<longrightarrow> P (Inl e)) \<and> (\<forall>x. r = Inr x \<longrightarrow> P (f x))"
  by (cases r) simp_all

lemma hc_require_simps [simp]:
  "hc_require True msg = Inr ()"
  "hc_require False msg = Inl (Requirement_failed msg)"
  by (simp_all add: hc_require_def)

lemma hc_require_eq_Inr [simp]: "hc_require c msg = Inr u \<longleftrightarrow> c"
  by (simp add: hc_require_def)

lemma sret_apply [simp]: "sret x s = (Inr x, s)"
  by (simp add: sret_def)

lemma sthrow_apply [simp]: "sthrow e s = (Inl e, s)"
  by (simp add: sthrow_def)

lemma sbind_Inr: "m s = (Inr x, s') \<Longrightarrow> sbind m f s = f x s'"
  by (simp add: sbind_def)

lemma sbind_Inl: "m s = (Inl e, s') \<Longrightarrow> sbind m f s = (Inl e, s')"
  by (simp add: sbind_def)

lemma sbind_sret [simp]: "sbind (sret x) f = f x"
  by (simp add: sbind_def fun_eq_iff)

lemma sbind_sthrow [simp]: "sbind (sthrow e) f = sthrow e"
  by (simp add: sbind_def fun_eq_iff)

lemma srequire_simps [simp]:
  "srequire True msg = sret ()"
  "srequire False msg = sthrow (Requirement_failed msg)"
  by (simp_all add: srequire_def)

lemma sbind_assoc: "sbind (sbind m f) g = sbind m (\<lambda>x. sbind (f x) g)"
  by (rule ext) (simp add: sbind_def split: prod.splits sum.splits)

lemma sbind_eq_Inr:
  "sbind m f s = (Inr y, t) \<longleftrightarrow> (\<exists>x s'. m s = (Inr x, s') \<and> f x s' = (Inr y, t))"
  by (auto simp: sbind_def split: prod.splits sum.splits)

lemma length_le_enc [simp]: "length (le_enc k x) = k"
  by (induction k arbitrary: x) simp_all

lemma le_dec_enc: "le_dec (le_enc k x) = x mod 256 ^ k"
proof (induction k arbitrary: x)
  case 0
  then show ?case by simp
next
  case (Suc k)
  have "x mod (256 * 256 ^ k) = 256 * (x div 256 mod 256 ^ k) + x mod 256"
    by (rule mod_mult2_eq)
  with Suc show ?case by simp
qed

lemma le_dec_less: "le_dec bs < 256 ^ length bs"
proof (induction bs)
  case Nil
  then show ?case by simp
next
  case (Cons c bs)
  have "(of_char c :: nat) < 256" by (rule nat_of_char_less_256)
  with Cons have "of_char c + 256 * le_dec bs < 256 * 256 ^ length bs" by linarith
  then show ?case by simp
qed

lemma le_enc_dec: "le_enc (length bs) (le_dec bs) = bs"
proof (induction bs)
  case Nil
  then show ?case by simp
next
  case (Cons c bs)
  have "(of_char c :: nat) < 256" by (rule nat_of_char_less_256)
  with Cons show ?case by simp
qed

end
