(* ===== verification/Buffers.thy ===== *)
theory Buffers
  imports Hc_Prelude
begin

text \<open>
  The byte buffers of \<open>libhamcast/hamcast/util\<close>: \<open>write_buffer\<close> (a growing C array),
  \<open>read_buffer\<close> (a cursor in a constant array), \<open>buffered_sink\<close> and \<open>buffered_source\<close> (the
  decorators that batch the calls of an underlying sink or source). Memory is a list of
  bytes; a copy outside an allocation is \<^const>\<open>Undefined_behaviour\<close>. The locales
  \<open>byte_sink\<close> and \<open>byte_source\<close> are what a serializer or deserializer relies on, and every
  buffer is shown to provide them.
\<close>

section \<open>Memory\<close>

text \<open>
  \<open>poke\<close> is \<open>memcpy(m_data + pos, buf, n)\<close> and \<open>peek\<close> is \<open>memcpy(buf, m_data + pos, n)\<close> on an
  allocation that may be the null pointer. Fresh memory is filled with zero bytes, a value no
  lemma depends on.
\<close>

definition poke :: "nat \<Rightarrow> bytes \<Rightarrow> bytes option \<Rightarrow> bytes option res" where
  "poke pos bs mem =
     (if bs = [] then Inr mem
      else case mem of
        None \<Rightarrow> Inl (Undefined_behaviour ''write through null'')
      | Some d \<Rightarrow>
          if pos + length bs \<le> length d
          then Inr (Some (take pos d @ bs @ drop (pos + length bs) d))
          else Inl (Undefined_behaviour ''write past the end''))"

definition peek :: "nat \<Rightarrow> nat \<Rightarrow> bytes option \<Rightarrow> bytes res" where
  "peek pos n mem =
     (if n = 0 then Inr []
      else case mem of
        None \<Rightarrow> Inl (Undefined_behaviour ''read through null'')
      | Some d \<Rightarrow>
          if pos + n \<le> length d then Inr (take n (drop pos d))
          else Inl (Undefined_behaviour ''read past the end''))"

section \<open>write\_buffer\<close>

text \<open>The template arguments \<open>block_size\<close> and \<open>maximum_size\<close> are the first two arguments.\<close>

record write_buffer =
  wb_data :: "bytes option"
  wb_wr_pos :: nat
  wb_reserved :: nat

definition new_write_buffer :: write_buffer where
  "new_write_buffer = \<lparr>wb_data = None, wb_wr_pos = 0, wb_reserved = 0\<rparr>"

definition block_round :: "nat \<Rightarrow> nat \<Rightarrow> nat" where
  "block_round bs n = (if n mod bs = 0 then n else (n div bs + 1) * bs)"

definition lazy_resize :: "nat \<Rightarrow> nat \<Rightarrow> nat \<Rightarrow> (write_buffer, unit) op" where
  "lazy_resize bs mx new_min_size wb =
     (if wb_reserved wb < new_min_size then
        let wb1 = wb\<lparr>wb_reserved := block_round bs new_min_size\<rparr> in
        if mx < wb_reserved wb1 then (Inl (Ios_failure ''Buffer exceeds maximum size''), wb1)
        else
          let new_data = Some (replicate (wb_reserved wb1) CHR 0x00);
              copied = (case wb_data wb1 of None \<Rightarrow> Inr new_data
                        | Some d \<Rightarrow> rbind (peek 0 (wb_wr_pos wb1) (Some d)) (\<lambda>old. poke 0 old new_data))
          in (case copied of Inl e \<Rightarrow> (Inl e, wb1) | Inr d \<Rightarrow> (Inr (), wb1\<lparr>wb_data := d\<rparr>))
      else (Inr (), wb))"

definition wb_reserve :: "nat \<Rightarrow> nat \<Rightarrow> nat \<Rightarrow> (write_buffer, unit) op" where
  "wb_reserve bs mx arg wb = (if wb_reserved wb < arg then lazy_resize bs mx arg wb else (Inr (), wb))"

definition wb_remaining :: "write_buffer \<Rightarrow> nat" where
  "wb_remaining wb = wb_reserved wb - wb_wr_pos wb"

definition wb_store :: "bytes \<Rightarrow> (write_buffer, unit) op" where
  "wb_store buf wb =
     (case poke (wb_wr_pos wb) buf (wb_data wb) of
        Inl e \<Rightarrow> (Inl e, wb)
      | Inr d \<Rightarrow> (Inr (), wb\<lparr>wb_data := d, wb_wr_pos := wb_wr_pos wb + length buf\<rparr>))"

definition wb_write :: "nat \<Rightarrow> nat \<Rightarrow> bytes \<Rightarrow> (write_buffer, unit) op" where
  "wb_write bs mx buf wb =
     sbind (lazy_resize bs mx (length buf + wb_wr_pos wb)) (\<lambda>_. wb_store buf) wb"

text \<open>
  \<open>read_some\<close> is the member function of the source; the state of a call is the pair of the
  buffer and the source.
\<close>

definition append_some_from ::
  "nat \<Rightarrow> nat \<Rightarrow> (nat \<Rightarrow> ('d, bytes) op) \<Rightarrow> nat \<Rightarrow> (write_buffer \<times> 'd, nat) op" where
  "append_some_from bs mx read_some buf_size s =
     (case lazy_resize bs mx (wb_wr_pos (fst s) + buf_size) (fst s) of
        (Inl e, wb) \<Rightarrow> (Inl e, (wb, snd s))
      | (Inr _, wb) \<Rightarrow>
          (case read_some buf_size (snd s) of
             (Inl e, src) \<Rightarrow> (Inl e, (wb, src))
           | (Inr b, src) \<Rightarrow>
               (case wb_store b wb of
                  (Inl e, wb') \<Rightarrow> (Inl e, (wb', src))
                | (Inr _, wb') \<Rightarrow> (Inr (length b), (wb', src)))))"

function move_down :: "nat \<Rightarrow> nat \<Rightarrow> nat \<Rightarrow> bytes \<Rightarrow> bytes" where
  "move_down dst src end_pos d =
     (if src < end_pos then move_down (Suc dst) (Suc src) end_pos (d[dst := d ! src]) else d)"
  by pat_completeness auto
termination by (relation "measure (\<lambda>(dst, src, e, d). e - src)") auto

declare move_down.simps [simp del]

definition wb_erase :: "nat \<Rightarrow> nat \<Rightarrow> (write_buffer, unit) op" where
  "wb_erase from to wb =
     (if from = to then (Inr (), wb)
      else if \<not> from < to then (Inl (Requirement_failed ''from < to''), wb)
      else if wb_wr_pos wb \<le> from then (Inr (), wb)
      else if wb_wr_pos wb \<le> to then (Inr (), wb\<lparr>wb_wr_pos := from\<rparr>)
      else (Inr (), wb\<lparr>wb_data := map_option (move_down from to (wb_wr_pos wb)) (wb_data wb),
                       wb_wr_pos := wb_wr_pos wb - (to - from)\<rparr>))"

definition wb_clear :: "write_buffer \<Rightarrow> write_buffer" where
  "wb_clear wb = wb\<lparr>wb_wr_pos := 0\<rparr>"

definition wb_take :: "write_buffer \<Rightarrow> (nat \<times> bytes option) \<times> write_buffer" where
  "wb_take wb = ((wb_wr_pos wb, wb_data wb), (wb_clear wb)\<lparr>wb_reserved := 0, wb_data := None\<rparr>)"

definition wb_reset :: "write_buffer \<Rightarrow> write_buffer" where
  "wb_reset wb = (wb_clear wb)\<lparr>wb_data := None, wb_reserved := 0\<rparr>"

section \<open>read\_buffer\<close>

record read_buffer =
  rb_rd_pos :: nat
  rb_buf :: bytes

definition new_read_buffer :: "bytes \<Rightarrow> read_buffer" where
  "new_read_buffer buf = \<lparr>rb_rd_pos = 0, rb_buf = buf\<rparr>"

definition rb_available :: "read_buffer \<Rightarrow> nat" where
  "rb_available rb =
     (let bsize = length (rb_buf rb) in if rb_rd_pos rb < bsize then bsize - rb_rd_pos rb else 0)"

definition rb_do_copy :: "nat \<Rightarrow> (read_buffer, bytes) op" where
  "rb_do_copy buf_size rb =
     (case peek (rb_rd_pos rb) buf_size (Some (rb_buf rb)) of
        Inl e \<Rightarrow> (Inl e, rb)
      | Inr b \<Rightarrow> (Inr b, rb\<lparr>rb_rd_pos := rb_rd_pos rb + buf_size\<rparr>))"

definition rb_read_some :: "nat \<Rightarrow> (read_buffer, bytes) op" where
  "rb_read_some buf_size rb =
     (if 0 < rb_available rb then rb_do_copy (min buf_size (rb_available rb)) rb else (Inr [], rb))"

definition rb_read :: "nat \<Rightarrow> (read_buffer, bytes) op" where
  "rb_read buf_size rb =
     (if buf_size \<le> rb_available rb then rb_do_copy buf_size rb
      else (Inl (Ios_failure ''Not enough data to read''), rb))"

definition rb_skip :: "nat \<Rightarrow> read_buffer \<Rightarrow> read_buffer" where
  "rb_skip n rb = rb\<lparr>rb_rd_pos := rb_rd_pos rb + n\<rparr>"

section \<open>buffered\_sink\<close>

text \<open>The decorated sink is its \<open>write\<close> and \<open>flush\<close> operations and its state.\<close>

record 'k buffered_sink =
  bk_decorated :: 'k
  bk_buf :: write_buffer
  bk_flush_hint :: int

definition new_buffered_sink :: "int \<Rightarrow> 'k \<Rightarrow> 'k buffered_sink" where
  "new_buffered_sink hint k =
     \<lparr>bk_decorated = k, bk_buf = new_write_buffer, bk_flush_hint = (if hint < 100 then 0 else hint)\<rparr>"

definition bk_flush ::
  "(bytes \<Rightarrow> ('k, unit) op) \<Rightarrow> ('k, unit) op \<Rightarrow> ('k buffered_sink, unit) op" where
  "bk_flush k_write k_flush s =
     (if 0 < wb_wr_pos (bk_buf s) then
        case peek 0 (wb_wr_pos (bk_buf s)) (wb_data (bk_buf s)) of
          Inl e \<Rightarrow> (Inl e, s)
        | Inr b \<Rightarrow>
            (case sbind (k_write b) (\<lambda>_. k_flush) (bk_decorated s) of
               (Inl e, k) \<Rightarrow> (Inl e, s\<lparr>bk_decorated := k\<rparr>)
             | (Inr _, k) \<Rightarrow> (Inr (), s\<lparr>bk_decorated := k, bk_buf := wb_clear (bk_buf s)\<rparr>))
      else (Inr (), s))"

definition bk_store :: "nat \<Rightarrow> nat \<Rightarrow> bytes \<Rightarrow> ('k buffered_sink, unit) op" where
  "bk_store bs mx buf s =
     (case wb_write bs mx buf (bk_buf s) of (r, wb) \<Rightarrow> (r, s\<lparr>bk_buf := wb\<rparr>))"

definition bk_write ::
  "nat \<Rightarrow> nat \<Rightarrow> (bytes \<Rightarrow> ('k, unit) op) \<Rightarrow> ('k, unit) op \<Rightarrow> bytes \<Rightarrow> ('k buffered_sink, unit) op" where
  "bk_write bs mx k_write k_flush buf s =
     (let new_size = wb_wr_pos (bk_buf s) + length buf in
      sbind
        (if mx < new_size then bk_flush k_write k_flush
         else if 0 < bk_flush_hint s \<and> nat (bk_flush_hint s) < new_size then bk_flush k_write k_flush
         else sret ())
        (\<lambda>_. bk_store bs mx buf) s)"

section \<open>buffered\_source\<close>

text \<open>
  The pointer \<open>m_data\<close> to one of the two buffers is the flag \<open>bsrc_first\<close>: it is assigned
  \<open>&m_buf1\<close> or \<open>&m_buf2\<close> and nothing else, so the branch that throws \<open>logic_error\<close> has no
  counterpart.
\<close>

record 'd buffered_source =
  bsrc_decorated :: 'd
  bsrc_rd_pos :: nat
  bsrc_buf1 :: write_buffer
  bsrc_buf2 :: write_buffer
  bsrc_first :: bool

definition bsrc_data :: "'d buffered_source \<Rightarrow> write_buffer" where
  "bsrc_data s = (if bsrc_first s then bsrc_buf1 s else bsrc_buf2 s)"

definition bsrc_set_data :: "write_buffer \<Rightarrow> 'd buffered_source \<Rightarrow> 'd buffered_source" where
  "bsrc_set_data wb s = (if bsrc_first s then s\<lparr>bsrc_buf1 := wb\<rparr> else s\<lparr>bsrc_buf2 := wb\<rparr>)"

definition bsrc_set_other :: "write_buffer \<Rightarrow> 'd buffered_source \<Rightarrow> 'd buffered_source" where
  "bsrc_set_other wb s = (if bsrc_first s then s\<lparr>bsrc_buf2 := wb\<rparr> else s\<lparr>bsrc_buf1 := wb\<rparr>)"

definition bsrc_other :: "'d buffered_source \<Rightarrow> write_buffer" where
  "bsrc_other s = (if bsrc_first s then bsrc_buf2 s else bsrc_buf1 s)"

definition new_buffered_source :: "nat \<Rightarrow> nat \<Rightarrow> 'd \<Rightarrow> 'd buffered_source res" where
  "new_buffered_source bs mx d =
     (case wb_reserve bs mx (2 * bs) new_write_buffer of
        (Inl e, _) \<Rightarrow> Inl e
      | (Inr _, wb1) \<Rightarrow>
          (case wb_reserve bs mx (2 * bs) new_write_buffer of
             (Inl e, _) \<Rightarrow> Inl e
           | (Inr _, wb2) \<Rightarrow>
               Inr \<lparr>bsrc_decorated = d, bsrc_rd_pos = 0, bsrc_buf1 = wb1, bsrc_buf2 = wb2,
                    bsrc_first = True\<rparr>))"

definition lazy_swap_buffers :: "nat \<Rightarrow> nat \<Rightarrow> ('d buffered_source, unit) op" where
  "lazy_swap_buffers bs mx s =
     (let r = wb_reserved (bsrc_data s) in
      if r div 2 < bsrc_rd_pos s then
        case peek (bsrc_rd_pos s) (wb_wr_pos (bsrc_data s) - bsrc_rd_pos s) (wb_data (bsrc_data s)) of
          Inl e \<Rightarrow> (Inl e, bsrc_set_other (wb_clear (bsrc_other s)) s)
        | Inr rest \<Rightarrow>
            (case wb_write bs mx rest (wb_clear (bsrc_other s)) of
               (Inl e, wb) \<Rightarrow> (Inl e, bsrc_set_other wb s)
             | (Inr _, wb) \<Rightarrow>
                 (Inr (), (bsrc_set_other wb s)\<lparr>bsrc_first := \<not> bsrc_first s, bsrc_rd_pos := 0\<rparr>))
      else (Inr (), s))"

definition try_reset_buffer :: "'d buffered_source \<Rightarrow> 'd buffered_source" where
  "try_reset_buffer s =
     (if wb_wr_pos (bsrc_data s) \<le> bsrc_rd_pos s
      then (bsrc_set_data (wb_clear (bsrc_data s)) s)\<lparr>bsrc_rd_pos := 0\<rparr> else s)"

definition bsrc_do_copy :: "nat \<Rightarrow> nat \<Rightarrow> nat \<Rightarrow> ('d buffered_source, bytes) op" where
  "bsrc_do_copy bs mx buf_size s =
     (if \<not> buf_size + bsrc_rd_pos s \<le> wb_wr_pos (bsrc_data s)
      then (Inl (Requirement_failed ''(buf_size + m_rd_pos) <= m_data->size()''), s)
      else case peek (bsrc_rd_pos s) buf_size (wb_data (bsrc_data s)) of
        Inl e \<Rightarrow> (Inl e, s)
      | Inr b \<Rightarrow> sbind (lazy_swap_buffers bs mx) (\<lambda>_. sret b) (s\<lparr>bsrc_rd_pos := bsrc_rd_pos s + buf_size\<rparr>))"

definition bsrc_available :: "'d buffered_source \<Rightarrow> nat \<times> 'd buffered_source" where
  "bsrc_available s =
     (let s' = try_reset_buffer s in
      (if wb_wr_pos (bsrc_data s') \<le> bsrc_rd_pos s' then 0 else wb_wr_pos (bsrc_data s') - bsrc_rd_pos s', s'))"

definition bsrc_append ::
  "nat \<Rightarrow> nat \<Rightarrow> (nat \<Rightarrow> ('d, bytes) op) \<Rightarrow> nat \<Rightarrow> ('d buffered_source, nat) op" where
  "bsrc_append bs mx d_read_some n s =
     (case append_some_from bs mx d_read_some n (bsrc_data s, bsrc_decorated s) of
        (r, (wb, d)) \<Rightarrow> (r, (bsrc_set_data wb s)\<lparr>bsrc_decorated := d\<rparr>))"

definition bsrc_read_some ::
  "nat \<Rightarrow> nat \<Rightarrow> (nat \<Rightarrow> ('d, bytes) op) \<Rightarrow> nat \<Rightarrow> ('d buffered_source, bytes) op" where
  "bsrc_read_some bs mx d_read_some buf_size s0 =
     (if buf_size = 0 then (Inr [], s0)
      else let (av, s) = bsrc_available s0 in
        if av = 0 then
          case bsrc_append bs mx d_read_some (wb_remaining (bsrc_data s)) s of
            (Inl e, s1) \<Rightarrow> (Inl e, s1)
          | (Inr _, s1) \<Rightarrow>
              (let (av', s2) = bsrc_available s1; rd_size = min av' buf_size in
               if 0 < rd_size then bsrc_do_copy bs mx rd_size s2 else (Inr [], s2))
        else let (av', s1) = bsrc_available s in bsrc_do_copy bs mx (min av' buf_size) s1)"

lemma bsrc_data_set [simp]:
  "bsrc_data (bsrc_set_data wb s) = wb" "bsrc_rd_pos (bsrc_set_data wb s) = bsrc_rd_pos s"
  "bsrc_data (s\<lparr>bsrc_rd_pos := n\<rparr>) = bsrc_data s" "bsrc_data (s\<lparr>bsrc_decorated := d\<rparr>) = bsrc_data s"
  "bsrc_other (bsrc_set_data wb s) = bsrc_other s" "bsrc_decorated (bsrc_set_data wb s) = bsrc_decorated s"
  "bsrc_other (s\<lparr>bsrc_rd_pos := n\<rparr>) = bsrc_other s" "bsrc_other (s\<lparr>bsrc_decorated := d\<rparr>) = bsrc_other s"
  by (simp_all add: bsrc_data_def bsrc_set_data_def bsrc_other_def)

lemma lazy_resize_wr_pos: "lazy_resize bs mx n wb = (r, wb') \<Longrightarrow> wb_wr_pos wb' = wb_wr_pos wb"
  by (auto simp: lazy_resize_def Let_def split: if_splits option.splits sum.splits)

lemma append_some_from_cases:
  assumes "append_some_from bs mx rs n (wb, d) = (Inr k, (wb', d'))"
  obtains wb1 b where "lazy_resize bs mx (wb_wr_pos wb + n) wb = (Inr (), wb1)"
    "rs n d = (Inr b, d')" "wb_store b wb1 = (Inr (), wb')" "k = length b"
  using assms by (auto simp: append_some_from_def split: prod.splits sum.splits)

lemma wb_store_wr_pos: "wb_store b wb = (Inr u, wb') \<Longrightarrow> wb_wr_pos wb' = wb_wr_pos wb + length b"
  by (auto simp: wb_store_def split: sum.splits)

lemma append_some_from_wr_pos:
  assumes "append_some_from bs mx rs n (wb, d) = (Inr k, (wb', d'))"
  shows "wb_wr_pos wb' = wb_wr_pos wb + k"
  using assms by (rule append_some_from_cases) (simp add: lazy_resize_wr_pos wb_store_wr_pos)

lemma fst_bsrc_available: "fst (bsrc_available s) = wb_wr_pos (bsrc_data s) - bsrc_rd_pos s"
  by (simp add: bsrc_available_def try_reset_buffer_def wb_clear_def)

lemma snd_bsrc_available: "snd (bsrc_available s) = try_reset_buffer s"
  by (simp add: bsrc_available_def Let_def)

lemma try_reset_buffer_avail:
  "wb_wr_pos (bsrc_data (try_reset_buffer s)) - bsrc_rd_pos (try_reset_buffer s)
     = wb_wr_pos (bsrc_data s) - bsrc_rd_pos s"
  "bsrc_rd_pos (try_reset_buffer s) \<le> wb_wr_pos (bsrc_data (try_reset_buffer s))"
  by (simp_all add: try_reset_buffer_def wb_clear_def)

lemma bsrc_append_progress:
  assumes "bsrc_append bs mx rs n (try_reset_buffer s) = (Inr k, s')" "k \<noteq> 0"
  shows "fst (bsrc_available s) < fst (bsrc_available s')"
proof -
  let ?s = "try_reset_buffer s"
  obtain wb d where a: "append_some_from bs mx rs n (bsrc_data ?s, bsrc_decorated ?s) = (Inr k, (wb, d))"
    "s' = (bsrc_set_data wb ?s)\<lparr>bsrc_decorated := d\<rparr>"
    using assms(1) by (auto simp: bsrc_append_def split: prod.splits)
  from append_some_from_wr_pos [OF a(1)] a(2)
  have "wb_wr_pos (bsrc_data s') = wb_wr_pos (bsrc_data ?s) + k" "bsrc_rd_pos s' = bsrc_rd_pos ?s" by simp_all
  with assms(2) try_reset_buffer_avail [of s] show ?thesis by (simp add: fst_bsrc_available)
qed

text \<open>The loop of \<open>read\<close>: every pass makes at least one more byte available, or throws.\<close>

function bsrc_fill ::
  "nat \<Rightarrow> nat \<Rightarrow> (nat \<Rightarrow> ('d, bytes) op) \<Rightarrow> nat \<Rightarrow> ('d buffered_source, unit) op" where
  "bsrc_fill bs mx d_read_some buf_size s0 =
     (let (av, s) = bsrc_available s0 in
      if av < buf_size then
        case bsrc_append bs mx d_read_some (max (wb_remaining (bsrc_data s)) buf_size) s of
          (Inl e, s1) \<Rightarrow> (Inl e, s1)
        | (Inr written, s1) \<Rightarrow>
            if written = 0 then (Inl (Ios_failure ''Can't read from sorce''), s1)
            else bsrc_fill bs mx d_read_some buf_size s1
      else (Inr (), s))"
  by pat_completeness auto
termination
proof (relation "measure (\<lambda>(bs, mx, rs, n, s). n - fst (bsrc_available s))", goal_cases)
  case (2 bs mx rs n s0 av_s av s r s1 written)
  then have s: "s = try_reset_buffer s0" and "av = fst (bsrc_available s0)"
    by (metis snd_conv snd_bsrc_available, metis fst_conv)
  moreover have "bsrc_append bs mx rs (max (wb_remaining (bsrc_data s)) n) s = (Inr written, s1)"
    using 2 by simp
  then have "fst (bsrc_available s0) < fst (bsrc_available s1)"
    unfolding s using 2(6) by (rule bsrc_append_progress)
  ultimately show ?case using 2(3) by simp
qed simp

declare bsrc_fill.simps [simp del]

definition bsrc_read ::
  "nat \<Rightarrow> nat \<Rightarrow> (nat \<Rightarrow> ('d, bytes) op) \<Rightarrow> nat \<Rightarrow> ('d buffered_source, bytes) op" where
  "bsrc_read bs mx d_read_some buf_size =
     sbind (bsrc_fill bs mx d_read_some buf_size) (\<lambda>_. bsrc_do_copy bs mx buf_size)"

definition has_buffered_data :: "'d buffered_source \<Rightarrow> bool" where
  "has_buffered_data s \<longleftrightarrow> bsrc_rd_pos s < wb_wr_pos (bsrc_data s)"

section \<open>The contracts of sinks and sources\<close>

text \<open>
  \<open>byte_sink\<close>: what a serializer relies on. A write that fits into \<open>room\<close> appends exactly
  its bytes to what has been written. \<open>byte_source\<close>: what a deserializer relies on. A read of
  at most \<open>lim\<close> bytes returns the next bytes of the stream, and throws when there are not
  enough of them. \<open>some_source\<close>: what \<open>buffered_source\<close> relies on from the source below it.
\<close>

locale byte_sink =
  fixes wr :: "bytes \<Rightarrow> ('s, unit) op"
    and sink_ok :: "'s \<Rightarrow> bool"
    and written :: "'s \<Rightarrow> bytes"
    and room :: "'s \<Rightarrow> nat"
  assumes wr_fits: "sink_ok s \<Longrightarrow> length b \<le> room s \<Longrightarrow>
    \<exists>s'. wr b s = (Inr (), s') \<and> sink_ok s' \<and> written s' = written s @ b \<and> room s - length b \<le> room s'"

locale byte_source =
  fixes rd :: "nat \<Rightarrow> ('s, bytes) op"
    and src_ok :: "'s \<Rightarrow> bool"
    and stream :: "'s \<Rightarrow> bytes"
    and lim :: nat
  assumes rd_enough: "src_ok s \<Longrightarrow> n \<le> lim \<Longrightarrow> n \<le> length (stream s) \<Longrightarrow>
    \<exists>s'. rd n s = (Inr (take n (stream s)), s') \<and> src_ok s' \<and> stream s' = drop n (stream s)"
  assumes rd_short: "src_ok s \<Longrightarrow> n \<le> lim \<Longrightarrow> length (stream s) < n \<Longrightarrow>
    \<exists>msg s'. rd n s = (Inl (Ios_failure msg), s')"

locale some_source =
  fixes rs :: "nat \<Rightarrow> ('d, bytes) op"
    and dec_ok :: "'d \<Rightarrow> bool"
    and dec_stream :: "'d \<Rightarrow> bytes"
  assumes rs_some: "dec_ok d \<Longrightarrow> 0 < n \<Longrightarrow> dec_stream d \<noteq> [] \<Longrightarrow>
    \<exists>k d'. 0 < k \<and> k \<le> n \<and> k \<le> length (dec_stream d) \<and> rs n d = (Inr (take k (dec_stream d)), d')
      \<and> dec_ok d' \<and> dec_stream d' = drop k (dec_stream d)"
  assumes rs_none: "dec_ok d \<Longrightarrow> 0 < n \<Longrightarrow> dec_stream d = [] \<Longrightarrow>
    (\<exists>d'. rs n d = (Inr [], d')) \<or> (\<exists>msg d'. rs n d = (Inl (Ios_failure msg), d'))"

section \<open>write\_buffer\<close>

definition wb_ok :: "nat \<Rightarrow> nat \<Rightarrow> write_buffer \<Rightarrow> bool" where
  "wb_ok bs mx wb \<longleftrightarrow>
     wb_wr_pos wb \<le> wb_reserved wb \<and> wb_reserved wb \<le> mx \<and> bs dvd wb_reserved wb
     \<and> (case wb_data wb of None \<Rightarrow> wb_reserved wb = 0 | Some d \<Rightarrow> length d = wb_reserved wb)"

definition wb_content :: "write_buffer \<Rightarrow> bytes" where
  "wb_content wb = (case wb_data wb of None \<Rightarrow> [] | Some d \<Rightarrow> take (wb_wr_pos wb) d)"

lemma length_wb_content: "wb_ok bs mx wb \<Longrightarrow> length (wb_content wb) = wb_wr_pos wb"
  by (auto simp: wb_ok_def wb_content_def split: option.splits)

lemma wb_ok_new [simp]: "wb_ok bs mx new_write_buffer"
  by (simp add: wb_ok_def new_write_buffer_def)

lemma wb_content_new [simp]: "wb_content new_write_buffer = []"
  by (simp add: wb_content_def new_write_buffer_def)

lemma wb_ok_clear: "wb_ok bs mx wb \<Longrightarrow> wb_ok bs mx (wb_clear wb)"
  by (auto simp: wb_ok_def wb_clear_def split: option.splits)

lemma wb_content_clear [simp]: "wb_content (wb_clear wb) = []"
  by (simp add: wb_content_def wb_clear_def split: option.splits)

lemma block_round_eq:
  assumes "0 < bs"
  shows "block_round bs n = n + (if n mod bs = 0 then 0 else bs - n mod bs)"
proof -
  have "bs * (n div bs) + n mod bs = n" "n mod bs < bs" using assms by simp_all
  then have "bs * (n div bs) + bs = n + (bs - n mod bs)" by linarith
  then show ?thesis by (simp add: block_round_def algebra_simps)
qed

lemma block_round_ge: "0 < bs \<Longrightarrow> n \<le> block_round bs n"
  by (simp add: block_round_eq)

lemma block_round_dvd: "bs dvd block_round bs n"
  by (auto simp: block_round_def)

lemma block_round_less: "0 < bs \<Longrightarrow> block_round bs n < n + bs"
  by (simp add: block_round_eq)

lemma block_round_le: "0 < bs \<Longrightarrow> bs dvd mx \<Longrightarrow> n \<le> mx \<Longrightarrow> block_round bs n \<le> mx"
proof -
  assume a: "0 < bs" "bs dvd mx" "n \<le> mx"
  obtain k where k: "mx = bs * k" using a(2) by (rule dvdE)
  obtain j where j: "block_round bs n = bs * j" using block_round_dvd by (rule dvdE)
  have "bs * j < bs * k + bs" using block_round_less [OF a(1), of n] j k a(3) by linarith
  then have "bs * j < bs * Suc k" by simp
  then have "j < Suc k" using a(1) by (metis mult_less_cancel1)
  then show "block_round bs n \<le> mx" using j k by simp
qed

lemma lazy_resize_fits:
  assumes "wb_ok bs mx wb" "0 < bs" "bs dvd mx" "n \<le> mx"
  shows "\<exists>wb'. lazy_resize bs mx n wb = (Inr (), wb') \<and> wb_ok bs mx wb' \<and> wb_content wb' = wb_content wb
    \<and> wb_wr_pos wb' = wb_wr_pos wb \<and> n \<le> wb_reserved wb'
    \<and> wb_reserved wb' = (if wb_reserved wb < n then block_round bs n else wb_reserved wb)"
proof (cases "wb_reserved wb < n")
  case True
  let ?r = "block_round bs n"
  have r: "n \<le> ?r" "?r \<le> mx" using assms block_round_ge block_round_le by blast+
  show ?thesis
  proof (cases "wb_data wb")
    case None
    with True r assms(1) show ?thesis
      by (auto simp: lazy_resize_def Let_def wb_ok_def wb_content_def block_round_dvd)
  next
    case (Some d)
    with assms(1) have d: "length d = wb_reserved wb" "wb_wr_pos wb \<le> length d" by (auto simp: wb_ok_def)
    with True r Some have "rbind (peek 0 (wb_wr_pos wb) (Some d)) (\<lambda>old. poke 0 old (Some (replicate ?r CHR 0x00)))
      = Inr (Some (take (wb_wr_pos wb) d @ replicate (?r - wb_wr_pos wb) CHR 0x00))"
      by (auto simp: peek_def poke_def)
    with True r Some d assms(1) show ?thesis
      by (auto simp: lazy_resize_def Let_def wb_ok_def wb_content_def block_round_dvd)
  qed
qed (use assms in \<open>auto simp: lazy_resize_def\<close>)

lemma wb_store_fits:
  assumes "wb_ok bs mx wb" "wb_wr_pos wb + length b \<le> wb_reserved wb"
  shows "\<exists>wb'. wb_store b wb = (Inr (), wb') \<and> wb_ok bs mx wb' \<and> wb_content wb' = wb_content wb @ b
    \<and> wb_wr_pos wb' = wb_wr_pos wb + length b \<and> wb_reserved wb' = wb_reserved wb"
  using assms
  by (cases "wb_data wb"; cases "b = []") (auto simp: wb_store_def poke_def wb_ok_def wb_content_def)

lemma wb_write_fits:
  assumes "wb_ok bs mx wb" "0 < bs" "bs dvd mx" "wb_wr_pos wb + length b \<le> mx"
  shows "\<exists>wb'. wb_write bs mx b wb = (Inr (), wb') \<and> wb_ok bs mx wb' \<and> wb_content wb' = wb_content wb @ b
    \<and> wb_wr_pos wb' = wb_wr_pos wb + length b
    \<and> wb_reserved wb' = (if wb_reserved wb < wb_wr_pos wb + length b
        then block_round bs (wb_wr_pos wb + length b) else wb_reserved wb)"
proof -
  from lazy_resize_fits [OF assms(1-3), of "length b + wb_wr_pos wb"] assms(4)
  obtain wb1 where 1: "lazy_resize bs mx (length b + wb_wr_pos wb) wb = (Inr (), wb1)" "wb_ok bs mx wb1"
    "wb_content wb1 = wb_content wb" "wb_wr_pos wb1 = wb_wr_pos wb" "length b + wb_wr_pos wb \<le> wb_reserved wb1"
    "wb_reserved wb1 = (if wb_reserved wb < length b + wb_wr_pos wb then block_round bs (length b + wb_wr_pos wb)
        else wb_reserved wb)" by auto
  from wb_store_fits [OF 1(2), of b] 1 show ?thesis
    by (auto simp: wb_write_def sbind_Inr add.commute)
qed

lemma move_down_eq:
  "dst \<le> src \<Longrightarrow> src \<le> e \<Longrightarrow> e \<le> length d \<Longrightarrow>
     take (dst + (e - src)) (move_down dst src e d) = take dst d @ take (e - src) (drop src d)
     \<and> length (move_down dst src e d) = length d"
proof (induction dst src e d rule: move_down.induct)
  case (1 dst src e d)
  show ?case
  proof (cases "src < e")
    case True
    let ?d = "d[dst := d ! src]"
    have *: "take (Suc dst) ?d = take dst d @ [d ! src]"
      using 1 True by (simp add: take_Suc_conv_app_nth)
    have "drop (Suc src) ?d = drop (Suc src) d" using 1(2) by simp
    moreover have "take (e - src) (drop src d) = d ! src # take (e - Suc src) (drop (Suc src) d)"
      using True 1 by (metis Cons_nth_drop_Suc Suc_diff_Suc less_le_trans take_Suc_Cons)
    ultimately show ?thesis using 1 True * by (subst (1 2) move_down.simps) (simp add: Suc_diff_Suc)
  next
    case False
    with 1 show ?thesis by (subst (1 2) move_down.simps) simp
  qed
qed

lemma wb_erase_content:
  assumes "wb_ok bs mx wb" "from \<le> to"
  shows "\<exists>wb'. wb_erase from to wb = (Inr (), wb') \<and> wb_ok bs mx wb'
    \<and> wb_content wb' = take from (wb_content wb) @ drop to (wb_content wb)"
proof (cases "wb_data wb")
  case None
  with assms show ?thesis by (auto simp: wb_erase_def wb_ok_def wb_content_def)
next
  case (Some d)
  show ?thesis
  proof (cases "from = to \<or> wb_wr_pos wb \<le> to")
    case True
    then show ?thesis
    proof
      assume "from = to"
      with assms show ?thesis by (simp add: wb_erase_def)
    next
      assume "wb_wr_pos wb \<le> to"
      with Some assms show ?thesis by (auto simp: wb_erase_def wb_ok_def wb_content_def min_def)
    qed
  next
    case False
    have "wb_wr_pos wb - (to - from) = from + (wb_wr_pos wb - to)" using False assms(2) by auto
    with move_down_eq [of "from" to "wb_wr_pos wb" d] Some assms False show ?thesis
      by (auto simp: wb_erase_def wb_ok_def wb_content_def drop_take min_def)
  qed
qed

section \<open>read\_buffer provides both source contracts\<close>

definition rb_stream :: "read_buffer \<Rightarrow> bytes" where
  "rb_stream rb = drop (rb_rd_pos rb) (rb_buf rb)"

lemma rb_available_stream: "rb_available rb = length (rb_stream rb)"
  by (simp add: rb_available_def rb_stream_def Let_def)

lemma rb_do_copy_stream:
  "n \<le> length (rb_stream rb) \<Longrightarrow>
     \<exists>rb'. rb_do_copy n rb = (Inr (take n (rb_stream rb)), rb') \<and> rb_stream rb' = drop n (rb_stream rb)"
  by (auto simp: rb_do_copy_def peek_def rb_stream_def add.commute)

interpretation rbuf: byte_source rb_read "\<lambda>_. True" rb_stream n for n
  by unfold_locales (auto simp: rb_read_def rb_available_stream dest: rb_do_copy_stream)

interpretation rbuf: some_source rb_read_some "\<lambda>_. True" rb_stream
proof
  fix d n assume "0 < (n :: nat)" "rb_stream d \<noteq> []"
  moreover from rb_do_copy_stream [of "min n (length (rb_stream d))" d]
  obtain d' where "rb_do_copy (min n (length (rb_stream d))) d = (Inr (take (min n (length (rb_stream d))) (rb_stream d)), d')"
    "rb_stream d' = drop (min n (length (rb_stream d))) (rb_stream d)" by auto
  ultimately show "\<exists>k d'. 0 < k \<and> k \<le> n \<and> k \<le> length (rb_stream d) \<and>
      rb_read_some n d = (Inr (take k (rb_stream d)), d') \<and> True \<and> rb_stream d' = drop k (rb_stream d)"
    by (intro exI [of _ "min n (length (rb_stream d))"] exI [of _ d'])
       (simp add: rb_read_some_def rb_available_stream)
qed (simp add: rb_read_some_def rb_available_stream)

section \<open>write\_buffer and buffered\_sink provide the sink contract\<close>

lemma default_sizes: "0 < default_block_size" "default_block_size dvd default_max_write_buffer_size"
  by (simp_all add: default_block_size_def default_max_write_buffer_size_def)

lemma wb_byte_sink:
  assumes "0 < bs" "bs dvd mx"
  shows "byte_sink (wb_write bs mx) (wb_ok bs mx) wb_content (\<lambda>wb. mx - wb_wr_pos wb)"
proof
  fix wb and b :: bytes assume ok: "wb_ok bs mx wb" and len: "length b \<le> mx - wb_wr_pos wb"
  from ok have "wb_wr_pos wb \<le> mx" by (simp add: wb_ok_def)
  with len have "wb_wr_pos wb + length b \<le> mx" by simp
  from wb_write_fits [OF ok assms this]
  show "\<exists>wb'. wb_write bs mx b wb = (Inr (), wb') \<and> wb_ok bs mx wb' \<and> wb_content wb' = wb_content wb @ b
      \<and> mx - wb_wr_pos wb - length b \<le> mx - wb_wr_pos wb'" by auto
qed

interpretation wbuf: byte_sink "wb_write default_block_size default_max_write_buffer_size"
  "wb_ok default_block_size default_max_write_buffer_size" wb_content
  "\<lambda>wb. default_max_write_buffer_size - wb_wr_pos wb"
  by (rule wb_byte_sink [OF default_sizes])

text \<open>
  What \<open>buffered_sink\<close> relies on from the decorated sink: \<open>write\<close> delivers the bytes and
  \<open>flush\<close> changes nothing that has been delivered.
\<close>

definition total_sink ::
  "(bytes \<Rightarrow> ('k, unit) op) \<Rightarrow> ('k, unit) op \<Rightarrow> ('k \<Rightarrow> bool) \<Rightarrow> ('k \<Rightarrow> bytes) \<Rightarrow> bool" where
  "total_sink kw kf k_ok delivered \<longleftrightarrow>
     (\<forall>k b. k_ok k \<longrightarrow> b \<noteq> [] \<longrightarrow>
        (\<exists>k'. kw b k = (Inr (), k') \<and> k_ok k' \<and> delivered k' = delivered k @ b))
   \<and> (\<forall>k. k_ok k \<longrightarrow> (\<exists>k'. kf k = (Inr (), k') \<and> k_ok k' \<and> delivered k' = delivered k))"

definition bk_ok :: "nat \<Rightarrow> nat \<Rightarrow> ('k \<Rightarrow> bool) \<Rightarrow> 'k buffered_sink \<Rightarrow> bool" where
  "bk_ok bs mx k_ok s \<longleftrightarrow> wb_ok bs mx (bk_buf s) \<and> k_ok (bk_decorated s)"

definition bk_written :: "('k \<Rightarrow> bytes) \<Rightarrow> 'k buffered_sink \<Rightarrow> bytes" where
  "bk_written delivered s = delivered (bk_decorated s) @ wb_content (bk_buf s)"

lemma total_sinkD:
  assumes "total_sink kw kf k_ok delivered" "k_ok k"
  shows "b \<noteq> [] \<Longrightarrow> \<exists>k'. kw b k = (Inr (), k') \<and> k_ok k' \<and> delivered k' = delivered k @ b"
    "\<exists>k'. kf k = (Inr (), k') \<and> k_ok k' \<and> delivered k' = delivered k"
  using assms unfolding total_sink_def by blast+

lemma bk_flush_delivers:
  assumes "total_sink kw kf k_ok delivered" "bk_ok bs mx k_ok s"
  shows "\<exists>s'. bk_flush kw kf s = (Inr (), s') \<and> bk_ok bs mx k_ok s' \<and> wb_wr_pos (bk_buf s') = 0
    \<and> delivered (bk_decorated s') = bk_written delivered s"
proof (cases "wb_wr_pos (bk_buf s) = 0")
  case True
  with assms(2) show ?thesis
    by (auto simp: bk_flush_def bk_written_def wb_content_def split: option.splits)
next
  case False
  with assms(2) obtain d where d: "wb_data (bk_buf s) = Some d" "wb_wr_pos (bk_buf s) \<le> length d"
    by (auto simp: bk_ok_def wb_ok_def split: option.splits)
  with False have c: "peek 0 (wb_wr_pos (bk_buf s)) (wb_data (bk_buf s)) = Inr (wb_content (bk_buf s))"
    "wb_content (bk_buf s) \<noteq> []" by (auto simp: peek_def wb_content_def)
  with assms obtain k1 where k1: "kw (wb_content (bk_buf s)) (bk_decorated s) = (Inr (), k1)" "k_ok k1"
    "delivered k1 = delivered (bk_decorated s) @ wb_content (bk_buf s)"
    using total_sinkD(1) [OF assms(1)] unfolding bk_ok_def by blast
  with assms(1) obtain k2 where "kf k1 = (Inr (), k2)" "k_ok k2" "delivered k2 = delivered k1"
    using total_sinkD(2) [OF assms(1)] by blast
  with k1 c False assms(2) show ?thesis
    by (auto simp: bk_flush_def bk_ok_def bk_written_def sbind_Inr wb_ok_clear wb_clear_def [of "bk_buf s"])
      (metis wb_clear_def wb_ok_clear)
qed

lemma bk_byte_sink:
  assumes t: "total_sink kw kf k_ok delivered" and bs: "0 < bs" "bs dvd mx"
  shows "byte_sink (bk_write bs mx kw kf) (bk_ok bs mx k_ok) (bk_written delivered) (\<lambda>_. mx)"
proof
  fix s and b :: bytes assume ok: "bk_ok bs mx k_ok s" and len: "length b \<le> mx"
  let ?pre = "if mx < wb_wr_pos (bk_buf s) + length b then bk_flush kw kf
    else if 0 < bk_flush_hint s \<and> nat (bk_flush_hint s) < wb_wr_pos (bk_buf s) + length b then bk_flush kw kf
    else sret ()"
  obtain s1 where s1: "?pre s = (Inr (), s1)" "bk_ok bs mx k_ok s1" "bk_written delivered s1 = bk_written delivered s"
    "wb_wr_pos (bk_buf s1) + length b \<le> mx"
  proof (cases "?pre = sret ()")
    case True
    then have "wb_wr_pos (bk_buf s) + length b \<le> mx \<or> bk_flush kw kf = sret ()"
      by (auto split: if_splits)
    then show ?thesis
    proof
      assume "wb_wr_pos (bk_buf s) + length b \<le> mx"
      with True ok that show ?thesis by simp
    next
      assume "bk_flush kw kf = sret ()"
      with bk_flush_delivers [OF t ok] True that ok len show ?thesis by auto
    qed
  next
    case False
    then have "?pre = bk_flush kw kf" by (auto split: if_splits)
    moreover obtain s1 where "bk_flush kw kf s = (Inr (), s1)" "bk_ok bs mx k_ok s1" "wb_wr_pos (bk_buf s1) = 0"
      "delivered (bk_decorated s1) = bk_written delivered s" using bk_flush_delivers [OF t ok] by blast
    moreover from this(2,3) have "wb_content (bk_buf s1) = []"
      by (simp add: wb_content_def split: option.splits)
    ultimately show ?thesis using that [of s1] len by (simp add: bk_written_def)
  qed
  from s1(2) have "wb_ok bs mx (bk_buf s1)" by (simp add: bk_ok_def)
  from wb_write_fits [OF this bs s1(4)] obtain wb where "wb_write bs mx b (bk_buf s1) = (Inr (), wb)" "wb_ok bs mx wb"
    "wb_content wb = wb_content (bk_buf s1) @ b" by blast
  moreover have "sbind ?pre f s = f () s1" for f :: "unit \<Rightarrow> ('a buffered_sink, unit) op"
    by (simp only: sbind_def s1(1) prod.case sum.case)
  then have "bk_write bs mx kw kf b s = bk_store bs mx b s1" unfolding bk_write_def Let_def .
  ultimately show "\<exists>s'. bk_write bs mx kw kf b s = (Inr (), s') \<and> bk_ok bs mx k_ok s' \<and>
      bk_written delivered s' = bk_written delivered s @ b \<and> mx - length b \<le> mx"
    using s1(2,3) by (auto simp: bk_store_def bk_ok_def bk_written_def)
qed

section \<open>buffered\_source provides the source contract\<close>

definition bsrc_ok :: "nat \<Rightarrow> nat \<Rightarrow> ('d \<Rightarrow> bool) \<Rightarrow> 'd buffered_source \<Rightarrow> bool" where
  "bsrc_ok bs mx dec_ok s \<longleftrightarrow>
     wb_ok bs mx (bsrc_data s) \<and> wb_ok bs mx (bsrc_other s) \<and> dec_ok (bsrc_decorated s)
     \<and> bsrc_rd_pos s \<le> wb_wr_pos (bsrc_data s) \<and> bsrc_rd_pos s \<le> mx div 2"

definition bsrc_stream :: "('d \<Rightarrow> bytes) \<Rightarrow> 'd buffered_source \<Rightarrow> bytes" where
  "bsrc_stream dec_stream s =
     drop (bsrc_rd_pos s) (wb_content (bsrc_data s)) @ dec_stream (bsrc_decorated s)"

lemma try_reset_buffer_ok:
  assumes "bsrc_ok bs mx dec_ok s"
  shows "bsrc_ok bs mx dec_ok (try_reset_buffer s)"
    "bsrc_stream dec_stream (try_reset_buffer s) = bsrc_stream dec_stream s"
  using assms length_wb_content [of bs mx "bsrc_data s"]
  by (auto simp: try_reset_buffer_def bsrc_ok_def bsrc_stream_def wb_ok_clear wb_clear_def [of "bsrc_data s"])
    (metis wb_clear_def wb_ok_clear, metis wb_clear_def wb_content_clear)

lemma wb_clear_wr_pos [simp]: "wb_wr_pos (wb_clear wb) = 0"
  by (simp add: wb_clear_def)

lemma peek_content:
  "wb_ok bs mx wb \<Longrightarrow> pos + n \<le> wb_wr_pos wb \<Longrightarrow>
     peek pos n (wb_data wb) = Inr (take n (drop pos (wb_content wb)))"
  by (auto simp: peek_def wb_ok_def wb_content_def drop_take split: option.splits)

lemma bsrc_other_set [simp]:
  "bsrc_data ((bsrc_set_other wb s)\<lparr>bsrc_first := \<not> bsrc_first s\<rparr>) = wb"
  "bsrc_other ((bsrc_set_other wb s)\<lparr>bsrc_first := \<not> bsrc_first s\<rparr>) = bsrc_data s"
  "bsrc_decorated (bsrc_set_other wb s) = bsrc_decorated s"
  by (simp_all add: bsrc_data_def bsrc_set_other_def bsrc_other_def)

lemma lazy_swap_buffers_ok:
  assumes ok: "wb_ok bs mx (bsrc_data s)" "wb_ok bs mx (bsrc_other s)" "dec_ok (bsrc_decorated s)"
    and bs: "0 < bs" "bs dvd mx" and rd: "bsrc_rd_pos s \<le> wb_wr_pos (bsrc_data s)"
  shows "\<exists>s'. lazy_swap_buffers bs mx s = (Inr (), s') \<and> bsrc_ok bs mx dec_ok s'
    \<and> bsrc_stream dec_stream s' = bsrc_stream dec_stream s"
proof (cases "wb_reserved (bsrc_data s) div 2 < bsrc_rd_pos s")
  case True
  let ?rest = "drop (bsrc_rd_pos s) (wb_content (bsrc_data s))"
  have len: "length (wb_content (bsrc_data s)) = wb_wr_pos (bsrc_data s)" "wb_wr_pos (bsrc_data s) \<le> mx"
    using ok(1) length_wb_content by (auto simp: wb_ok_def)
  have p: "peek (bsrc_rd_pos s) (wb_wr_pos (bsrc_data s) - bsrc_rd_pos s) (wb_data (bsrc_data s)) = Inr ?rest"
    using peek_content [OF ok(1)] rd len by simp
  have fits: "wb_wr_pos (wb_clear (bsrc_other s)) + length ?rest \<le> mx" using len by simp
  obtain wb where wb: "wb_write bs mx ?rest (wb_clear (bsrc_other s)) = (Inr (), wb)" "wb_ok bs mx wb"
    "wb_content wb = ?rest"
    using wb_write_fits [OF wb_ok_clear [OF ok(2)] bs fits] by auto
  show ?thesis
    using True p wb ok by (simp add: lazy_swap_buffers_def bsrc_ok_def bsrc_stream_def)
next
  case False
  have "wb_reserved (bsrc_data s) div 2 \<le> mx div 2" using ok(1) by (simp add: wb_ok_def div_le_mono)
  with False assms show ?thesis by (simp add: lazy_swap_buffers_def bsrc_ok_def)
qed

lemma bsrc_do_copy_ok:
  assumes ok: "bsrc_ok bs mx dec_ok s" and bs: "0 < bs" "bs dvd mx"
    and n: "n + bsrc_rd_pos s \<le> wb_wr_pos (bsrc_data s)"
  shows "\<exists>s'. bsrc_do_copy bs mx n s = (Inr (take n (bsrc_stream dec_stream s)), s') \<and> bsrc_ok bs mx dec_ok s'
    \<and> bsrc_stream dec_stream s' = drop n (bsrc_stream dec_stream s)"
proof -
  let ?s = "s\<lparr>bsrc_rd_pos := bsrc_rd_pos s + n\<rparr>" and ?c = "wb_content (bsrc_data s)"
  have len: "length ?c = wb_wr_pos (bsrc_data s)" using ok length_wb_content by (auto simp: bsrc_ok_def)
  have p: "peek (bsrc_rd_pos s) n (wb_data (bsrc_data s)) = Inr (take n (drop (bsrc_rd_pos s) ?c))"
    using peek_content [of bs mx "bsrc_data s" "bsrc_rd_pos s" n] ok n by (simp add: bsrc_ok_def add.commute)
  have "\<exists>s'. lazy_swap_buffers bs mx ?s = (Inr (), s') \<and> bsrc_ok bs mx dec_ok s'
      \<and> bsrc_stream dec_stream s' = bsrc_stream dec_stream ?s"
    by (rule lazy_swap_buffers_ok) (use ok bs n in \<open>simp_all add: bsrc_ok_def\<close>)
  then obtain s' where "lazy_swap_buffers bs mx ?s = (Inr (), s')" "bsrc_ok bs mx dec_ok s'"
    "bsrc_stream dec_stream s' = bsrc_stream dec_stream ?s" by blast
  moreover have "bsrc_stream dec_stream ?s = drop n (bsrc_stream dec_stream s)"
    using n len by (simp add: bsrc_stream_def drop_drop add.commute)
  moreover have "take n (bsrc_stream dec_stream s) = take n (drop (bsrc_rd_pos s) ?c)"
    using n len by (simp add: bsrc_stream_def)
  ultimately show ?thesis using n p by (simp add: bsrc_do_copy_def sbind_Inr)
qed

lemma bsrc_append_some:
  assumes ss: "some_source rs dec_ok dec_stream" and ok: "bsrc_ok bs mx dec_ok s" and bs: "0 < bs" "bs dvd mx"
    and m: "0 < m" "wb_wr_pos (bsrc_data s) + m \<le> mx" and ne: "dec_stream (bsrc_decorated s) \<noteq> []"
  shows "\<exists>k s'. bsrc_append bs mx rs m s = (Inr k, s') \<and> 0 < k \<and> bsrc_ok bs mx dec_ok s'
    \<and> bsrc_stream dec_stream s' = bsrc_stream dec_stream s"
proof -
  from ok have w: "wb_ok bs mx (bsrc_data s)" by (simp add: bsrc_ok_def)
  obtain wb1 where wb1: "lazy_resize bs mx (wb_wr_pos (bsrc_data s) + m) (bsrc_data s) = (Inr (), wb1)" "wb_ok bs mx wb1"
    "wb_content wb1 = wb_content (bsrc_data s)" "wb_wr_pos wb1 = wb_wr_pos (bsrc_data s)"
    "wb_wr_pos (bsrc_data s) + m \<le> wb_reserved wb1" using lazy_resize_fits [OF w bs m(2)] by blast
  obtain k d where k: "0 < k" "k \<le> m" "k \<le> length (dec_stream (bsrc_decorated s))"
    "rs m (bsrc_decorated s) = (Inr (take k (dec_stream (bsrc_decorated s))), d)" "dec_ok d"
    "dec_stream d = drop k (dec_stream (bsrc_decorated s))"
    using some_source.rs_some [OF ss _ m(1) ne] ok by (auto simp: bsrc_ok_def)
  let ?b = "take k (dec_stream (bsrc_decorated s))"
  have "wb_wr_pos wb1 + length ?b \<le> wb_reserved wb1" using k wb1 by simp
  from wb_store_fits [OF wb1(2) this] obtain wb2 where wb2: "wb_store ?b wb1 = (Inr (), wb2)" "wb_ok bs mx wb2"
    "wb_content wb2 = wb_content wb1 @ ?b" "wb_wr_pos wb2 = wb_wr_pos wb1 + length ?b" by blast
  have "bsrc_append bs mx rs m s = (Inr k, (bsrc_set_data wb2 s)\<lparr>bsrc_decorated := d\<rparr>)"
    using wb1(1) k wb2(1) by (simp add: bsrc_append_def append_some_from_def)
  moreover have "bsrc_rd_pos s \<le> length (wb_content (bsrc_data s))"
    using ok length_wb_content [OF w] by (simp add: bsrc_ok_def)
  ultimately show ?thesis using k wb1 wb2 ok by (auto simp: bsrc_ok_def bsrc_stream_def)
qed

lemma bsrc_append_none:
  assumes ss: "some_source rs dec_ok dec_stream" and ok: "bsrc_ok bs mx dec_ok s" and bs: "0 < bs" "bs dvd mx"
    and m: "0 < m" "wb_wr_pos (bsrc_data s) + m \<le> mx" and ne: "dec_stream (bsrc_decorated s) = []"
  shows "(\<exists>s'. bsrc_append bs mx rs m s = (Inr 0, s')) \<or> (\<exists>msg s'. bsrc_append bs mx rs m s = (Inl (Ios_failure msg), s'))"
proof -
  from ok have w: "wb_ok bs mx (bsrc_data s)" by (simp add: bsrc_ok_def)
  obtain wb1 where wb1: "lazy_resize bs mx (wb_wr_pos (bsrc_data s) + m) (bsrc_data s) = (Inr (), wb1)"
    using lazy_resize_fits [OF w bs m(2)] by blast
  have "dec_ok (bsrc_decorated s)" using ok by (simp add: bsrc_ok_def)
  from some_source.rs_none [OF ss this m(1) ne] wb1 show ?thesis
    by (auto simp: bsrc_append_def append_some_from_def wb_store_def poke_def split: prod.splits)
qed

lemma bsrc_fill_ok:
  assumes "some_source rs dec_ok dec_stream" "bsrc_ok bs mx dec_ok s" "0 < bs" "bs dvd mx" "n \<le> mx div 4"
  shows "if n \<le> length (bsrc_stream dec_stream s)
    then \<exists>s'. bsrc_fill bs mx rs n s = (Inr (), s') \<and> bsrc_ok bs mx dec_ok s'
      \<and> bsrc_stream dec_stream s' = bsrc_stream dec_stream s \<and> n + bsrc_rd_pos s' \<le> wb_wr_pos (bsrc_data s')
    else \<exists>msg s'. bsrc_fill bs mx rs n s = (Inl (Ios_failure msg), s')"
  using assms
proof (induction bs mx rs n s rule: bsrc_fill.induct)
  case (1 bs mx rs n s0)
  define s where "s = try_reset_buffer s0"
  have s: "bsrc_available s0 = (wb_wr_pos (bsrc_data s) - bsrc_rd_pos s, s)"
    by (simp add: prod_eq_iff fst_bsrc_available snd_bsrc_available s_def try_reset_buffer_avail)
  have ok: "bsrc_ok bs mx dec_ok s" "bsrc_stream dec_stream s = bsrc_stream dec_stream s0"
    unfolding s_def using try_reset_buffer_ok [OF 1(3)] by blast+
  have len: "length (bsrc_stream dec_stream s) = wb_wr_pos (bsrc_data s) - bsrc_rd_pos s
      + length (dec_stream (bsrc_decorated s))"
    using ok(1) by (auto simp: bsrc_stream_def bsrc_ok_def length_wb_content)
  let ?m = "max (wb_remaining (bsrc_data s)) n"
  show ?case
  proof (cases "wb_wr_pos (bsrc_data s) - bsrc_rd_pos s < n")
    case False
    with ok s len show ?thesis by (subst (1 2) bsrc_fill.simps) (auto simp: bsrc_ok_def)
  next
    case True
    have m: "0 < ?m" "wb_wr_pos (bsrc_data s) + ?m \<le> mx"
      using True ok(1) 1(6) by (auto simp: bsrc_ok_def wb_ok_def wb_remaining_def max_def)
    show ?thesis
    proof (cases "dec_stream (bsrc_decorated s) = []")
      case e: True
      from bsrc_append_none [OF 1(2) ok(1) 1(4,5) m e] True len e ok(2) s show ?thesis
        by (subst (1 2) bsrc_fill.simps) auto
    next
      case e: False
      from bsrc_append_some [OF 1(2) ok(1) 1(4,5) m e] obtain k s1 where
        a: "bsrc_append bs mx rs ?m s = (Inr k, s1)" "0 < k" "bsrc_ok bs mx dec_ok s1"
          "bsrc_stream dec_stream s1 = bsrc_stream dec_stream s" by blast
      from 1(1) [OF s [symmetric] refl True a(1) [symmetric] refl _ 1(2) a(3) 1(4-6)] a(2,4) ok(2)
      show ?thesis using True s a by (subst (1 2) bsrc_fill.simps) (simp split: if_splits)
    qed
  qed
qed

lemma bsrc_byte_source:
  assumes ss: "some_source rs dec_ok dec_stream" and bs: "0 < bs" "bs dvd mx"
  shows "byte_source (bsrc_read bs mx rs) (bsrc_ok bs mx dec_ok) (bsrc_stream dec_stream) (mx div 4)"
proof
  fix s n assume ok: "bsrc_ok bs mx dec_ok s" and n: "n \<le> mx div 4"
  note fill = bsrc_fill_ok [OF ss ok bs n]
  {
    assume "n \<le> length (bsrc_stream dec_stream s)"
    with fill obtain s1 where "bsrc_fill bs mx rs n s = (Inr (), s1)" "bsrc_ok bs mx dec_ok s1"
      "bsrc_stream dec_stream s1 = bsrc_stream dec_stream s" "n + bsrc_rd_pos s1 \<le> wb_wr_pos (bsrc_data s1)" by auto
    with bsrc_do_copy_ok [OF this(2) bs this(4), of dec_stream]
    show "\<exists>s'. bsrc_read bs mx rs n s = (Inr (take n (bsrc_stream dec_stream s)), s') \<and>
        bsrc_ok bs mx dec_ok s' \<and> bsrc_stream dec_stream s' = drop n (bsrc_stream dec_stream s)"
      by (simp add: bsrc_read_def sbind_Inr)
  next
    assume "length (bsrc_stream dec_stream s) < n"
    with fill show "\<exists>msg s'. bsrc_read bs mx rs n s = (Inl (Ios_failure msg), s')"
      by (auto simp: bsrc_read_def sbind_Inl)
  }
qed

interpretation bsrc: byte_source
  "bsrc_read default_block_size default_max_write_buffer_size rb_read_some"
  "bsrc_ok default_block_size default_max_write_buffer_size (\<lambda>_. True)"
  "bsrc_stream rb_stream" "default_max_write_buffer_size div 4"
  by (rule bsrc_byte_source [OF rbuf.some_source_axioms default_sizes])

section \<open>Properties\<close>

text \<open>\<open>write_buffer::write\<close> appends exactly the given bytes and keeps the buffer's invariant
  as long as the content stays within \<open>maximum_size\<close>, and throws \<open>ios_base::failure\<close> exactly
  when it would not.\<close>

theorem write_buffer_write:
  assumes "wb_ok bs mx wb" "0 < bs" "bs dvd mx"
  shows "if wb_wr_pos wb + length b \<le> mx
    then \<exists>wb'. wb_write bs mx b wb = (Inr (), wb') \<and> wb_ok bs mx wb' \<and> wb_content wb' = wb_content wb @ b
    else \<exists>wb'. wb_write bs mx b wb = (Inl (Ios_failure ''Buffer exceeds maximum size''), wb')"
proof (cases "wb_wr_pos wb + length b \<le> mx")
  case True
  with wb_write_fits [OF assms True] show ?thesis by auto
next
  case False
  with assms block_round_ge [of bs "length b + wb_wr_pos wb"] show ?thesis
    by (auto simp: wb_write_def lazy_resize_def sbind_def Let_def wb_ok_def)
qed

theorem write_buffer_write_witness:
  "\<exists>wb'. wb_write 4 8 ''abc'' new_write_buffer = (Inr (), wb') \<and> wb_ok 4 8 wb' \<and> wb_content wb' = ''abc''"
  using write_buffer_write [of 4 8 new_write_buffer "''abc''"] wb_ok_new [of 4 8] wb_content_new
  by (simp add: new_write_buffer_def)

text \<open>C39: The throw is not clean: \<open>lazy_resize\<close> has already raised \<open>m_reserved\<close> and not the
  allocation, so a later write that needs more than the old allocation, and no more than the
  refused size, runs past the end of the array.\<close>

theorem write_buffer_after_throw:
  assumes "wb_ok bs mx wb" "0 < bs" "mx < wb_wr_pos wb + length big"
    and "wb_reserved wb < wb_wr_pos wb + length b" "length b \<le> length big"
  shows "\<exists>wb' msg. wb_write bs mx big wb = (Inl (Ios_failure ''Buffer exceeds maximum size''), wb')
    \<and> fst (wb_write bs mx b wb') = Inl (Undefined_behaviour msg)"
proof -
  let ?r = "block_round bs (length big + wb_wr_pos wb)"
  let ?wb' = "wb\<lparr>wb_reserved := ?r\<rparr>"
  have r: "length big + wb_wr_pos wb \<le> ?r" using assms(2) by (rule block_round_ge)
  have "wb_write bs mx big wb = (Inl (Ios_failure ''Buffer exceeds maximum size''), ?wb')"
    using assms r by (auto simp: wb_write_def lazy_resize_def sbind_def Let_def wb_ok_def)
  moreover have "lazy_resize bs mx (length b + wb_wr_pos wb) ?wb' = (Inr (), ?wb')"
    using assms r by (simp add: lazy_resize_def)
  moreover have "b \<noteq> []" "case wb_data wb of None \<Rightarrow> True | Some d \<Rightarrow> length d < wb_wr_pos wb + length b"
    using assms by (auto simp: wb_ok_def split: option.splits)
  ultimately show ?thesis
    by (auto simp: wb_write_def sbind_Inr wb_store_def poke_def split: option.splits)
qed

theorem write_buffer_after_throw_witness:
  "\<exists>wb' msg. wb_write 4 8 ''123456789'' new_write_buffer = (Inl (Ios_failure ''Buffer exceeds maximum size''), wb')
    \<and> fst (wb_write 4 8 ''1'' wb') = Inl (Undefined_behaviour msg)"
  using write_buffer_after_throw [of 4 8 new_write_buffer "''123456789''" "''1''"] wb_ok_new [of 4 8]
  by (simp add: new_write_buffer_def)

text \<open>\<open>write_buffer::erase(from, to)\<close>, which moves the tail down byte by byte, removes
  exactly the bytes \<open>[from, to)\<close> of the content.\<close>

theorem write_buffer_erase:
  assumes "wb_ok bs mx wb" "from \<le> to"
  shows "\<exists>wb'. wb_erase from to wb = (Inr (), wb') \<and> wb_ok bs mx wb'
    \<and> wb_content wb' = take from (wb_content wb) @ drop to (wb_content wb)"
  using assms by (rule wb_erase_content)

theorem write_buffer_erase_witness:
  "(let wb = \<lparr>wb_data = Some ''hello world!'', wb_wr_pos = 11, wb_reserved = 12\<rparr> in
     \<exists>wb'. wb_erase 2 8 wb = (Inr (), wb') \<and> wb_content wb' = ''herld'')"
  using write_buffer_erase [of 4 12 "\<lparr>wb_data = Some ''hello world!'', wb_wr_pos = 11, wb_reserved = 12\<rparr>" 2 8]
  by (auto simp: wb_ok_def wb_content_def)

end
