(* ===== verification/Socket_Io.thy ===== *)
theory Socket_Io
  imports Buffers
begin

text \<open>
  The stream socket of the IPC channels (\<open>libhamcast/src/socket_io.cpp\<close>) below the buffers.
  The system calls \<open>write\<close>, \<open>read\<close> and \<open>close\<close> are arguments: \<open>os_write fd buf\<close> returns the
  number of bytes taken (negative on an error), \<open>os_read fd n\<close> the return value and the bytes.
  Their documented behaviour on a stream is the predicates \<open>os_write_all\<close> and
  \<open>os_read_stream\<close>. The properties compose the whole stack: what is written through a
  \<open>buffered_sink\<close> is on the wire, in order, after \<open>flush\<close>; what a \<open>buffered_source\<close> returns is
  the wire, in order. The name of the error number is left out of the text of exceptions.
\<close>

section \<open>native\_socket\_io\<close>

record native_socket_io =
  ns_closed :: bool
  ns_wr :: int
  ns_rd :: int
  ns_mss :: int

type_synonym 'o nsio = "native_socket_io \<times> 'o"

definition new_socket :: "int \<Rightarrow> int \<Rightarrow> native_socket_io" where
  "new_socket ns mss = \<lparr>ns_closed = False, ns_wr = ns, ns_rd = ns, ns_mss = mss\<rparr>"

definition new_pipe :: "int \<Rightarrow> int \<Rightarrow> native_socket_io" where
  "new_pipe rd wr = \<lparr>ns_closed = False, ns_wr = wr, ns_rd = rd, ns_mss = 0\<rparr>"

definition ns_flush_hint :: "native_socket_io \<Rightarrow> int" where
  "ns_flush_hint ns = ns_mss ns"

definition ns_write :: "(int \<Rightarrow> bytes \<Rightarrow> 'o \<Rightarrow> int \<times> 'o) \<Rightarrow> bytes \<Rightarrow> ('o nsio, unit) op" where
  "ns_write os_write buf s =
     (if \<not> ns_closed (fst s) then
        let (r, os) = os_write (ns_wr (fst s)) buf (snd s) in
        if int (length buf) \<noteq> r then (Inl (Ios_failure ''Cannot write to socket''), (fst s, os))
        else (Inr (), (fst s, os))
      else (Inr (), s))"

definition ns_flush :: "('o nsio, unit) op" where
  "ns_flush s = (Inr (), s)"

definition ns_read_some :: "(int \<Rightarrow> nat \<Rightarrow> 'o \<Rightarrow> (int \<times> bytes) \<times> 'o) \<Rightarrow> nat \<Rightarrow> ('o nsio, bytes) op" where
  "ns_read_some os_read mx s =
     (if mx = 0 then (Inr [], s)
      else let ((r, b), os) = os_read (ns_rd (fst s)) mx (snd s) in
        if r = 0 then (Inl (Ios_failure ''lost connection!''), (fst s, os))
        else if r < 0 then (Inl (Ios_failure ''read failure: ''), (fst s, os))
        else (Inr b, (fst s, os)))"

text \<open>
  \<open>read\<close> collects \<open>buf_size\<close> bytes. The loop ends because \<open>read_some\<close> returns at least one
  byte or throws; a kernel that claims a positive count and delivers nothing is outside its
  documentation, and the model stops there.
\<close>

function ns_read :: "(int \<Rightarrow> nat \<Rightarrow> 'o \<Rightarrow> (int \<times> bytes) \<times> 'o) \<Rightarrow> nat \<Rightarrow> ('o nsio, bytes) op" where
  "ns_read os_read buf_size s =
     (if buf_size = 0 then (Inr [], s)
      else case ns_read_some os_read buf_size s of
        (Inl e, s') \<Rightarrow> (Inl e, s')
      | (Inr b, s') \<Rightarrow>
          if b = [] then (Inl (Undefined_behaviour ''read(2)''), s')
          else (case ns_read os_read (buf_size - length b) s' of
                  (Inl e, s'') \<Rightarrow> (Inl e, s'')
                | (Inr c, s'') \<Rightarrow> (Inr (b @ c), s'')))"
  by pat_completeness auto
termination by (relation "measure (\<lambda>(os_read, n, s). n)") auto

declare ns_read.simps [simp del]

definition ns_close :: "(int \<Rightarrow> 'o \<Rightarrow> 'o) \<Rightarrow> 'o nsio \<Rightarrow> 'o nsio" where
  "ns_close os_close s =
     (if \<not> ns_closed (fst s) then
        let os = os_close (ns_wr (fst s)) (snd s);
            os' = (if ns_wr (fst s) \<noteq> ns_rd (fst s) then os_close (ns_wr (fst s)) os else os)
        in ((fst s)\<lparr>ns_closed := True\<rparr>, os')
      else s)"

section \<open>The system calls as the code relies on them\<close>

text \<open>
  \<open>write(2)\<close> on the descriptor takes the whole buffer and appends it to what the peer will
  read; \<open>read(2)\<close> returns between one and \<open>n\<close> of the bytes the peer has sent, and zero once
  they are used up and the peer is gone.
\<close>

definition os_write_all :: "(int \<Rightarrow> bytes \<Rightarrow> 'o \<Rightarrow> int \<times> 'o) \<Rightarrow> int \<Rightarrow> ('o \<Rightarrow> bytes) \<Rightarrow> bool" where
  "os_write_all os_write fd sent \<longleftrightarrow>
     (\<forall>b os. \<exists>os'. os_write fd b os = (int (length b), os') \<and> sent os' = sent os @ b)"

definition os_read_stream :: "(int \<Rightarrow> nat \<Rightarrow> 'o \<Rightarrow> (int \<times> bytes) \<times> 'o) \<Rightarrow> int \<Rightarrow> ('o \<Rightarrow> bytes) \<Rightarrow> bool" where
  "os_read_stream os_read fd incoming \<longleftrightarrow>
     (\<forall>n os. 0 < n \<longrightarrow> incoming os \<noteq> [] \<longrightarrow>
        (\<exists>k os'. 0 < k \<and> k \<le> n \<and> k \<le> length (incoming os)
           \<and> os_read fd n os = ((int k, take k (incoming os)), os') \<and> incoming os' = drop k (incoming os)))
   \<and> (\<forall>n os. 0 < n \<longrightarrow> incoming os = [] \<longrightarrow> fst (fst (os_read fd n os)) = 0)"

lemma ns_total_sink:
  assumes "os_write_all os_write fd sent"
  shows "total_sink (ns_write os_write) ns_flush (\<lambda>s. \<not> ns_closed (fst s) \<and> ns_wr (fst s) = fd) (\<lambda>s. sent (snd s))"
proof -
  have "\<exists>k'. ns_write os_write b k = (Inr (), k') \<and> (\<not> ns_closed (fst k') \<and> ns_wr (fst k') = fd)
      \<and> sent (snd k') = sent (snd k) @ b" if "\<not> ns_closed (fst k) \<and> ns_wr (fst k) = fd" for b k
  proof -
    obtain os' where "os_write fd b (snd k) = (int (length b), os')" "sent os' = sent (snd k) @ b"
      using assms unfolding os_write_all_def by blast
    with that show ?thesis by (simp add: ns_write_def)
  qed
  then show ?thesis by (auto simp: total_sink_def ns_flush_def)
qed

lemma ns_some_source:
  assumes "os_read_stream os_read fd incoming"
  shows "some_source (ns_read_some os_read) (\<lambda>s. ns_rd (fst s) = fd) (\<lambda>s. incoming (snd s))"
proof
  fix s :: "'a nsio" and n :: nat
  assume s: "ns_rd (fst s) = fd" "0 < n" "incoming (snd s) \<noteq> []"
  with assms obtain k os' where "0 < k" "k \<le> n" "k \<le> length (incoming (snd s))"
    "os_read fd n (snd s) = ((int k, take k (incoming (snd s))), os')" "incoming os' = drop k (incoming (snd s))"
    unfolding os_read_stream_def by blast
  with s show "\<exists>k s'. 0 < k \<and> k \<le> n \<and> k \<le> length (incoming (snd s)) \<and>
      ns_read_some os_read n s = (Inr (take k (incoming (snd s))), s') \<and> ns_rd (fst s') = fd \<and>
      incoming (snd s') = drop k (incoming (snd s))"
    by (intro exI [of _ k] exI [of _ "(fst s, os')"]) (simp add: ns_read_some_def)
next
  fix s :: "'a nsio" and n :: nat
  assume s: "ns_rd (fst s) = fd" "0 < n" "incoming (snd s) = []"
  with assms have "fst (fst (os_read fd n (snd s))) = 0" unfolding os_read_stream_def by blast
  with s show "(\<exists>s'. ns_read_some os_read n s = (Inr [], s')) \<or>
      (\<exists>msg s'. ns_read_some os_read n s = (Inl (Ios_failure msg), s'))"
    by (cases "os_read fd n (snd s)") (auto simp: ns_read_some_def)
qed

lemma ns_read_enough:
  assumes "os_read_stream os_read fd incoming" "ns_rd (fst s) = fd" "n \<le> length (incoming (snd s))"
  shows "\<exists>os'. ns_read os_read n s = (Inr (take n (incoming (snd s))), (fst s, os')) \<and> incoming os' = drop n (incoming (snd s))"
  using assms
proof (induction os_read n s rule: ns_read.induct)
  case (1 os_read n s)
  show ?case
  proof (cases "n = 0")
    case True
    then show ?thesis by (subst ns_read.simps) (auto intro: exI [of _ "snd s"])
  next
    case False
    with 1 have "incoming (snd s) \<noteq> []" by auto
    with False 1 obtain k os1 where k: "0 < k" "k \<le> n" "k \<le> length (incoming (snd s))"
      "os_read fd n (snd s) = ((int k, take k (incoming (snd s))), os1)" "incoming os1 = drop k (incoming (snd s))"
      unfolding os_read_stream_def by blast
    then have r: "ns_read_some os_read n s = (Inr (take k (incoming (snd s))), (fst s, os1))"
      using 1(3) False by (simp add: ns_read_some_def)
    have "take k (incoming (snd s)) \<noteq> []" "length (take k (incoming (snd s))) = k" using k by auto
    with 1(1) [OF False r [symmetric] refl _ 1(2)] 1(3) diff_le_mono [OF 1(4), of k] k obtain os2 where
      "ns_read os_read (n - k) (fst s, os1) = (Inr (take (n - k) (incoming os1)), (fst s, os2))"
      "incoming os2 = drop (n - k) (incoming os1)" by auto
    with False r k show ?thesis
      by (subst ns_read.simps) (auto simp: take_drop [symmetric] take_add [symmetric] intro!: exI [of _ os2])
  qed
qed

section \<open>Properties\<close>


text \<open>A kernel that transfers everything at once, for the witnesses.\<close>

definition list_write :: "int \<Rightarrow> bytes \<Rightarrow> bytes \<Rightarrow> int \<times> bytes" where
  "list_write fd b os = (int (length b), os @ b)"

definition list_read :: "int \<Rightarrow> nat \<Rightarrow> bytes \<Rightarrow> (int \<times> bytes) \<times> bytes" where
  "list_read fd n os = ((int (min n (length os)), take n os), drop n os)"

lemma list_write_all: "os_write_all list_write fd id"
  by (simp add: os_write_all_def list_write_def)

lemma list_read_stream: "os_read_stream list_read fd id"
  unfolding os_read_stream_def
proof (intro conjI allI impI)
  fix n :: nat and os :: bytes assume "0 < n" "id os \<noteq> []"
  then show "\<exists>k os'. 0 < k \<and> k \<le> n \<and> k \<le> length (id os) \<and> list_read fd n os = ((int k, take k (id os)), os')
      \<and> id os' = drop k (id os)"
    by (intro exI [of _ "min n (length os)"] exI [of _ "drop n os"]) (auto simp: list_read_def min_def)
qed (simp add: list_read_def)


text \<open>C15: \<open>buffered_source::read\<close> on a stream socket returns exactly the next bytes of the
  stream, for any read up to a quarter of the buffer limit and however the kernel cuts the
  stream into pieces, and leaves the rest of the stream to be read; with too few bytes it
  throws \<open>ios_base::failure\<close>.\<close>

theorem buffered_socket_read:
  assumes "os_read_stream os_read fd incoming"
    and "bsrc_ok default_block_size default_max_write_buffer_size (\<lambda>s. ns_rd (fst s) = fd) s"
    and "n \<le> default_max_write_buffer_size div 4"
  shows "case bsrc_read default_block_size default_max_write_buffer_size (ns_read_some os_read) n s of
      (Inr b, s') \<Rightarrow> b = take n (bsrc_stream (\<lambda>s. incoming (snd s)) s) \<and> length b = n
         \<and> bsrc_stream (\<lambda>s. incoming (snd s)) s' = drop n (bsrc_stream (\<lambda>s. incoming (snd s)) s)
    | (Inl e, s') \<Rightarrow> length (bsrc_stream (\<lambda>s. incoming (snd s)) s) < n \<and> (\<exists>msg. e = Ios_failure msg)"
proof -
  note src = bsrc_byte_source [OF ns_some_source [OF assms(1)] default_sizes]
  show ?thesis
  proof (cases "n \<le> length (bsrc_stream (\<lambda>s. incoming (snd s)) s)")
    case True
    with byte_source.rd_enough [OF src assms(2,3)] show ?thesis by auto
  next
    case False
    with byte_source.rd_short [OF src assms(2,3)] show ?thesis by auto
  qed
qed

theorem buffered_socket_read_witness:
  "case new_buffered_source default_block_size default_max_write_buffer_size (new_socket 7 0, ''hello'') of
     Inl e \<Rightarrow> False
   | Inr s \<Rightarrow>
       (case bsrc_read default_block_size default_max_write_buffer_size (ns_read_some list_read) 2 s of
          (Inr b, s') \<Rightarrow> b = ''he'' \<and> bsrc_stream snd s' = ''llo''
        | (Inl e, s') \<Rightarrow> False)"
proof -
  let ?wb = "\<lparr>wb_data = Some (replicate 1024 CHR 0x00), wb_wr_pos = 0, wb_reserved = 1024\<rparr>"
  let ?s = "\<lparr>bsrc_decorated = (new_socket 7 0, ''hello''), bsrc_rd_pos = 0, bsrc_buf1 = ?wb, bsrc_buf2 = ?wb,
    bsrc_first = True\<rparr>"
  have n: "new_buffered_source default_block_size default_max_write_buffer_size (new_socket 7 0, ''hello'') = Inr ?s"
    by (simp add: new_buffered_source_def wb_reserve_def lazy_resize_def new_write_buffer_def block_round_def
      default_block_size_def default_max_write_buffer_size_def Let_def)
  have "bsrc_ok default_block_size default_max_write_buffer_size (\<lambda>s. ns_rd (fst s) = 7) ?s"
    by (simp add: bsrc_ok_def bsrc_data_def bsrc_other_def wb_ok_def new_socket_def
      default_block_size_def default_max_write_buffer_size_def)
  from buffered_socket_read [OF list_read_stream this, of 2]
  show ?thesis unfolding n
    by (auto simp: bsrc_stream_def [of _ ?s] bsrc_data_def [of ?s] wb_content_def default_max_write_buffer_size_def
      split: prod.splits sum.splits)
qed

end
