(* ===== verification/Std_Map.thy ===== *)
theory Std_Map
  imports Hc_Prelude
begin

text \<open>
  \<open>std::map\<close> as the code uses it: a list of key/value pairs in strictly ascending key
  order, so that iteration (\<open>begin()\<close> to \<open>end()\<close>) is the list itself. \<open>sm_insert\<close> is
  \<open>map::insert\<close> (it keeps an existing entry), \<open>sm_put\<close> is assignment through
  \<open>operator[]\<close>, \<open>sm_erase\<close> is \<open>map::erase(key)\<close>, lookup is \<^const>\<open>map_of\<close>.
  \<open>sm_upto k\<close> is the range from \<open>begin()\<close> to \<open>upper_bound(k)\<close>, \<open>sm_above k\<close> the rest,
  \<open>sm_from k\<close> the range from \<open>lower_bound(k)\<close> to \<open>end()\<close>.
  \<open>std::set\<close> is a map to \<^typ>\<open>unit\<close>.
\<close>

type_synonym ('k, 'v) smap = "('k \<times> 'v) list"

fun sm_insert :: "'k::linorder \<Rightarrow> 'v \<Rightarrow> ('k, 'v) smap \<Rightarrow> ('k, 'v) smap" where
  "sm_insert k v [] = [(k, v)]"
| "sm_insert k v ((k', v') # m) =
     (if k < k' then (k, v) # (k', v') # m
      else if k = k' then (k', v') # m
      else (k', v') # sm_insert k v m)"

fun sm_put :: "'k::linorder \<Rightarrow> 'v \<Rightarrow> ('k, 'v) smap \<Rightarrow> ('k, 'v) smap" where
  "sm_put k v [] = [(k, v)]"
| "sm_put k v ((k', v') # m) =
     (if k < k' then (k, v) # (k', v') # m
      else if k = k' then (k, v) # m
      else (k', v') # sm_put k v m)"

definition sm_erase :: "'k \<Rightarrow> ('k, 'v) smap \<Rightarrow> ('k, 'v) smap" where
  "sm_erase k m = filter (\<lambda>p. fst p \<noteq> k) m"

definition sm_upto :: "'k::linorder \<Rightarrow> ('k, 'v) smap \<Rightarrow> ('k, 'v) smap" where
  "sm_upto k m = takeWhile (\<lambda>p. fst p \<le> k) m"

definition sm_above :: "'k::linorder \<Rightarrow> ('k, 'v) smap \<Rightarrow> ('k, 'v) smap" where
  "sm_above k m = dropWhile (\<lambda>p. fst p \<le> k) m"

definition sm_from :: "'k::linorder \<Rightarrow> ('k, 'v) smap \<Rightarrow> ('k, 'v) smap" where
  "sm_from k m = dropWhile (\<lambda>p. fst p < k) m"

definition sm_ok :: "('k::linorder, 'v) smap \<Rightarrow> bool" where
  "sm_ok m \<longleftrightarrow> sorted_wrt (<) (map fst m)"

lemma sm_ok_Nil [simp]: "sm_ok []"
  by (simp add: sm_ok_def)

lemma sm_ok_Cons: "sm_ok ((k, v) # m) \<longleftrightarrow> (\<forall>k' \<in> fst ` set m. k < k') \<and> sm_ok m"
  by (auto simp: sm_ok_def)

lemma sm_ok_distinct: "sm_ok m \<Longrightarrow> distinct (map fst m)"
  by (simp add: sm_ok_def strict_sorted_iff)

lemma keys_sm_insert [simp]: "fst ` set (sm_insert k v m) = insert k (fst ` set m)"
  by (induction k v m rule: sm_insert.induct) auto

lemma keys_sm_put [simp]: "fst ` set (sm_put k v m) = insert k (fst ` set m)"
  by (induction k v m rule: sm_put.induct) auto

lemma keys_sm_erase [simp]: "fst ` set (sm_erase k m) = fst ` set m - {k}"
  by (auto simp: sm_erase_def)

lemma sm_ok_insert [simp, intro]: "sm_ok m \<Longrightarrow> sm_ok (sm_insert k v m)"
  by (induction k v m rule: sm_insert.induct) (auto simp: sm_ok_Cons)

lemma sm_ok_put [simp, intro]: "sm_ok m \<Longrightarrow> sm_ok (sm_put k v m)"
  by (induction k v m rule: sm_put.induct) (auto simp: sm_ok_Cons)

lemma sm_ok_erase [simp, intro]: "sm_ok m \<Longrightarrow> sm_ok (sm_erase k m)"
  by (induction m) (auto simp: sm_erase_def sm_ok_Cons)

lemma map_of_sm_put [simp]: "map_of (sm_put k v m) = (map_of m)(k \<mapsto> v)"
  by (induction k v m rule: sm_put.induct) (auto simp: fun_eq_iff)

lemma map_of_sm_insert [simp]:
  "sm_ok m \<Longrightarrow> map_of (sm_insert k v m) = (if map_of m k = None then (map_of m)(k \<mapsto> v) else map_of m)"
proof (induction k v m rule: sm_insert.induct)
  case (1 k v)
  then show ?case by simp
next
  case (2 k v k' v' m)
  show ?case
  proof (cases "k < k'")
    case True
    with 2(2) have "map_of m k = None" by (auto simp: sm_ok_Cons map_of_eq_None_iff)
    with True show ?thesis by auto
  next
    case False
    with 2 show ?thesis by (auto simp: sm_ok_Cons fun_eq_iff)
  qed
qed

lemma map_of_sm_erase [simp]: "map_of (sm_erase k m) = (map_of m)(k := None)"
  by (induction m) (auto simp: sm_erase_def fun_eq_iff)

lemma sm_upto_above [simp]: "sm_upto k m @ sm_above k m = m"
  by (simp add: sm_upto_def sm_above_def)

lemma set_sm_upto: "sm_ok m \<Longrightarrow> set (sm_upto k m) = {p \<in> set m. fst p \<le> k}"
  by (induction m) (force simp: sm_upto_def sm_ok_def)+

lemma set_sm_above: "sm_ok m \<Longrightarrow> set (sm_above k m) = {p \<in> set m. k < fst p}"
  by (induction m) (force simp: sm_above_def sm_ok_def)+

lemma sm_ok_above [simp, intro]: "sm_ok m \<Longrightarrow> sm_ok (sm_above k m)"
  unfolding sm_ok_def sm_above_def
  by (metis map_append sorted_wrt_append takeWhile_dropWhile_id)

lemma sm_ok_upto [simp, intro]: "sm_ok m \<Longrightarrow> sm_ok (sm_upto k m)"
  unfolding sm_ok_def sm_upto_def
  by (metis map_append sorted_wrt_append takeWhile_dropWhile_id)

lemma map_of_in_set: "sm_ok m \<Longrightarrow> map_of m k = Some v \<longleftrightarrow> (k, v) \<in> set m"
  by (simp add: sm_ok_distinct)

lemma sm_ok_filter [intro]: "sm_ok m \<Longrightarrow> sm_ok (filter P m)"
  by (simp add: sm_ok_def sorted_wrt_map sorted_wrt_filter)

lemma sm_ok_map: "(\<And>p. fst (f p) = fst p) \<Longrightarrow> sm_ok (map f m) = sm_ok m"
  by (simp add: sm_ok_def comp_def)

lemma sm_unique: "sm_ok m \<Longrightarrow> (k, v) \<in> set m \<Longrightarrow> (k, v') \<in> set m \<Longrightarrow> v = v'"
  by (metis map_of_in_set option.inject)

lemma set_sm_insert_subset: "set (sm_insert k v m) \<subseteq> insert (k, v) (set m)"
  by (induction k v m rule: sm_insert.induct) auto

lemma set_sm_put_subset: "set (sm_put k v m) \<subseteq> insert (k, v) (set m)"
  by (induction k v m rule: sm_put.induct) auto

lemma length_sm_insert: "length (sm_insert k v m) \<le> Suc (length m)"
  by (induction k v m rule: sm_insert.induct) auto

lemma sm_insert_last: "\<forall>k' \<in> fst ` set m. k' < k \<Longrightarrow> sm_insert k v m = m @ [(k, v)]"
  by (induction m rule: sm_insert.induct [where ?a0.0 = k and ?a1.0 = v]) auto

lemma fold_sm_insert:
  "sm_ok (m @ xs) \<Longrightarrow> fold (\<lambda>(k, v) m. sm_insert k v m) xs m = m @ xs"
proof (induction xs arbitrary: m)
  case (Cons x xs)
  obtain k v where x: "x = (k, v)" by (cases x)
  have "sm_insert k v m = m @ [x]"
    using Cons.prems unfolding x by (intro sm_insert_last) (auto simp: sm_ok_def sorted_wrt_append)
  with Cons.IH [of "m @ [x]"] Cons.prems show ?case by (simp add: x)
qed simp

end
