(* ===== verification/Uri.thy ===== *)
theory Uri
  imports Hc_Prelude
begin

text \<open>
  Multicast URIs (\<open>libhamcast/src/uri.cpp\<close>, \<open>libhamcast/hamcast/uri.hpp\<close>): the character
  automaton \<open>consume\<close>, the two parse passes, the factory \<open>from\<close> with the shared default
  object, the accessors, and the comparison by \<open>str()\<close>. The lemmas show which fields a
  written-out URI parses to, that an accepted string is the rendering of its fields, that a
  URI is determined by \<open>str()\<close>, and that the IPv4 pattern accepts exactly the canonical
  dotted quads.
\<close>

section \<open>Characters and library functions\<close>

definition tolower :: "char \<Rightarrow> char" where
  "tolower c = (if CHR ''A'' \<le> c \<and> c \<le> CHR ''Z'' then char_of (of_char c + (32::nat)) else c)"

definition is_digit :: "char \<Rightarrow> bool" where
  "is_digit c \<longleftrightarrow> CHR ''0'' \<le> c \<and> c \<le> CHR ''9''"

definition digit_val :: "char \<Rightarrow> nat" where
  "digit_val c = of_char c - 48"

definition is_space :: "char \<Rightarrow> bool" where
  "is_space c \<longleftrightarrow> c \<in> {CHR '' '', CHR 0x09, CHR 0x0A, CHR 0x0B, CHR 0x0C, CHR 0x0D}"

definition digits_val :: "string \<Rightarrow> nat" where
  "digits_val ds = foldl (\<lambda>n c. 10 * n + digit_val c) 0 ds"

text \<open>
  \<open>atoi\<close>: leading white space, an optional sign, the longest run of digits. The result is
  \<open>None\<close> where the value does not fit an \<open>int\<close>, which C leaves undefined.
\<close>

definition atoi :: "string \<Rightarrow> int option" where
  "atoi s =
     (let t = dropWhile is_space s;
          neg = (t \<noteq> [] \<and> hd t = CHR ''-'');
          u = (if t \<noteq> [] \<and> (hd t = CHR ''-'' \<or> hd t = CHR ''+'') then tl t else t);
          n = int (digits_val (takeWhile is_digit u));
          v = (if neg then - n else n)
      in if - (2 ^ 31) \<le> v \<and> v < 2 ^ 31 then Some v else None)"

section \<open>The IPv4 pattern\<close>

text \<open>\<open>[1-9][0-9] | [0-9] | 1[0-9][0-9] | 2[0-4][0-9] | 25[0-5]\<close>\<close>

fun is_octet :: "string \<Rightarrow> bool" where
  "is_octet [a] \<longleftrightarrow> is_digit a"
| "is_octet [a, b] \<longleftrightarrow> CHR ''1'' \<le> a \<and> a \<le> CHR ''9'' \<and> is_digit b"
| "is_octet [a, b, c] \<longleftrightarrow>
     a = CHR ''1'' \<and> is_digit b \<and> is_digit c
   \<or> a = CHR ''2'' \<and> CHR ''0'' \<le> b \<and> b \<le> CHR ''4'' \<and> is_digit c
   \<or> a = CHR ''2'' \<and> b = CHR ''5'' \<and> CHR ''0'' \<le> c \<and> c \<le> CHR ''5''"
| "is_octet _ \<longleftrightarrow> False"

fun split_dot :: "string \<Rightarrow> string list" where
  "split_dot [] = [[]]"
| "split_dot (c # s) =
     (if c = CHR ''.'' then [] # split_dot s
      else (c # hd (split_dot s)) # tl (split_dot s))"

definition m_v4_rx :: "string \<Rightarrow> bool" where
  "m_v4_rx s \<longleftrightarrow> length (split_dot s) = 4 \<and> list_all is_octet (split_dot s)"

section \<open>The parser object\<close>

datatype parse_state =
    parse_ham_scheme | parse_ham_namespace | parse_group | parse_instantiation
  | parse_port | parse_sec_credentials | parse_error

datatype uri_flag = default_flag | ipv4_flag | ipv6_flag

text \<open>
  \<open>m_flag\<close> and \<open>m_int_port\<close> are not set by the constructor: \<open>None\<close> is an indeterminate
  value.
\<close>

record uri_private =
  m_state :: parse_state
  m_waitfor_square_bracket :: bool
  m_flag :: "uri_flag option"
  m_ham_scheme :: string
  m_ham_namespace :: string
  m_group :: string
  m_instantiation :: string
  m_port :: string
  m_sec_credentials :: string
  m_uri :: string
  m_int_port :: "u16 option"

definition new_uri_private :: uri_private where
  "new_uri_private =
     \<lparr>m_state = parse_ham_scheme, m_waitfor_square_bracket = False, m_flag = None,
      m_ham_scheme = [], m_ham_namespace = [], m_group = [], m_instantiation = [],
      m_port = [], m_sec_credentials = [], m_uri = [], m_int_port = None\<rparr>"

definition clear_fields :: "uri_private \<Rightarrow> uri_private" where
  "clear_fields u = u\<lparr>m_ham_scheme := [], m_ham_namespace := [], m_group := [],
     m_instantiation := [], m_port := [], m_sec_credentials := []\<rparr>"

definition consume_group :: "char \<Rightarrow> uri_private \<Rightarrow> uri_private" where
  "consume_group c u =
     (if \<not> m_waitfor_square_bracket u \<and> c = CHR ''@'' then u\<lparr>m_state := parse_instantiation\<rparr>
      else if \<not> m_waitfor_square_bracket u \<and> c = CHR '':'' then u\<lparr>m_state := parse_port\<rparr>
      else if \<not> m_waitfor_square_bracket u \<and> c = CHR ''/'' then u\<lparr>m_state := parse_sec_credentials\<rparr>
      else
        let u1 = (if \<not> m_waitfor_square_bracket u \<and> c = CHR ''[''
                  then u\<lparr>m_waitfor_square_bracket := True\<rparr> else u);
            u2 = (if c = CHR '']'' then u1\<lparr>m_waitfor_square_bracket := False\<rparr> else u1)
        in u2\<lparr>m_group := m_group u2 @ [c]\<rparr>)"

definition consume_instantiation :: "char \<Rightarrow> uri_private \<Rightarrow> uri_private" where
  "consume_instantiation c u =
     (if \<not> m_waitfor_square_bracket u \<and> c = CHR '':'' then u\<lparr>m_state := parse_port\<rparr>
      else if \<not> m_waitfor_square_bracket u \<and> c = CHR ''/'' then u\<lparr>m_state := parse_sec_credentials\<rparr>
      else
        let u1 = (if \<not> m_waitfor_square_bracket u \<and> c = CHR ''[''
                  then u\<lparr>m_waitfor_square_bracket := True\<rparr> else u);
            u2 = (if c = CHR '']'' then u1\<lparr>m_waitfor_square_bracket := False\<rparr> else u1)
        in u2\<lparr>m_instantiation := m_instantiation u2 @ [c]\<rparr>)"

definition consume :: "char \<Rightarrow> uri_private \<Rightarrow> bool \<times> uri_private" where
  "consume c u =
     (case m_state u of
        parse_ham_scheme \<Rightarrow>
          (True, if c = CHR '':'' then u\<lparr>m_state := parse_ham_namespace\<rparr>
                 else u\<lparr>m_ham_scheme := m_ham_scheme u @ [c]\<rparr>)
      | parse_ham_namespace \<Rightarrow>
          (True, if c = CHR '':'' then u\<lparr>m_state := parse_group\<rparr>
                 else u\<lparr>m_ham_namespace := m_ham_namespace u @ [c]\<rparr>)
      | parse_group \<Rightarrow> (True, consume_group c u)
      | parse_instantiation \<Rightarrow> (True, consume_instantiation c u)
      | parse_port \<Rightarrow>
          (True, if c = CHR ''/'' then u\<lparr>m_state := parse_sec_credentials\<rparr>
                 else u\<lparr>m_port := m_port u @ [c]\<rparr>)
      | parse_sec_credentials \<Rightarrow> (True, u\<lparr>m_sec_credentials := m_sec_credentials u @ [c]\<rparr>)
      | parse_error \<Rightarrow> (False, u\<lparr>m_state := parse_error\<rparr>))"

fun parse_loop :: "string \<Rightarrow> uri_private \<Rightarrow> bool \<times> uri_private" where
  "parse_loop [] u = (True, u)"
| "parse_loop (w # ws) u =
     (let c = tolower w;
          (ok, u') = consume c (u\<lparr>m_uri := m_uri u @ [c]\<rparr>)
      in if ok then parse_loop ws u' else (False, u'))"

definition parse_uri :: "string \<Rightarrow> uri_private \<Rightarrow> bool \<times> uri_private" where
  "parse_uri what u =
     (let (ok, u') = parse_loop what
                       (clear_fields (u\<lparr>m_state := parse_ham_scheme, m_waitfor_square_bracket := False\<rparr>))
      in if \<not> ok then (False, u')
         else if m_ham_scheme u' = ''ham'' \<and> m_ham_namespace u' \<noteq> [] \<and> m_group u' \<noteq> []
                 \<and> \<not> m_waitfor_square_bracket u'
         then (True, u')
         else (False, clear_fields u'))"

definition strip_brackets :: "string \<Rightarrow> string" where
  "strip_brackets s = take (length s - 2) (drop 1 s)"

definition parse_host :: "uri_private \<Rightarrow> uri_private" where
  "parse_host u =
     (if m_group u \<noteq> [] \<and> hd (m_group u) = CHR ''[''
      then u\<lparr>m_flag := Some ipv6_flag, m_group := strip_brackets (m_group u)\<rparr>
      else if m_group u \<noteq> [] \<and> m_v4_rx (m_group u) then u\<lparr>m_flag := Some ipv4_flag\<rparr>
      else u)"

definition parse_source :: "uri_private \<Rightarrow> uri_private" where
  "parse_source u =
     (if m_instantiation u \<noteq> [] \<and> hd (m_instantiation u) = CHR ''[''
      then u\<lparr>m_instantiation := strip_brackets (m_instantiation u)\<rparr> else u)"

definition parse_int_port :: "uri_private \<Rightarrow> uri_private" where
  "parse_int_port u =
     (if m_port u = [] then u\<lparr>m_int_port := Some 0\<rparr>
      else u\<lparr>m_int_port :=
             map_option word_of_int (atoi (takeWhile (\<lambda>c. c \<noteq> CHR 0x00) (m_port u)))\<rparr>)"

definition uri_parse :: "string \<Rightarrow> uri_private \<Rightarrow> bool \<times> uri_private" where
  "uri_parse what u =
     (let (ok, u1) = parse_uri what (u\<lparr>m_flag := Some default_flag\<rparr>)
      in if ok then (True, parse_int_port (parse_source (parse_host u1))) else (False, u1))"

definition uri_private_from :: "string \<Rightarrow> uri_private" where
  "uri_private_from what =
     (let (ok, u) = uri_parse what new_uri_private in if ok then u else new_uri_private)"

section \<open>What the parser is to accept\<close>

text \<open>
  \<open>uri_text\<close> writes a uri from its components and \<open>uri_text_ok\<close> says which components can be
  written: no separator outside square brackets, every bracket closed, lower case.
  \<open>parsed\<close> and \<open>consumed\<close> are the invariant of the character loop: the text consumed so far
  is the text of the fields collected so far.
\<close>

definition dec_digit :: "nat \<Rightarrow> char" where
  "dec_digit d = char_of (48 + d)"

fun dec_string :: "nat \<Rightarrow> string" where
  "dec_string n = (if n < 10 then [dec_digit n] else dec_string (n div 10) @ [dec_digit (n mod 10)])"

declare dec_string.simps [simp del]

fun join_dot :: "string list \<Rightarrow> string" where
  "join_dot [] = []"
| "join_dot [x] = x"
| "join_dot (x # y # zs) = x @ CHR ''.'' # join_dot (y # zs)"

definition dotted_quad :: "nat \<Rightarrow> nat \<Rightarrow> nat \<Rightarrow> nat \<Rightarrow> string" where
  "dotted_quad a b c d =
     dec_string a @ CHR ''.'' # dec_string b @ CHR ''.'' # dec_string c @ CHR ''.'' # dec_string d"

definition uri_text ::
  "string \<Rightarrow> string \<Rightarrow> string option \<Rightarrow> string option \<Rightarrow> string option \<Rightarrow> string" where
  "uri_text ns grp inst port sec =
     ''ham:'' @ ns @ '':'' @ grp
     @ (case inst of None \<Rightarrow> [] | Some i \<Rightarrow> CHR ''@'' # i)
     @ (case port of None \<Rightarrow> [] | Some p \<Rightarrow> CHR '':'' # p)
     @ (case sec of None \<Rightarrow> [] | Some s \<Rightarrow> CHR ''/'' # s)"

definition str_opt :: "string option \<Rightarrow> string" where
  "str_opt x = (case x of None \<Rightarrow> [] | Some s \<Rightarrow> s)"

definition raw_text :: "uri_private \<Rightarrow> string option \<Rightarrow> string option \<Rightarrow> string option \<Rightarrow> string" where
  "raw_text u inst port sec =
     m_ham_scheme u @ '':'' @ m_ham_namespace u @ '':'' @ m_group u
     @ (case inst of None \<Rightarrow> [] | Some i \<Rightarrow> CHR ''@'' # i)
     @ (case port of None \<Rightarrow> [] | Some p \<Rightarrow> CHR '':'' # p)
     @ (case sec of None \<Rightarrow> [] | Some s \<Rightarrow> CHR ''/'' # s)"

fun bracket_scan :: "string \<Rightarrow> bool \<Rightarrow> string \<Rightarrow> bool option" where
  "bracket_scan stop b [] = Some b"
| "bracket_scan stop b (c # s) =
     (if \<not> b \<and> c \<in> set stop then None
      else bracket_scan stop (c \<noteq> CHR '']'' \<and> (b \<or> c = CHR ''['')) s)"

definition parsed :: "uri_private \<Rightarrow> string option \<Rightarrow> string option \<Rightarrow> string option \<Rightarrow> bool" where
  "parsed u i p s \<longleftrightarrow> m_uri u = raw_text u i p s \<and> m_instantiation u = str_opt i
     \<and> m_port u = str_opt p \<and> m_sec_credentials u = str_opt s
     \<and> CHR '':'' \<notin> set (m_ham_namespace u) \<and> CHR ''/'' \<notin> set (m_port u)
     \<and> bracket_scan ''@:/'' False (m_group u) =
           Some (m_state u = parse_group \<and> m_waitfor_square_bracket u)
     \<and> bracket_scan '':/'' False (m_instantiation u) =
           Some (m_state u = parse_instantiation \<and> m_waitfor_square_bracket u)
     \<and> (case m_state u of
            parse_group \<Rightarrow> i = None \<and> p = None \<and> s = None
          | parse_instantiation \<Rightarrow> i \<noteq> None \<and> p = None \<and> s = None
          | parse_port \<Rightarrow> p \<noteq> None \<and> s = None
          | parse_sec_credentials \<Rightarrow> s \<noteq> None
          | _ \<Rightarrow> False)"

definition consumed :: "uri_private \<Rightarrow> bool" where
  "consumed u \<longleftrightarrow>
     (\<not> m_waitfor_square_bracket u \<and> CHR '':'' \<notin> set (m_ham_namespace u)
      \<and> m_group u = [] \<and> m_instantiation u = [] \<and> m_port u = [] \<and> m_sec_credentials u = []
      \<and> (m_state u = parse_ham_scheme \<and> m_uri u = m_ham_scheme u \<and> m_ham_namespace u = []
        \<or> m_state u = parse_ham_namespace \<and> m_uri u = m_ham_scheme u @ '':'' @ m_ham_namespace u))
     \<or> (\<exists>i p s. parsed u i p s)"

definition lower :: "string \<Rightarrow> bool" where
  "lower s \<longleftrightarrow> map tolower s = s"

definition uri_text_ok :: "string \<Rightarrow> string \<Rightarrow> string option \<Rightarrow> string option \<Rightarrow> string option \<Rightarrow> bool" where
  "uri_text_ok ns grp inst port sec \<longleftrightarrow>
     ns \<noteq> [] \<and> CHR '':'' \<notin> set ns \<and> grp \<noteq> [] \<and> bracket_scan ''@:/'' False grp = Some False
     \<and> bracket_scan '':/'' False (str_opt inst) = Some False \<and> CHR ''/'' \<notin> set (str_opt port)
     \<and> lower (ns @ grp @ str_opt inst @ str_opt port @ str_opt sec)"

definition unbracket :: "string \<Rightarrow> string" where
  "unbracket s = (if s \<noteq> [] \<and> hd s = CHR ''['' then strip_brackets s else s)"

section \<open>The character loop\<close>

lemma tolower_idem [simp]: "tolower (tolower c) = tolower c"
  by (auto simp: tolower_def less_eq_char_def)

lemma parse_loop_append:
  "parse_loop (xs @ ys) u =
     (case parse_loop xs u of (ok, u') \<Rightarrow> if ok then parse_loop ys u' else (False, u'))"
  by (induction xs arbitrary: u) (auto simp: Let_def split: prod.splits)

lemma parse_loop_tolower: "parse_loop (map tolower ws) u = parse_loop ws u"
  by (induction ws arbitrary: u) (simp_all add: Let_def split: prod.splits)

lemma consume_ok:
  "m_state u \<noteq> parse_error \<Longrightarrow>
     \<exists>u'. consume c u = (True, u') \<and> m_state u' \<noteq> parse_error \<and> m_uri u' = m_uri u
        \<and> m_flag u' = m_flag u \<and> m_int_port u' = m_int_port u"
  by (cases "m_state u")
     (auto simp: consume_def consume_group_def consume_instantiation_def Let_def)

lemma parse_loop_ok:
  "m_state u \<noteq> parse_error \<Longrightarrow>
     \<exists>u'. parse_loop ws u = (True, u') \<and> m_state u' \<noteq> parse_error
        \<and> m_uri u' = m_uri u @ map tolower ws
        \<and> m_flag u' = m_flag u \<and> m_int_port u' = m_int_port u"
proof (induction ws arbitrary: u)
  case Nil
  then show ?case by simp
next
  case (Cons w ws)
  obtain u1 where u1: "consume (tolower w) (u\<lparr>m_uri := m_uri u @ [tolower w]\<rparr>) = (True, u1)"
    "m_state u1 \<noteq> parse_error" "m_uri u1 = m_uri u @ [tolower w]"
    "m_flag u1 = m_flag u" "m_int_port u1 = m_int_port u"
    using consume_ok [of "u\<lparr>m_uri := m_uri u @ [tolower w]\<rparr>" "tolower w"] Cons.prems by auto
  from Cons.IH [OF u1(2)] u1 show ?case by auto
qed

lemma parse_uri_tolower: "parse_uri (map tolower s) u = parse_uri s u"
  by (simp add: parse_uri_def parse_loop_tolower)

lemma uri_private_from_tolower: "uri_private_from (map tolower s) = uri_private_from s"
  by (simp add: uri_private_from_def uri_parse_def parse_uri_tolower)

lemma clear_fields_sel [simp]:
  "m_uri (clear_fields u) = m_uri u" "m_state (clear_fields u) = m_state u"
  "m_ham_scheme (clear_fields u) = []" "m_ham_namespace (clear_fields u) = []"
  "m_group (clear_fields u) = []" "m_instantiation (clear_fields u) = []"
  "m_port (clear_fields u) = []" "m_sec_credentials (clear_fields u) = []"
  "m_waitfor_square_bracket (clear_fields u) = m_waitfor_square_bracket u"
  by (simp_all add: clear_fields_def)

lemma parse_uri_m_uri: "parse_uri s u = (True, u') \<Longrightarrow> m_uri u' = m_uri u @ map tolower s"
  using parse_loop_ok [of "clear_fields (u\<lparr>m_state := parse_ham_scheme, m_waitfor_square_bracket := False\<rparr>)" s]
  by (auto simp: parse_uri_def split: if_splits)

lemma parse_host_sel [simp]:
  "m_uri (parse_host u) = m_uri u" "m_ham_namespace (parse_host u) = m_ham_namespace u"
  "m_instantiation (parse_host u) = m_instantiation u" "m_port (parse_host u) = m_port u"
  "m_sec_credentials (parse_host u) = m_sec_credentials u" "m_ham_scheme (parse_host u) = m_ham_scheme u"
  by (simp_all add: parse_host_def)

lemma parse_source_sel [simp]:
  "m_uri (parse_source u) = m_uri u" "m_ham_namespace (parse_source u) = m_ham_namespace u"
  "m_group (parse_source u) = m_group u" "m_port (parse_source u) = m_port u"
  "m_sec_credentials (parse_source u) = m_sec_credentials u" "m_ham_scheme (parse_source u) = m_ham_scheme u"
  "m_flag (parse_source u) = m_flag u"
  by (simp_all add: parse_source_def)

lemma parse_int_port_sel [simp]:
  "m_uri (parse_int_port u) = m_uri u" "m_ham_namespace (parse_int_port u) = m_ham_namespace u"
  "m_group (parse_int_port u) = m_group u" "m_port (parse_int_port u) = m_port u"
  "m_sec_credentials (parse_int_port u) = m_sec_credentials u" "m_ham_scheme (parse_int_port u) = m_ham_scheme u"
  "m_flag (parse_int_port u) = m_flag u" "m_instantiation (parse_int_port u) = m_instantiation u"
  by (simp_all add: parse_int_port_def)

lemma uri_parse_m_uri: "uri_parse s u = (True, u') \<Longrightarrow> m_uri u' = m_uri u @ map tolower s"
  by (auto simp: uri_parse_def Let_def split: if_splits prod.splits dest!: parse_uri_m_uri)

lemma uri_private_from_cases:
  obtains (ok) u where "uri_parse s new_uri_private = (True, u)" "uri_private_from s = u"
      "m_uri u = map tolower s"
  | (bad) "uri_private_from s = new_uri_private"
proof (cases "uri_parse s new_uri_private")
  case (Pair b u)
  show ?thesis
  proof (cases b)
    case True
    with Pair uri_parse_m_uri [of s new_uri_private u] show ?thesis
      by (intro ok) (auto simp: uri_private_from_def new_uri_private_def)
  next
    case False
    with Pair show ?thesis by (intro bad) (simp add: uri_private_from_def)
  qed
qed

lemma uri_private_from_Nil: "uri_private_from [] = new_uri_private"
  by (simp add: uri_private_from_def uri_parse_def parse_uri_def)

lemma uri_private_from_str: "uri_private_from (m_uri (uri_private_from s)) = uri_private_from s"
  by (rule uri_private_from_cases [of s])
     (simp_all add: uri_private_from_tolower new_uri_private_def uri_private_from_Nil)

section \<open>Dotted quads\<close>

lemma dec_string_snoc: "0 < m \<Longrightarrow> d < 10 \<Longrightarrow> dec_string (10 * m + d) = dec_string m @ [dec_digit d]"
  by (subst dec_string.simps) simp

lemma dec_string_digit: "d < 10 \<Longrightarrow> dec_string d = [dec_digit d]"
  by (subst dec_string.simps) simp

lemma of_char_dec_digit [simp]: "d < 10 \<Longrightarrow> of_char (dec_digit d) = 48 + d"
  by (simp add: dec_digit_def)

lemma digit_between:
  assumes "dec_digit l \<le> c" "c \<le> dec_digit h" "l < 10" "h < 10"
  obtains d where "c = dec_digit d" "l \<le> d" "d \<le> h"
proof
  from assms have *: "48 + l \<le> of_char c" "of_char c \<le> 48 + h" by (auto simp: less_eq_char_def)
  then show "c = dec_digit (of_char c - 48)" by (simp add: dec_digit_def)
  from * show "l \<le> of_char c - 48" "of_char c - 48 \<le> h" by auto
qed

lemma dec_digit_CHR:
  "CHR ''0'' = dec_digit 0" "CHR ''1'' = dec_digit 1" "CHR ''2'' = dec_digit 2"
  "CHR ''4'' = dec_digit 4" "CHR ''5'' = dec_digit 5" "CHR ''9'' = dec_digit 9"
  by code_simp+

lemma is_octet_dec:
  assumes "is_octet s" shows "\<exists>n<256. s = dec_string n"
  using assms
proof (cases s rule: is_octet.cases)
  case (1 a)
  with assms obtain d where "a = dec_digit d" "d \<le> 9"
    by (auto simp: is_digit_def dec_digit_CHR elim: digit_between)
  with 1 show ?thesis by (intro exI [of _ d]) (simp add: dec_string_digit)
next
  case (2 a b)
  with assms obtain d e where "a = dec_digit d" "1 \<le> d" "d \<le> 9" "b = dec_digit e" "e \<le> 9"
    by (auto simp: is_digit_def dec_digit_CHR elim!: digit_between)
  with 2 show ?thesis
    by (intro exI [of _ "10 * d + e"]) (simp add: dec_string_snoc dec_string_digit)
next
  case (3 a b c)
  with assms consider
    "a = dec_digit 1" "is_digit b" "is_digit c"
  | "a = dec_digit 2" "dec_digit 0 \<le> b" "b \<le> dec_digit 4" "is_digit c"
  | "a = dec_digit 2" "b = dec_digit 5" "dec_digit 0 \<le> c" "c \<le> dec_digit 5"
    by (auto simp: dec_digit_CHR)
  then obtain d e f where "a = dec_digit d" "0 < d" "b = dec_digit e" "c = dec_digit f"
    "d \<le> 9" "e \<le> 9" "f \<le> 9" "100 * d + 10 * e + f < 256"
  proof cases
    case 1
    then obtain e f where "b = dec_digit e" "e \<le> 9" "c = dec_digit f" "f \<le> 9"
      by (auto simp: is_digit_def dec_digit_CHR elim!: digit_between)
    with 1 that [of 1 e f] show ?thesis by simp
  next
    case 2
    then obtain e f where "b = dec_digit e" "e \<le> 4" "c = dec_digit f" "f \<le> 9"
      by (auto simp: is_digit_def dec_digit_CHR elim!: digit_between)
    with 2 that [of 2 e f] show ?thesis by simp
  next
    case 3
    then obtain f where "c = dec_digit f" "f \<le> 5" by (auto elim!: digit_between)
    with 3 that [of 2 5 f] show ?thesis by simp
  qed
  then show ?thesis
    using 3(1) dec_string_snoc [of "10 * d + e" f] dec_string_snoc [of d e]
    by (intro exI [of _ "10 * (10 * d + e) + f"]) (simp add: dec_string_digit)
qed (use assms in simp_all)

lemma dec_digit_le: "d < 10 \<Longrightarrow> e < 10 \<Longrightarrow> dec_digit d \<le> dec_digit e \<longleftrightarrow> d \<le> e"
  by (simp add: less_eq_char_def)

lemma dec_digit_eq: "d < 10 \<Longrightarrow> e < 10 \<Longrightarrow> dec_digit d = dec_digit e \<longleftrightarrow> d = e"
  by (metis add_left_cancel of_char_dec_digit)

lemma is_digit_dec_digit: "d < 10 \<Longrightarrow> is_digit (dec_digit d)"
  by (simp add: is_digit_def dec_digit_CHR dec_digit_le)

lemma dec_string_is_octet:
  assumes "n < 256" shows "is_octet (dec_string n)"
proof -
  consider "n < 10" | "10 \<le> n" "n < 100" | "100 \<le> n" by linarith
  then show ?thesis
  proof cases
    case 1
    then show ?thesis by (simp add: dec_string_digit is_digit_dec_digit)
  next
    case 2
    then have "n div 10 < 10" "0 < n div 10" by (simp_all add: div_less_iff_less_mult)
    with 2 show ?thesis
      using dec_string_snoc [of "n div 10" "n mod 10"]
      by (simp add: dec_string_digit is_digit_dec_digit dec_digit_CHR dec_digit_le)
  next
    case 3
    define a b c where "a = n div 100" and "b = n div 10 mod 10" and "c = n mod 10"
    have "n div 10 div 10 = a" by (simp add: a_def div_mult2_eq [symmetric])
    then have n: "n = 10 * (10 * a + b) + c" and bc: "b < 10" "c < 10"
      unfolding b_def c_def by (metis mult_div_mod_eq) simp_all
    then have n': "n = 100 * a + 10 * b + c" by simp
    have "0 < a" using 3 by (simp add: a_def div_greater_zero_iff)
    moreover have "a = 1 \<or> a = 2 \<and> b \<le> 4 \<or> a = 2 \<and> b = 5 \<and> c \<le> 5"
    proof (cases "a = 1")
      case False
      with calculation have "2 \<le> a" by simp
      moreover have "a < 3" using assms n' by linarith
      ultimately have a: "a = 2" by simp
      then have "10 * b + c < 56" using assms n' by linarith
      then have "b \<le> 4 \<or> b = 5 \<and> c \<le> 5" by linarith
      with a show ?thesis by simp
    qed simp
    moreover have "dec_string n = dec_string a @ [dec_digit b] @ [dec_digit c]"
      using dec_string_snoc [of "10 * a + b" c] dec_string_snoc [of a b] calculation(1) bc n by simp
    ultimately show ?thesis using bc
      by (auto simp: dec_string_digit is_digit_dec_digit dec_digit_CHR dec_digit_le dec_digit_eq)
  qed
qed

lemma is_octet_iff: "is_octet s \<longleftrightarrow> (\<exists>n<256. s = dec_string n)"
  using is_octet_dec dec_string_is_octet by blast

lemma split_dot_no_dot: "CHR ''.'' \<notin> set x \<Longrightarrow> split_dot (x @ CHR ''.'' # y) = x # split_dot y"
  by (induction x) auto

lemma split_dot_single: "CHR ''.'' \<notin> set x \<Longrightarrow> split_dot x = [x]"
  by (induction x) auto

lemma split_dot_not_Nil [simp]: "split_dot s \<noteq> []"
  by (cases s) auto

lemma join_dot_Cons: "xs \<noteq> [] \<Longrightarrow> join_dot (x # xs) = x @ CHR ''.'' # join_dot xs"
  by (cases xs) simp_all

lemma join_dot_hd: "xs \<noteq> [] \<Longrightarrow> join_dot ((c # hd xs) # tl xs) = c # join_dot xs"
  by (cases xs rule: join_dot.cases) simp_all

lemma join_split_dot: "join_dot (split_dot s) = s"
  by (induction s) (auto simp: join_dot_Cons join_dot_hd)

lemma dec_digit_no_dot_aux: "\<not> CHR ''0'' \<le> CHR ''.''"
  by code_simp

lemma dec_digit_no_dot: "d < 10 \<Longrightarrow> CHR ''.'' \<noteq> dec_digit d"
  by (metis add.commute dec_digit_CHR(1) dec_digit_le dec_digit_no_dot_aux le0 zero_less_numeral)

lemma dec_string_no_dot [simp]: "CHR ''.'' \<notin> set (dec_string n)"
proof (induction n rule: dec_string.induct)
  case (1 n)
  then show ?case by (subst dec_string.simps) (auto simp: dec_digit_no_dot)
qed

lemma m_v4_rx_iff:
  "m_v4_rx s \<longleftrightarrow> (\<exists>a<256. \<exists>b<256. \<exists>c<256. \<exists>d<256. s = dotted_quad a b c d)"
proof
  assume m: "m_v4_rx s"
  then have "length (split_dot s) = Suc (Suc (Suc (Suc 0)))" by (simp add: m_v4_rx_def)
  then obtain w x y z where sp: "split_dot s = [w, x, y, z]"
    by (auto simp: length_Suc_conv)
  with m have "is_octet w" "is_octet x" "is_octet y" "is_octet z" by (simp_all add: m_v4_rx_def)
  then obtain a b c d where "a < 256" "b < 256" "c < 256" "d < 256"
    "w = dec_string a" "x = dec_string b" "y = dec_string c" "z = dec_string d"
    unfolding is_octet_iff by blast
  moreover have "s = w @ CHR ''.'' # x @ CHR ''.'' # y @ CHR ''.'' # z"
    using join_split_dot [of s] sp by simp
  ultimately show "\<exists>a<256. \<exists>b<256. \<exists>c<256. \<exists>d<256. s = dotted_quad a b c d"
    unfolding dotted_quad_def by blast
next
  assume "\<exists>a<256. \<exists>b<256. \<exists>c<256. \<exists>d<256. s = dotted_quad a b c d"
  then show "m_v4_rx s"
    by (auto simp: m_v4_rx_def dotted_quad_def split_dot_no_dot split_dot_single
          dec_string_no_dot dec_string_is_octet)
qed

section \<open>The language of the parser\<close>

lemma str_opt_simps [simp]: "str_opt None = []" "str_opt (Some s) = s"
  by (simp_all add: str_opt_def)

lemma bracket_scan_snoc:
  "bracket_scan stop b (s @ [c]) =
     (case bracket_scan stop b s of None \<Rightarrow> None
      | Some b' \<Rightarrow> if \<not> b' \<and> c \<in> set stop then None
                   else Some (c \<noteq> CHR '']'' \<and> (b' \<or> c = CHR ''['')))"
  by (induction s arbitrary: b) simp_all

lemma parsedI: "parsed u i p s \<Longrightarrow> consumed u"
  by (auto simp: consumed_def)

lemma consume_group_char:
  assumes "m_waitfor_square_bracket u \<or> c \<notin> set ''@:/''"
  shows "consume_group c u = u\<lparr>m_waitfor_square_bracket := c \<noteq> CHR '']'' \<and> (m_waitfor_square_bracket u \<or> c = CHR ''[''),
    m_group := m_group u @ [c]\<rparr>"
  using assms by (cases u) (auto simp: consume_group_def Let_def)

lemma consume_instantiation_char:
  assumes "m_waitfor_square_bracket u \<or> c \<notin> set '':/''"
  shows "consume_instantiation c u =
    u\<lparr>m_waitfor_square_bracket := c \<noteq> CHR '']'' \<and> (m_waitfor_square_bracket u \<or> c = CHR ''[''),
      m_instantiation := m_instantiation u @ [c]\<rparr>"
  using assms by (cases u) (auto simp: consume_instantiation_def Let_def)

lemma consume_group_cases:
  obtains "c = CHR ''@''" "\<not> m_waitfor_square_bracket u" "consume_group c u = u\<lparr>m_state := parse_instantiation\<rparr>"
  | "c = CHR '':''" "\<not> m_waitfor_square_bracket u" "consume_group c u = u\<lparr>m_state := parse_port\<rparr>"
  | "c = CHR ''/''" "\<not> m_waitfor_square_bracket u" "consume_group c u = u\<lparr>m_state := parse_sec_credentials\<rparr>"
  | "m_waitfor_square_bracket u \<or> c \<notin> set ''@:/''"
    "consume_group c u = u\<lparr>m_waitfor_square_bracket := c \<noteq> CHR '']'' \<and> (m_waitfor_square_bracket u \<or> c = CHR ''[''),
      m_group := m_group u @ [c]\<rparr>"
proof (cases "m_waitfor_square_bracket u \<or> c \<notin> set ''@:/''")
  case True
  then show thesis using that(4) consume_group_char [OF True] by blast
next
  case False
  then show thesis using that(1-3) by (auto simp: consume_group_def)
qed

lemma consume_instantiation_cases:
  obtains "c = CHR '':''" "\<not> m_waitfor_square_bracket u" "consume_instantiation c u = u\<lparr>m_state := parse_port\<rparr>"
  | "c = CHR ''/''" "\<not> m_waitfor_square_bracket u" "consume_instantiation c u = u\<lparr>m_state := parse_sec_credentials\<rparr>"
  | "m_waitfor_square_bracket u \<or> c \<notin> set '':/''"
    "consume_instantiation c u =
      u\<lparr>m_waitfor_square_bracket := c \<noteq> CHR '']'' \<and> (m_waitfor_square_bracket u \<or> c = CHR ''[''),
        m_instantiation := m_instantiation u @ [c]\<rparr>"
proof (cases "m_waitfor_square_bracket u \<or> c \<notin> set '':/''")
  case True
  then show thesis using that(3) consume_instantiation_char [OF True] by blast
next
  case False
  then show thesis using that(1,2) by (auto simp: consume_instantiation_def)
qed

lemma parsed_step:
  assumes p: "parsed u i p s" and c: "consume c (u\<lparr>m_uri := m_uri u @ [c]\<rparr>) = (True, u')"
  shows "consumed u'"
proof (cases "m_state u")
  case parse_group
  with p have [simp]: "i = None" "p = None" "s = None" by (simp_all add: parsed_def)
  from c parse_group have u': "u' = consume_group c (u\<lparr>m_uri := m_uri u @ [c]\<rparr>)"
    by (simp add: consume_def)
  show ?thesis using p parse_group unfolding u'
    by (cases c "u\<lparr>m_uri := m_uri u @ [c]\<rparr>" rule: consume_group_cases)
      (auto simp: parsed_def raw_text_def bracket_scan_snoc
        intro: parsedI [of _ "Some []" None None] parsedI [of _ None "Some []" None]
          parsedI [of _ None None "Some []"] parsedI [of _ None None None])
next
  case parse_instantiation
  with p obtain j where [simp]: "i = Some j" "p = None" "s = None" by (auto simp: parsed_def)
  from c parse_instantiation have u': "u' = consume_instantiation c (u\<lparr>m_uri := m_uri u @ [c]\<rparr>)"
    by (simp add: consume_def)
  show ?thesis using p parse_instantiation unfolding u'
    by (cases c "u\<lparr>m_uri := m_uri u @ [c]\<rparr>" rule: consume_instantiation_cases)
      (auto simp: parsed_def raw_text_def bracket_scan_snoc
        intro: parsedI [of _ "Some j" "Some []" None] parsedI [of _ "Some j" None "Some []"]
          parsedI [of _ "Some (j @ [c])" None None])
next
  case parse_port
  with p obtain q where [simp]: "p = Some q" "s = None" by (auto simp: parsed_def)
  from p c parse_port have "if c = CHR ''/'' then parsed u' i (Some q) (Some [])
      else parsed u' i (Some (q @ [c])) None"
    by (simp add: parsed_def consume_def raw_text_def split: if_splits) (clarsimp)+
  then show ?thesis by (auto intro: parsedI split: if_splits)
next
  case parse_sec_credentials
  with p obtain q where [simp]: "s = Some q" by (auto simp: parsed_def)
  from c parse_sec_credentials have
    u': "u' = u\<lparr>m_uri := m_uri u @ [c], m_sec_credentials := m_sec_credentials u @ [c]\<rparr>"
    by (simp add: consume_def)
  from p parse_sec_credentials have "parsed u' i p (Some (q @ [c]))"
    unfolding u' by (auto simp: parsed_def raw_text_def)
  then show ?thesis by (rule parsedI)
qed (use p in \<open>simp_all add: parsed_def\<close>)

lemma consume_consumed:
  assumes "consumed u" and c: "consume c (u\<lparr>m_uri := m_uri u @ [c]\<rparr>) = (True, u')"
  shows "consumed u'"
  using assms(1) unfolding consumed_def [of u]
proof (elim disjE conjE exE)
  fix i p s assume "parsed u i p s"
  then show ?thesis using c by (rule parsed_step)
next
  assume "m_state u = parse_ham_scheme" "m_uri u = m_ham_scheme u" "m_ham_namespace u = []"
    "m_group u = []" "m_instantiation u = []" "m_port u = []" "m_sec_credentials u = []"
    "\<not> m_waitfor_square_bracket u" "CHR '':'' \<notin> set (m_ham_namespace u)"
  note u = this
  then have "u' = (if c = CHR '':'' then u\<lparr>m_uri := m_uri u @ [c], m_state := parse_ham_namespace\<rparr>
      else u\<lparr>m_uri := m_uri u @ [c], m_ham_scheme := m_ham_scheme u @ [c]\<rparr>)"
    using c by (cases "c = CHR '':''") (simp_all add: consume_def)
  with u show ?thesis by (simp add: consumed_def)
next
  assume "m_state u = parse_ham_namespace" "m_uri u = m_ham_scheme u @ '':'' @ m_ham_namespace u"
    "m_group u = []" "m_instantiation u = []" "m_port u = []" "m_sec_credentials u = []"
    "\<not> m_waitfor_square_bracket u" "CHR '':'' \<notin> set (m_ham_namespace u)"
  note u = this
  show ?thesis
  proof (cases "c = CHR '':''")
    case True
    with c u have "u' = u\<lparr>m_uri := m_uri u @ [c], m_state := parse_group\<rparr>" by (simp add: consume_def)
    with True u have "parsed u' None None None" by (simp add: parsed_def raw_text_def)
    then show ?thesis by (rule parsedI)
  next
    case False
    with c u have "u' = u\<lparr>m_uri := m_uri u @ [c], m_ham_namespace := m_ham_namespace u @ [c]\<rparr>"
      by (simp add: consume_def)
    with u False show ?thesis by (auto simp: consumed_def)
  qed
qed

lemma parse_loop_consumed: "consumed u \<Longrightarrow> parse_loop ws u = (True, u') \<Longrightarrow> consumed u'"
proof (induction ws arbitrary: u)
  case (Cons w ws)
  obtain ok v where v: "consume (tolower w) (u\<lparr>m_uri := m_uri u @ [tolower w]\<rparr>) = (ok, v)" by fastforce
  with Cons.prems(2) have "ok" "parse_loop ws v = (True, u')" by (simp_all split: if_splits)
  moreover from v \<open>ok\<close> have "consumed v" using consume_consumed [OF Cons.prems(1), of "tolower w" v] by simp
  ultimately show ?case using Cons.IH by blast
qed simp

lemma lower_simps [simp]: "lower []" "lower (c # s) \<longleftrightarrow> tolower c = c \<and> lower s"
  "lower (s @ t) \<longleftrightarrow> lower s \<and> lower t"
  by (auto simp: lower_def dest: map_eq_imp_length_eq)

lemma parse_loop_namespace:
  assumes "m_state u = parse_ham_namespace" "CHR '':'' \<notin> set s" "lower s"
  shows "parse_loop (s @ rest) u = parse_loop rest (u\<lparr>m_uri := m_uri u @ s, m_ham_namespace := m_ham_namespace u @ s\<rparr>)"
  using assms by (induction s arbitrary: u) (auto simp: consume_def)

lemma waitfor_same [simp]: "m_waitfor_square_bracket u = b \<Longrightarrow> u\<lparr>m_waitfor_square_bracket := b\<rparr> = u"
  by auto

lemma parse_loop_group:
  assumes "m_state u = parse_group" "bracket_scan ''@:/'' (m_waitfor_square_bracket u) s = Some b" "lower s"
  shows "parse_loop (s @ rest) u = parse_loop rest
    (u\<lparr>m_waitfor_square_bracket := b, m_uri := m_uri u @ s, m_group := m_group u @ s\<rparr>)"
  using assms
  by (induction s arbitrary: u) (auto simp: consume_def consume_group_char split: if_splits)

lemma parse_loop_instantiation:
  assumes "m_state u = parse_instantiation" "bracket_scan '':/'' (m_waitfor_square_bracket u) s = Some b" "lower s"
  shows "parse_loop (s @ rest) u = parse_loop rest
    (u\<lparr>m_waitfor_square_bracket := b, m_uri := m_uri u @ s, m_instantiation := m_instantiation u @ s\<rparr>)"
  using assms
  by (induction s arbitrary: u) (auto simp: consume_def consume_instantiation_char split: if_splits)

lemma parse_loop_port:
  assumes "m_state u = parse_port" "CHR ''/'' \<notin> set s" "lower s"
  shows "parse_loop (s @ rest) u = parse_loop rest (u\<lparr>m_uri := m_uri u @ s, m_port := m_port u @ s\<rparr>)"
  using assms by (induction s arbitrary: u) (auto simp: consume_def)

lemma parse_loop_sec_credentials:
  assumes "m_state u = parse_sec_credentials" "lower s"
  shows "parse_loop s u = (True, u\<lparr>m_uri := m_uri u @ s, m_sec_credentials := m_sec_credentials u @ s\<rparr>)"
  using assms by (induction s arbitrary: u) (simp_all add: consume_def)

lemma tolower_sep [simp]: "tolower CHR '':'' = CHR '':''" "tolower CHR ''@'' = CHR ''@''" "tolower CHR ''/'' = CHR ''/''"
  "tolower CHR ''h'' = CHR ''h''" "tolower CHR ''a'' = CHR ''a''" "tolower CHR ''m'' = CHR ''m''"
  by code_simp+

lemma parse_loop_sec_opt:
  assumes "m_state u \<in> {parse_group, parse_instantiation, parse_port}"
    "m_waitfor_square_bracket u = False" "lower (str_opt sec)" "m_sec_credentials u = []"
  shows "\<exists>st. parse_loop (case sec of None \<Rightarrow> [] | Some s \<Rightarrow> CHR ''/'' # s) u
    = (True, u\<lparr>m_state := st, m_uri := m_uri u @ (case sec of None \<Rightarrow> [] | Some s \<Rightarrow> CHR ''/'' # s),
        m_sec_credentials := str_opt sec\<rparr>)"
proof (cases sec)
  case None
  with assms show ?thesis by (intro exI [of _ "m_state u"]) simp
next
  case (Some s)
  have "consume CHR ''/'' u' = (True, u'\<lparr>m_state := parse_sec_credentials\<rparr>)"
    if "m_state u' = m_state u" "\<not> m_waitfor_square_bracket u'" for u'
    using assms that by (auto simp: consume_def consume_group_def consume_instantiation_def)
  with Some assms show ?thesis by (auto simp: parse_loop_sec_credentials intro!: exI [of _ parse_sec_credentials])
qed

lemma parse_loop_port_opt:
  assumes "m_state u \<in> {parse_group, parse_instantiation}"
    "m_waitfor_square_bracket u = False" "m_port u = []" "m_sec_credentials u = []"
    "CHR ''/'' \<notin> set (str_opt port)" "lower (str_opt port)" "lower (str_opt sec)"
  shows "\<exists>st. parse_loop ((case port of None \<Rightarrow> [] | Some p \<Rightarrow> CHR '':'' # p)
              @ (case sec of None \<Rightarrow> [] | Some s \<Rightarrow> CHR ''/'' # s)) u
    = (True, u\<lparr>m_state := st, m_uri := m_uri u @ (case port of None \<Rightarrow> [] | Some p \<Rightarrow> CHR '':'' # p)
              @ (case sec of None \<Rightarrow> [] | Some s \<Rightarrow> CHR ''/'' # s),
        m_port := str_opt port, m_sec_credentials := str_opt sec\<rparr>)"
proof (cases port)
  case None
  obtain st where "parse_loop (case sec of None \<Rightarrow> [] | Some s \<Rightarrow> CHR ''/'' # s) u
    = (True, u\<lparr>m_state := st, m_uri := m_uri u @ (case sec of None \<Rightarrow> [] | Some s \<Rightarrow> CHR ''/'' # s),
        m_sec_credentials := str_opt sec\<rparr>)" using parse_loop_sec_opt [of u sec] assms by auto
  with None assms show ?thesis by (intro exI [of _ st], cases u) simp
next
  case (Some p)
  have c: "consume CHR '':'' u' = (True, u'\<lparr>m_state := parse_port\<rparr>)"
    if "m_state u' = m_state u" "\<not> m_waitfor_square_bracket u'" for u'
    using assms that by (auto simp: consume_def consume_group_def consume_instantiation_def)
  let ?u = "u\<lparr>m_state := parse_port, m_uri := m_uri u @ CHR '':'' # p, m_port := p\<rparr>"
  let ?s = "case sec of None \<Rightarrow> [] | Some s \<Rightarrow> CHR ''/'' # s"
  have "parse_loop ((CHR '':'' # p) @ ?s) u = parse_loop ?s ?u"
    using assms Some c by (simp add: parse_loop_port)
  moreover obtain st where "parse_loop ?s ?u =
      (True, ?u\<lparr>m_state := st, m_uri := m_uri ?u @ ?s, m_sec_credentials := str_opt sec\<rparr>)"
    using parse_loop_sec_opt [of ?u sec] assms by auto
  moreover have "?u\<lparr>m_state := st, m_uri := m_uri ?u @ ?s, m_sec_credentials := str_opt sec\<rparr>
    = u\<lparr>m_state := st, m_uri := m_uri u @ (CHR '':'' # p) @ ?s, m_port := p, m_sec_credentials := str_opt sec\<rparr>"
    by (cases u) simp
  ultimately show ?thesis using Some by (intro exI [of _ st]) (simp only: option.case str_opt_simps)
qed

lemma parse_loop_inst_opt:
  assumes "m_state u = parse_group"
    "m_waitfor_square_bracket u = False" "m_instantiation u = []" "m_port u = []" "m_sec_credentials u = []"
    "bracket_scan '':/'' False (str_opt inst) = Some False"
    "CHR ''/'' \<notin> set (str_opt port)" "lower (str_opt inst)" "lower (str_opt port)" "lower (str_opt sec)"
  shows "\<exists>st. parse_loop ((case inst of None \<Rightarrow> [] | Some i \<Rightarrow> CHR ''@'' # i)
              @ (case port of None \<Rightarrow> [] | Some p \<Rightarrow> CHR '':'' # p)
              @ (case sec of None \<Rightarrow> [] | Some s \<Rightarrow> CHR ''/'' # s)) u
    = (True, u\<lparr>m_state := st, m_uri := m_uri u @ (case inst of None \<Rightarrow> [] | Some i \<Rightarrow> CHR ''@'' # i)
              @ (case port of None \<Rightarrow> [] | Some p \<Rightarrow> CHR '':'' # p)
              @ (case sec of None \<Rightarrow> [] | Some s \<Rightarrow> CHR ''/'' # s),
        m_instantiation := str_opt inst, m_port := str_opt port, m_sec_credentials := str_opt sec\<rparr>)"
proof (cases inst)
  case None
  let ?ps = "(case port of None \<Rightarrow> [] | Some p \<Rightarrow> CHR '':'' # p)
              @ (case sec of None \<Rightarrow> [] | Some s \<Rightarrow> CHR ''/'' # s)"
  obtain st where "parse_loop ?ps u = (True, u\<lparr>m_state := st, m_uri := m_uri u @ ?ps,
        m_port := str_opt port, m_sec_credentials := str_opt sec\<rparr>)"
    using parse_loop_port_opt [of u port sec] assms by auto
  with None assms show ?thesis by (intro exI [of _ st], cases u) simp
next
  case (Some i)
  let ?u = "u\<lparr>m_state := parse_instantiation, m_uri := m_uri u @ CHR ''@'' # i, m_instantiation := i\<rparr>"
  let ?ps = "(case port of None \<Rightarrow> [] | Some p \<Rightarrow> CHR '':'' # p)
              @ (case sec of None \<Rightarrow> [] | Some s \<Rightarrow> CHR ''/'' # s)"
  have "parse_loop ((CHR ''@'' # i) @ ?ps) u = parse_loop ?ps ?u"
    using assms Some by (simp add: parse_loop_instantiation consume_def consume_group_def)
  moreover obtain st where "parse_loop ?ps ?u = (True, ?u\<lparr>m_state := st, m_uri := m_uri ?u @ ?ps,
        m_port := str_opt port, m_sec_credentials := str_opt sec\<rparr>)"
    using parse_loop_port_opt [of ?u port sec] assms by auto
  moreover have "?u\<lparr>m_state := st, m_uri := m_uri ?u @ ?ps, m_port := str_opt port, m_sec_credentials := str_opt sec\<rparr>
    = u\<lparr>m_state := st, m_uri := m_uri u @ (CHR ''@'' # i) @ ?ps, m_instantiation := i,
        m_port := str_opt port, m_sec_credentials := str_opt sec\<rparr>"
    by (cases u) simp
  ultimately show ?thesis using Some by (intro exI [of _ st]) (simp only: option.case str_opt_simps)
qed

lemma parse_uri_uri_text:
  assumes "uri_text_ok ns grp inst port sec"
  shows "\<exists>u'. parse_uri (uri_text ns grp inst port sec) u = (True, u') \<and> m_ham_namespace u' = ns
    \<and> m_group u' = grp \<and> m_instantiation u' = str_opt inst \<and> m_port u' = str_opt port
    \<and> m_sec_credentials u' = str_opt sec \<and> m_flag u' = m_flag u"
proof -
  let ?u0 = "clear_fields (u\<lparr>m_state := parse_ham_scheme, m_waitfor_square_bracket := False\<rparr>)"
  let ?u1 = "?u0\<lparr>m_state := parse_group, m_ham_scheme := ''ham'', m_ham_namespace := ns,
    m_group := grp, m_uri := m_uri u @ ''ham:'' @ ns @ '':'' @ grp\<rparr>"
  have "parse_loop (''ham:'' @ ns @ '':'' @ grp @ rest) ?u0 = parse_loop rest ?u1" for rest
    using assms by (cases u)
      (simp add: uri_text_ok_def clear_fields_def consume_def Let_def parse_loop_namespace
        parse_loop_group [where b = False])
  with parse_loop_inst_opt [of ?u1 inst port sec] assms show ?thesis
    unfolding parse_uri_def uri_text_def uri_text_ok_def Let_def by (auto simp: clear_fields_def)
qed

lemma lower_map_tolower [simp]: "lower (map tolower s)"
  by (simp add: lower_def)

lemma parse_uri_text:
  assumes "parse_uri s u0 = (True, u)" "m_uri u0 = []"
  shows "\<exists>inst port sec. map tolower s = uri_text (m_ham_namespace u) (m_group u) inst port sec
     \<and> uri_text_ok (m_ham_namespace u) (m_group u) inst port sec
     \<and> m_instantiation u = str_opt inst \<and> m_port u = str_opt port \<and> m_sec_credentials u = str_opt sec"
proof -
  let ?u0 = "clear_fields (u0\<lparr>m_state := parse_ham_scheme, m_waitfor_square_bracket := False\<rparr>)"
  from assms have l: "parse_loop s ?u0 = (True, u)" and v: "m_ham_scheme u = ''ham''" "m_ham_namespace u \<noteq> []"
    "m_group u \<noteq> []" "\<not> m_waitfor_square_bracket u"
    by (auto simp: parse_uri_def split: prod.splits if_splits)
  have "consumed ?u0" using assms(2) by (simp add: consumed_def)
  then have "consumed u" using l by (rule parse_loop_consumed)
  with v obtain i p c where p: "parsed u i p c" by (auto simp: consumed_def)
  moreover have m: "m_uri u = map tolower s" using parse_uri_m_uri [OF assms(1)] assms(2) by simp
  ultimately have "map tolower s = uri_text (m_ham_namespace u) (m_group u) i p c"
    using v by (simp add: parsed_def raw_text_def uri_text_def)
  moreover from this have "lower (uri_text (m_ham_namespace u) (m_group u) i p c)" by (metis lower_map_tolower)
  then have "uri_text_ok (m_ham_namespace u) (m_group u) i p c"
    using p v by (auto simp: uri_text_ok_def uri_text_def parsed_def str_opt_def split: option.splits)
  ultimately show ?thesis using p by (auto simp: parsed_def)
qed

lemma parse_source_instantiation: "m_instantiation (parse_source u) = unbracket (m_instantiation u)"
  by (simp add: parse_source_def unbracket_def)

lemma parse_host_group: "m_group (parse_host u) = unbracket (m_group u)"
  by (simp add: parse_host_def unbracket_def)

lemma uri_parse_fields:
  assumes "parse_uri s (u0\<lparr>m_flag := Some default_flag\<rparr>) = (True, u)" "uri_parse s u0 = (ok, u')"
    "m_flag u = Some default_flag" "m_group u \<noteq> []"
  shows "ok \<and> m_ham_namespace u' = m_ham_namespace u \<and> m_group u' = unbracket (m_group u)
    \<and> m_instantiation u' = unbracket (m_instantiation u) \<and> m_port u' = m_port u
    \<and> m_sec_credentials u' = m_sec_credentials u \<and> m_uri u' = m_uri u
    \<and> m_flag u' = Some (if hd (m_group u) = CHR ''['' then ipv6_flag
        else if m_v4_rx (m_group u) then ipv4_flag else default_flag)"
  using assms by (auto simp: uri_parse_def parse_source_instantiation parse_host_group)
    (auto simp: parse_host_def)

lemma uri_parse_uri_text:
  assumes "uri_text_ok ns grp inst port sec"
  shows "\<exists>u. uri_parse (uri_text ns grp inst port sec) new_uri_private = (True, u)
    \<and> m_ham_namespace u = ns \<and> m_group u = unbracket grp \<and> m_instantiation u = unbracket (str_opt inst)
    \<and> m_port u = str_opt port \<and> m_sec_credentials u = str_opt sec
    \<and> m_flag u = Some (if hd grp = CHR ''['' then ipv6_flag
        else if m_v4_rx grp then ipv4_flag else default_flag)"
proof -
  from parse_uri_uri_text [OF assms, of "new_uri_private\<lparr>m_flag := Some default_flag\<rparr>"]
  obtain u where u: "parse_uri (uri_text ns grp inst port sec) (new_uri_private\<lparr>m_flag := Some default_flag\<rparr>)
      = (True, u)" "m_ham_namespace u = ns" "m_group u = grp" "m_instantiation u = str_opt inst"
      "m_port u = str_opt port" "m_sec_credentials u = str_opt sec" "m_flag u = Some default_flag" by auto
  moreover from assms have "grp \<noteq> []" by (simp add: uri_text_ok_def)
  ultimately show ?thesis
    using uri_parse_fields [OF u(1) prod.collapse [symmetric] u(7)] 
    by (intro exI [of _ "snd (uri_parse (uri_text ns grp inst port sec) new_uri_private)"]) (simp add: prod_eq_iff)
qed

lemma uri_parse_accepts:
  "fst (uri_parse s new_uri_private) \<longleftrightarrow>
     (\<exists>ns grp inst port sec. map tolower s = uri_text ns grp inst port sec \<and> uri_text_ok ns grp inst port sec)"
  (is "?l \<longleftrightarrow> ?r")
proof
  let ?n = "new_uri_private\<lparr>m_flag := Some default_flag\<rparr>"
  assume ?l
  then have "fst (parse_uri s ?n)" by (auto simp: uri_parse_def Let_def split: prod.splits if_splits)
  then obtain u where "parse_uri s ?n = (True, u)" by (cases "parse_uri s ?n") auto
  from parse_uri_text [OF this] show ?r by (simp add: new_uri_private_def) blast
next
  assume ?r
  then obtain ns grp inst port sec where "map tolower s = uri_text ns grp inst port sec"
    "uri_text_ok ns grp inst port sec" by blast
  with uri_parse_uri_text have "fst (uri_parse (map tolower s) new_uri_private)" by fastforce
  then show ?l by (simp add: uri_parse_def parse_uri_tolower)
qed

section \<open>uri objects\<close>

text \<open>
  A \<open>uri\<close> is a pointer to an immutable, shared \<open>uri_private\<close> that the factory made: the type
  of the objects is the range of \<open>from\<close>. The default constructor and an unparsable string
  give the one default object.
\<close>

typedef uri = "range uri_private_from"
  morphisms uri_d Abs_uri
  by blast

setup_lifting type_definition_uri

lift_definition uri_of :: "string \<Rightarrow> uri" is uri_private_from
  by simp

definition default_uri :: uri where
  "default_uri = uri_of []"

definition str :: "uri \<Rightarrow> string" where
  "str u = m_uri (uri_d u)"

definition uri_is_empty :: "uri \<Rightarrow> bool" where
  "uri_is_empty u \<longleftrightarrow> str u = []"

definition ham_namespace :: "uri \<Rightarrow> string" where
  "ham_namespace u = m_ham_namespace (uri_d u)"

definition host_is_ipv4addr :: "uri \<Rightarrow> bool" where
  "host_is_ipv4addr u \<longleftrightarrow> m_flag (uri_d u) = Some ipv4_flag"

definition host_is_ipv6addr :: "uri \<Rightarrow> bool" where
  "host_is_ipv6addr u \<longleftrightarrow> m_flag (uri_d u) = Some ipv6_flag"

definition port_as_int :: "uri \<Rightarrow> u16 option" where
  "port_as_int u = m_int_port (uri_d u)"

text \<open>\<open>std::string::compare\<close> gives the sign of the lexicographic order.\<close>

definition string_compare :: "string \<Rightarrow> string \<Rightarrow> int" where
  "string_compare s t = (if s < t then -1 else if s = t then 0 else 1)"

definition uri_compare :: "uri \<Rightarrow> uri \<Rightarrow> int" where
  "uri_compare u what = string_compare (str u) (str what)"

lemma uri_d_uri_of [simp]: "uri_d (uri_of s) = uri_private_from s"
  by (rule uri_of.rep_eq)

lemma uri_of_str [simp]: "uri_of (str u) = u"
proof (cases u)
  case (Abs_uri y)
  then show ?thesis
    by (auto simp: str_def Abs_uri_inverse uri_private_from_str uri_of.abs_eq uri_of_def)
qed

lemma str_inject: "str u = str v \<longleftrightarrow> u = v"
  by (metis uri_of_str)

lemma default_uri_iff: "u = default_uri \<longleftrightarrow> uri_is_empty u"
  unfolding default_uri_def uri_is_empty_def
  by (metis str_def str_inject uri_d_uri_of uri_private_from_Nil new_uri_private_def uri_private.select_convs)

instantiation uri :: linorder
begin

definition less_eq_uri :: "uri \<Rightarrow> uri \<Rightarrow> bool" where
  "less_eq_uri u v \<longleftrightarrow> uri_compare u v \<le> 0"

definition less_uri :: "uri \<Rightarrow> uri \<Rightarrow> bool" where
  "less_uri u v \<longleftrightarrow> uri_compare u v < 0"

instance
  by standard (auto simp: less_eq_uri_def less_uri_def uri_compare_def string_compare_def str_inject
    split: if_splits)

end

instantiation uri :: equal
begin

definition equal_uri :: "uri \<Rightarrow> uri \<Rightarrow> bool" where
  "equal_uri u v \<longleftrightarrow> uri_compare u v = 0"

instance
  by standard (auto simp: equal_uri_def uri_compare_def string_compare_def str_inject)

end

section \<open>Properties\<close>

text \<open>C14: The parser accepts a string exactly when its lower-case form is written from
  components: the scheme \<open>ham\<close>, a non-empty namespace without a colon, a non-empty group whose
  separators are inside closed square brackets, and optional instantiation, port and
  credentials.\<close>

theorem uri_grammar:
  "fst (uri_parse s new_uri_private) \<longleftrightarrow>
     (\<exists>ns grp inst port sec. map tolower s = uri_text ns grp inst port sec \<and> uri_text_ok ns grp inst port sec)"
  by (rule uri_parse_accepts)



text \<open>A uri object is determined by its string: parsing \<open>str()\<close> gives the same object, so
  equality and the order of uris are equality and order of their strings, and the default
  object is the only empty one.\<close>

theorem uri_str_identity:
  "uri_of (str u) = u \<and> (uri_compare u v = 0 \<longleftrightarrow> u = v) \<and> (uri_is_empty u \<longleftrightarrow> u = default_uri)"
  by (auto simp: uri_compare_def string_compare_def str_inject default_uri_iff)

text \<open>The IPv4 pattern matches exactly the dotted quads of four decimal numbers below 256
  without leading zeros.\<close>

theorem v4_pattern:
  "m_v4_rx s \<longleftrightarrow> (\<exists>a b c d. s = dotted_quad a b c d \<and> max (max a b) (max c d) < 256)"
  unfolding m_v4_rx_iff by auto

text \<open>A group in square brackets loses its brackets when the closing one ends the group;
  characters after it shift the cut: the last character goes and the bracket stays.\<close>

theorem unbracket_group:
  "unbracket (''['' @ s @ '']'') = s \<and> unbracket (''['' @ s @ '']'' @ t @ [c]) = s @ '']'' @ t"
  by (simp add: unbracket_def strip_brackets_def)

end
