(* ===== verification/Serialization.thy ===== *)
theory Serialization
  imports Buffers Std_Map Uri
begin

text \<open>
  The wire format (\<open>libhamcast/src/serialization.cpp\<close>,
  \<open>libhamcast/hamcast/util/serialization.hpp\<close>). A \<open>serializer\<close> is the \<open>write\<close> of its sink, a
  \<open>deserializer\<close> the \<open>read\<close> of its source; every \<open>operator<<\<close> is a \<open>ser_\<close> function and every
  \<open>operator>>\<close> a \<open>des_\<close> function, built from these calls in the order of the code. The
  thread-local cache of parsed uris is part of the state of a deserialization. \<open>enc_\<close>
  functions are the format itself. \<open>encodes\<close> and \<open>decodes\<close> relate the three, first inside the
  contracts of sinks and sources, then for the buffers of the library.
\<close>

section \<open>The uri cache\<close>

type_synonym uri_cache = "(string \<times> uri) list"

definition max_cache_size :: nat where
  "max_cache_size = 50"

definition uri_lookup :: "string \<Rightarrow> uri_cache \<Rightarrow> uri \<times> uri_cache" where
  "uri_lookup uri_str cache =
     (case map_of cache uri_str of
        Some storage \<Rightarrow> (storage, cache)
      | None \<Rightarrow>
          let storage = uri_of uri_str;
              cache' = (if max_cache_size \<le> length cache then [] else cache)
          in (storage, sm_insert uri_str storage cache'))"

section \<open>Integers and bool\<close>

definition ser_u8 :: "(bytes \<Rightarrow> ('s, unit) op) \<Rightarrow> u8 \<Rightarrow> ('s, unit) op" where
  "ser_u8 wr w = wr (le_enc 1 (unat w))"

definition ser_u16 :: "(bytes \<Rightarrow> ('s, unit) op) \<Rightarrow> u16 \<Rightarrow> ('s, unit) op" where
  "ser_u16 wr w = wr (le_enc 2 (unat w))"

definition ser_u32 :: "(bytes \<Rightarrow> ('s, unit) op) \<Rightarrow> u32 \<Rightarrow> ('s, unit) op" where
  "ser_u32 wr w = wr (le_enc 4 (unat w))"

definition ser_bool :: "(bytes \<Rightarrow> ('s, unit) op) \<Rightarrow> bool \<Rightarrow> ('s, unit) op" where
  "ser_bool wr b = ser_u8 wr (if b then 1 else 0)"

text \<open>The read of the source, on the state of a deserialization.\<close>

definition des_read :: "(nat \<Rightarrow> ('s, bytes) op) \<Rightarrow> nat \<Rightarrow> ('s \<times> uri_cache, bytes) op" where
  "des_read rd n s = (case rd n (fst s) of (r, s') \<Rightarrow> (r, (s', snd s)))"

definition des_u8 :: "(nat \<Rightarrow> ('s, bytes) op) \<Rightarrow> ('s \<times> uri_cache, u8) op" where
  "des_u8 rd = sbind (des_read rd 1) (\<lambda>b. sret (of_nat (le_dec b)))"

definition des_u16 :: "(nat \<Rightarrow> ('s, bytes) op) \<Rightarrow> ('s \<times> uri_cache, u16) op" where
  "des_u16 rd = sbind (des_read rd 2) (\<lambda>b. sret (of_nat (le_dec b)))"

definition des_u32 :: "(nat \<Rightarrow> ('s, bytes) op) \<Rightarrow> ('s \<times> uri_cache, u32) op" where
  "des_u32 rd = sbind (des_read rd 4) (\<lambda>b. sret (of_nat (le_dec b)))"

definition des_bool :: "(nat \<Rightarrow> ('s, bytes) op) \<Rightarrow> ('s \<times> uri_cache, bool) op" where
  "des_bool rd = sbind (des_u8 rd) (\<lambda>tmp. sret (tmp \<noteq> 0))"

section \<open>Strings\<close>

definition ser_string :: "(bytes \<Rightarrow> ('s, unit) op) \<Rightarrow> string \<Rightarrow> ('s, unit) op" where
  "ser_string wr what = sbind (ser_u32 wr (of_nat (length what))) (\<lambda>_. wr what)"

text \<open>
  The loop reads chunks of at most 128 bytes and appends each as a C string: \<open>storage += chunk\<close>
  stops at the first NUL of the chunk.
\<close>

definition c_string :: "bytes \<Rightarrow> string" where
  "c_string b = takeWhile (\<lambda>c. c \<noteq> CHR 0x00) b"

function des_chunks :: "(nat \<Rightarrow> ('s, bytes) op) \<Rightarrow> nat \<Rightarrow> string \<Rightarrow> ('s \<times> uri_cache, string) op" where
  "des_chunks rd str_size storage s =
     (if 0 < str_size then
        let rd_size = min 128 str_size in
        case des_read rd rd_size s of
          (Inl e, s') \<Rightarrow> (Inl e, s')
        | (Inr chunk, s') \<Rightarrow> des_chunks rd (str_size - rd_size) (storage @ c_string chunk) s'
      else (Inr storage, s))"
  by pat_completeness auto
termination by (relation "measure (\<lambda>(rd, n, storage, s). n)") auto

declare des_chunks.simps [simp del]

definition des_string :: "(nat \<Rightarrow> ('s, bytes) op) \<Rightarrow> ('s \<times> uri_cache, string) op" where
  "des_string rd = sbind (des_u32 rd) (\<lambda>str_size. des_chunks rd (unat str_size) [])"

section \<open>HAMcast types\<close>

definition ser_uri :: "(bytes \<Rightarrow> ('s, unit) op) \<Rightarrow> uri \<Rightarrow> ('s, unit) op" where
  "ser_uri wr what = ser_string wr (str what)"

definition des_lookup :: "string \<Rightarrow> ('s \<times> uri_cache, uri) op" where
  "des_lookup uri_str s = (case uri_lookup uri_str (snd s) of (u, c) \<Rightarrow> (Inr u, (fst s, c)))"

definition des_uri :: "(nat \<Rightarrow> ('s, bytes) op) \<Rightarrow> ('s \<times> uri_cache, uri) op" where
  "des_uri rd = sbind (des_string rd) des_lookup"

record multicast_packet =
  mp_source_uri :: uri
  mp_size :: u32
  mp_data :: bytes

definition new_multicast_packet :: multicast_packet where
  "new_multicast_packet = \<lparr>mp_source_uri = default_uri, mp_size = 0, mp_data = []\<rparr>"

definition ser_multicast_packet :: "(bytes \<Rightarrow> ('s, unit) op) \<Rightarrow> multicast_packet \<Rightarrow> ('s, unit) op" where
  "ser_multicast_packet wr mp =
     sbind (ser_uri wr (mp_source_uri mp)) (\<lambda>_. sbind (ser_u32 wr (mp_size mp)) (\<lambda>_.
       if 0 < mp_size mp then wr (take (unat (mp_size mp)) (mp_data mp)) else sret ()))"

definition des_multicast_packet :: "(nat \<Rightarrow> ('s, bytes) op) \<Rightarrow> ('s \<times> uri_cache, multicast_packet) op" where
  "des_multicast_packet rd =
     sbind (des_uri rd) (\<lambda>mp_from. sbind (des_u32 rd) (\<lambda>n.
       sbind (if 0 < n then des_read rd (unat n) else sret []) (\<lambda>b.
         sret \<lparr>mp_source_uri = mp_from, mp_size = n, mp_data = b\<rparr>)))"

record interface_property =
  ip_id :: u32
  ip_name :: string
  ip_address :: string
  ip_technology :: string

definition ser_interface_property :: "(bytes \<Rightarrow> ('s, unit) op) \<Rightarrow> interface_property \<Rightarrow> ('s, unit) op" where
  "ser_interface_property wr ip =
     sbind (ser_u32 wr (ip_id ip)) (\<lambda>_. sbind (ser_string wr (ip_name ip)) (\<lambda>_.
     sbind (ser_string wr (ip_address ip)) (\<lambda>_. ser_string wr (ip_technology ip))))"

definition des_interface_property :: "(nat \<Rightarrow> ('s, bytes) op) \<Rightarrow> ('s \<times> uri_cache, interface_property) op" where
  "des_interface_property rd =
     sbind (des_u32 rd) (\<lambda>i. sbind (des_string rd) (\<lambda>n. sbind (des_string rd) (\<lambda>a. sbind (des_string rd) (\<lambda>t.
       sret \<lparr>ip_id = i, ip_name = n, ip_address = a, ip_technology = t\<rparr>))))"

section \<open>Pairs and containers\<close>

definition ser_pair ::
  "('a \<Rightarrow> ('s, unit) op) \<Rightarrow> ('b \<Rightarrow> ('s, unit) op) \<Rightarrow> 'a \<times> 'b \<Rightarrow> ('s, unit) op" where
  "ser_pair f g what = sbind (f (fst what)) (\<lambda>_. g (snd what))"

definition des_pair :: "('s, 'a) op \<Rightarrow> ('s, 'b) op \<Rightarrow> ('s, 'a \<times> 'b) op" where
  "des_pair f g = sbind f (\<lambda>x. sbind g (\<lambda>y. sret (x, y)))"

primrec ser_each :: "('a \<Rightarrow> ('s, unit) op) \<Rightarrow> 'a list \<Rightarrow> ('s, unit) op" where
  "ser_each f [] = sret ()"
| "ser_each f (x # xs) = sbind (f x) (\<lambda>_. ser_each f xs)"

definition serialize_container ::
  "(bytes \<Rightarrow> ('s, unit) op) \<Rightarrow> ('a \<Rightarrow> ('s, unit) op) \<Rightarrow> 'a list \<Rightarrow> ('s, unit) op" where
  "serialize_container wr f what = sbind (ser_u32 wr (of_nat (length what))) (\<lambda>_. ser_each f what)"

text \<open>\<open>add\<close> is \<open>push_back\<close> for vectors and lists and \<open>map::insert\<close> for maps.\<close>

primrec des_each :: "('s, 'a) op \<Rightarrow> ('a \<Rightarrow> 'c \<Rightarrow> 'c) \<Rightarrow> nat \<Rightarrow> 'c \<Rightarrow> ('s, 'c) op" where
  "des_each f add 0 c = sret c"
| "des_each f add (Suc n) c = sbind f (\<lambda>x. des_each f add n (add x c))"

definition deserialize_container ::
  "(nat \<Rightarrow> ('s, bytes) op) \<Rightarrow> ('s \<times> uri_cache, 'a) op \<Rightarrow> ('a \<Rightarrow> 'c \<Rightarrow> 'c) \<Rightarrow> 'c \<Rightarrow> ('s \<times> uri_cache, 'c) op" where
  "deserialize_container rd f add c =
     sbind (des_u32 rd) (\<lambda>num_elements. des_each f add (unat num_elements) c)"

definition des_vector ::
  "(nat \<Rightarrow> ('s, bytes) op) \<Rightarrow> ('s \<times> uri_cache, 'a) op \<Rightarrow> ('s \<times> uri_cache, 'a list) op" where
  "des_vector rd f = deserialize_container rd f (\<lambda>x xs. xs @ [x]) []"

definition des_map ::
  "(nat \<Rightarrow> ('s, bytes) op) \<Rightarrow> ('s \<times> uri_cache, 'k :: linorder) op \<Rightarrow> ('s \<times> uri_cache, 'v) op
     \<Rightarrow> ('s \<times> uri_cache, ('k \<times> 'v) list) op" where
  "des_map rd f g = deserialize_container rd (des_pair f g) (\<lambda>(k, v) m. sm_insert k v m) []"

section \<open>The format\<close>

definition enc_string :: "string \<Rightarrow> bytes" where
  "enc_string s = le_enc 4 (length s) @ s"

definition enc_uri :: "uri \<Rightarrow> bytes" where
  "enc_uri u = enc_string (str u)"

definition enc_multicast_packet :: "multicast_packet \<Rightarrow> bytes" where
  "enc_multicast_packet mp = enc_uri (mp_source_uri mp) @ le_enc 4 (unat (mp_size mp)) @ mp_data mp"

definition enc_interface_property :: "interface_property \<Rightarrow> bytes" where
  "enc_interface_property ip =
     le_enc 4 (unat (ip_id ip)) @ enc_string (ip_name ip) @ enc_string (ip_address ip) @ enc_string (ip_technology ip)"

definition enc_list :: "('a \<Rightarrow> bytes) \<Rightarrow> 'a list \<Rightarrow> bytes" where
  "enc_list f xs = le_enc 4 (length xs) @ concat (map f xs)"

text \<open>The values that survive: sizes that fit the 32-bit length field and strings without NUL.\<close>

definition string_ok :: "string \<Rightarrow> bool" where
  "string_ok s \<longleftrightarrow> length s < 2 ^ 32 \<and> CHR 0x00 \<notin> set s"

definition packet_ok :: "multicast_packet \<Rightarrow> bool" where
  "packet_ok mp \<longleftrightarrow> string_ok (str (mp_source_uri mp)) \<and> length (mp_data mp) = unat (mp_size mp)"

definition property_ok :: "interface_property \<Rightarrow> bool" where
  "property_ok ip \<longleftrightarrow> string_ok (ip_name ip) \<and> string_ok (ip_address ip) \<and> string_ok (ip_technology ip)"

definition cache_ok :: "uri_cache \<Rightarrow> bool" where
  "cache_ok c \<longleftrightarrow> sm_ok c \<and> length c \<le> max_cache_size \<and> (\<forall>(s, u) \<in> set c. u = uri_of s)"

section \<open>Encoding and decoding as relations\<close>

text \<open>
  \<open>encodes op b\<close>: on a sink with room for \<open>b\<close>, \<open>op\<close> returns and appends exactly \<open>b\<close>.
  \<open>decodes op v b\<close>: on a source that starts with \<open>b\<close>, \<open>op\<close> returns \<open>v\<close> and consumes exactly
  \<open>b\<close>.
\<close>

definition encodes ::
  "('s \<Rightarrow> bool) \<Rightarrow> ('s \<Rightarrow> bytes) \<Rightarrow> ('s \<Rightarrow> nat) \<Rightarrow> ('s, unit) op \<Rightarrow> bytes \<Rightarrow> bool" where
  "encodes ok written room f b \<longleftrightarrow>
     (\<forall>s. ok s \<longrightarrow> length b \<le> room s \<longrightarrow>
        (\<exists>s'. f s = (Inr (), s') \<and> ok s' \<and> written s' = written s @ b \<and> room s - length b \<le> room s'))"

definition decodes ::
  "('s \<Rightarrow> bool) \<Rightarrow> ('s \<Rightarrow> bytes) \<Rightarrow> ('s \<times> uri_cache, 'a) op \<Rightarrow> 'a \<Rightarrow> bytes \<Rightarrow> bool" where
  "decodes ok stream f v b \<longleftrightarrow>
     (\<forall>s c rest. ok s \<longrightarrow> cache_ok c \<longrightarrow> stream s = b @ rest \<longrightarrow>
        (\<exists>s' c'. f (s, c) = (Inr v, (s', c')) \<and> ok s' \<and> cache_ok c' \<and> stream s' = rest))"

named_theorems enc_intros "introduction rules for encodes and decodes"

lemma encodesD:
  assumes "encodes ok written room f b" "ok s" "length b \<le> room s"
  obtains s' where "f s = (Inr (), s')" "ok s'" "written s' = written s @ b" "room s - length b \<le> room s'"
  using assms unfolding encodes_def by blast

lemma encodes_sret [enc_intros]: "encodes ok written room (sret ()) []"
  by (simp add: encodes_def)

lemma encodes_sbind [enc_intros]:
  assumes "encodes ok written room f b" "encodes ok written room g c"
  shows "encodes ok written room (sbind f (\<lambda>_. g)) (b @ c)"
  unfolding encodes_def
proof (intro allI impI)
  fix s assume s: "ok s" "length (b @ c) \<le> room s"
  then obtain s1 where 1: "f s = (Inr (), s1)" "ok s1" "written s1 = written s @ b" "room s - length b \<le> room s1"
    using encodesD [OF assms(1) s(1)] by auto
  with s obtain s2 where "g s1 = (Inr (), s2)" "ok s2" "written s2 = written s1 @ c" "room s1 - length c \<le> room s2"
    using encodesD [OF assms(2) 1(2)] by force
  with 1 show "\<exists>s'. sbind f (\<lambda>_. g) s = (Inr (), s') \<and> ok s' \<and> written s' = written s @ b @ c
      \<and> room s - length (b @ c) \<le> room s'"
    by (auto simp: sbind_Inr)
qed

lemma decodesD:
  assumes "decodes ok stream f v b" "ok s" "cache_ok c" "stream s = b @ rest"
  obtains s' c' where "f (s, c) = (Inr v, (s', c'))" "ok s'" "cache_ok c'" "stream s' = rest"
  using assms unfolding decodes_def by blast

lemma decodes_sret [enc_intros]: "decodes ok stream (sret v) v []"
  by (simp add: decodes_def)

lemma decodes_sbind:
  assumes "decodes ok stream f v b" "decodes ok stream (g v) w c"
  shows "decodes ok stream (sbind f g) w (b @ c)"
  unfolding decodes_def
proof (intro allI impI)
  fix s ca rest assume s: "ok s" "cache_ok ca" "stream s = (b @ c) @ rest"
  then obtain s1 c1 where 1: "f (s, ca) = (Inr v, (s1, c1))" "ok s1" "cache_ok c1" "stream s1 = c @ rest"
    using decodesD [OF assms(1) s(1,2), of "c @ rest"] by auto
  then obtain s2 c2 where "g v (s1, c1) = (Inr w, (s2, c2))" "ok s2" "cache_ok c2" "stream s2 = rest"
    using decodesD [OF assms(2) 1(2,3,4)] by blast
  with 1 show "\<exists>s' c'. sbind f g (s, ca) = (Inr w, (s', c')) \<and> ok s' \<and> cache_ok c' \<and> stream s' = rest"
    by (auto simp: sbind_Inr)
qed

lemma decodes_sbind_sret:
  "decodes ok stream f v b \<Longrightarrow> w = h v \<Longrightarrow> decodes ok stream (sbind f (\<lambda>x. sret (h x))) w b"
  using decodes_sbind [of ok stream f v b "\<lambda>x. sret (h x)" "h v" "[]"] decodes_sret by fastforce

lemma encodes_ser_each [enc_intros]:
  "(\<And>x. x \<in> set xs \<Longrightarrow> encodes ok written room (f x) (e x)) \<Longrightarrow>
     encodes ok written room (ser_each f xs) (concat (map e xs))"
  by (induction xs) (auto intro: enc_intros)

lemma encodes_ser_pair [enc_intros]:
  "encodes ok written room (f x) b \<Longrightarrow> encodes ok written room (g y) c \<Longrightarrow>
     encodes ok written room (ser_pair f g (x, y)) (b @ c)"
  by (simp add: ser_pair_def encodes_sbind)

lemma decodes_des_pair [enc_intros]:
  "decodes ok stream f x b \<Longrightarrow> decodes ok stream g y c \<Longrightarrow> decodes ok stream (des_pair f g) (x, y) (b @ c)"
  unfolding des_pair_def by (intro decodes_sbind [of ok stream f x b] decodes_sbind_sret [of ok stream g y c]) simp_all

lemma decodes_des_each:
  "(\<And>x. x \<in> set xs \<Longrightarrow> decodes ok stream f x (e x)) \<Longrightarrow>
     decodes ok stream (des_each f add (length xs) c) (fold add xs c) (concat (map e xs))"
proof (induction xs arbitrary: c)
  case (Cons x xs)
  then show ?case by (auto intro: decodes_sbind)
qed (simp add: decodes_sret)

section \<open>The cache is transparent\<close>

lemma uri_lookup_ok:
  assumes "cache_ok c"
  shows "fst (uri_lookup s c) = uri_of s" "cache_ok (snd (uri_lookup s c))"
proof -
  show "fst (uri_lookup s c) = uri_of s"
    using assms by (auto simp: uri_lookup_def cache_ok_def Let_def split: option.splits dest!: map_of_SomeD)
  show "cache_ok (snd (uri_lookup s c))"
  proof (cases "map_of c s")
    case None
    let ?c = "if max_cache_size \<le> length c then [] else c"
    have "sm_ok ?c" "length ?c < max_cache_size" "\<forall>(s, u) \<in> set ?c. u = uri_of s"
      using assms by (auto simp: cache_ok_def max_cache_size_def)
    with None show ?thesis
      using set_sm_insert_subset [of s "uri_of s" ?c] length_sm_insert [of s "uri_of s" ?c]
      by (simp only: uri_lookup_def option.case Let_def snd_conv cache_ok_def) (force split: if_splits)
  next
    case (Some u)
    with assms show ?thesis by (simp add: uri_lookup_def)
  qed
qed

section \<open>In the contract of a sink\<close>

context byte_sink
begin

lemma encodes_wr [enc_intros]: "encodes sink_ok written room (wr b) b"
  using wr_fits by (simp add: encodes_def)

lemma encodes_u8 [enc_intros]: "encodes sink_ok written room (ser_u8 wr w) (le_enc 1 (unat w))"
  unfolding ser_u8_def by (rule encodes_wr)

lemma encodes_u16 [enc_intros]: "encodes sink_ok written room (ser_u16 wr w) (le_enc 2 (unat w))"
  unfolding ser_u16_def by (rule encodes_wr)

lemma encodes_u32 [enc_intros]: "encodes sink_ok written room (ser_u32 wr w) (le_enc 4 (unat w))"
  unfolding ser_u32_def by (rule encodes_wr)

lemma encodes_bool [enc_intros]: "encodes sink_ok written room (ser_bool wr b) (le_enc 1 (of_bool b))"
  unfolding ser_bool_def using encodes_u8 [of "if b then 1 else 0"] by (cases b) simp_all

lemma encodes_length: "n < 2 ^ 32 \<Longrightarrow> encodes sink_ok written room (ser_u32 wr (of_nat n)) (le_enc 4 n)"
  using encodes_u32 [of "of_nat n"] by (simp add: unat_of_nat)

lemma encodes_string [enc_intros]:
  "length s < 2 ^ 32 \<Longrightarrow> encodes sink_ok written room (ser_string wr s) (enc_string s)"
  unfolding ser_string_def enc_string_def by (intro encodes_sbind encodes_length encodes_wr)

lemma encodes_uri [enc_intros]:
  "length (str u) < 2 ^ 32 \<Longrightarrow> encodes sink_ok written room (ser_uri wr u) (enc_uri u)"
  unfolding ser_uri_def enc_uri_def by (rule encodes_string)

lemma encodes_multicast_packet [enc_intros]:
  assumes "packet_ok mp"
  shows "encodes sink_ok written room (ser_multicast_packet wr mp) (enc_multicast_packet mp)"
proof -
  have d: "take (unat (mp_size mp)) (mp_data mp) = mp_data mp" and s: "length (str (mp_source_uri mp)) < 2 ^ 32"
    using assms by (simp_all add: packet_ok_def string_ok_def)
  have "encodes sink_ok written room (if 0 < mp_size mp then wr (mp_data mp) else sret ()) (mp_data mp)"
    using assms encodes_wr encodes_sret by (auto simp: packet_ok_def word_gt_0)
  then show ?thesis
    unfolding ser_multicast_packet_def enc_multicast_packet_def d by (intro encodes_sbind encodes_uri encodes_u32 s)
qed

lemma encodes_interface_property [enc_intros]:
  "property_ok ip \<Longrightarrow> encodes sink_ok written room (ser_interface_property wr ip) (enc_interface_property ip)"
  unfolding ser_interface_property_def enc_interface_property_def
  by (intro encodes_sbind encodes_u32 encodes_string) (simp_all add: property_ok_def string_ok_def)

lemma encodes_container [enc_intros]:
  assumes "length xs < 2 ^ 32" "\<And>x. x \<in> set xs \<Longrightarrow> encodes sink_ok written room (f x) (e x)"
  shows "encodes sink_ok written room (serialize_container wr f xs) (enc_list e xs)"
  unfolding serialize_container_def enc_list_def using assms
  by (intro encodes_sbind encodes_length encodes_ser_each) auto

end

section \<open>In the contract of a source\<close>

text \<open>What the chunked, NUL-terminated copy makes of a string.\<close>

function chunk_strings :: "string \<Rightarrow> string" where
  "chunk_strings s = (if s = [] then [] else c_string (take 128 s) @ chunk_strings (drop 128 s))"
  by pat_completeness auto
termination by (relation "measure length") auto

declare chunk_strings.simps [simp del]

lemma c_string_id: "CHR 0x00 \<notin> set b \<Longrightarrow> c_string b = b"
  unfolding c_string_def by (rule takeWhile_eq_all_conv [THEN iffD2]) auto

lemma chunk_strings_id: "CHR 0x00 \<notin> set s \<Longrightarrow> chunk_strings s = s"
proof (induction s rule: chunk_strings.induct)
  case (1 s)
  show ?case
  proof (cases "s = []")
    case False
    have "CHR 0x00 \<notin> set (drop 128 s)" "CHR 0x00 \<notin> set (take 128 s)"
      using 1(2) by (auto dest: in_set_dropD in_set_takeD)
    with 1(1) [OF False] False show ?thesis by (subst chunk_strings.simps) (simp add: c_string_id)
  qed (simp add: chunk_strings.simps)
qed

lemma length_chunk_strings: "length (chunk_strings s) \<le> length s"
proof (induction s rule: chunk_strings.induct)
  case (1 s)
  have "length (c_string (take 128 s)) \<le> length (take 128 s)"
    unfolding c_string_def by (rule length_takeWhile_le)
  with 1 show ?case by (subst chunk_strings.simps) (auto simp: min_def split: if_splits)
qed

lemma chunk_strings_id_iff: "chunk_strings s = s \<longleftrightarrow> CHR 0x00 \<notin> set s"
proof
  assume "chunk_strings s = s"
  then show "CHR 0x00 \<notin> set s"
  proof (induction s rule: chunk_strings.induct)
    case (1 s)
    show ?case
    proof (cases "s = []")
      case False
      with 1(2) have e: "c_string (take 128 s) @ chunk_strings (drop 128 s) = take 128 s @ drop 128 s"
        by (subst (asm) chunk_strings.simps) simp
      moreover have "length (c_string (take 128 s)) \<le> length (take 128 s)"
        unfolding c_string_def by (rule length_takeWhile_le)
      moreover have "length (c_string (take 128 s)) + length (chunk_strings (drop 128 s))
          = length (take 128 s) + length (drop 128 s)" using arg_cong [OF e, of length] by (simp only: length_append)
      ultimately have "length (c_string (take 128 s)) = length (take 128 s)"
        using length_chunk_strings [of "drop 128 s"] by linarith
      with e have "c_string (take 128 s) = take 128 s" "chunk_strings (drop 128 s) = drop 128 s"
        using append_eq_append_conv [of "c_string (take 128 s)" "take 128 s" "chunk_strings (drop 128 s)" "drop 128 s"]
        by blast+
      with 1(1) [OF False] have "CHR 0x00 \<notin> set (drop 128 s)" "CHR 0x00 \<notin> set (take 128 s)"
        by (auto simp: c_string_def takeWhile_eq_all_conv)
      then show ?thesis by (metis Un_iff append_take_drop_id set_append)
    qed simp
  qed
qed (rule chunk_strings_id)

lemma of_nat_unat_mod:
  "of_nat (unat (w :: u8) mod 256) = w" "of_nat (unat (v :: u16) mod 65536) = v"
  "of_nat (unat (x :: u32) mod 4294967296) = x"
  using unsigned_less [of w, where ?'a = nat] unsigned_less [of v, where ?'a = nat]
    unsigned_less [of x, where ?'a = nat] by simp_all

context byte_source
begin

lemma decodes_read:
  assumes "length b = n" "n \<le> lim"
  shows "decodes src_ok stream (des_read rd n) b b"
  unfolding decodes_def
proof (intro allI impI)
  fix s c rest assume s: "src_ok s" "cache_ok c" "stream s = b @ rest"
  with rd_enough [of s n] assms show "\<exists>s' c'. des_read rd n (s, c) = (Inr b, (s', c')) \<and> src_ok s' \<and> cache_ok c'
      \<and> stream s' = rest" by (auto simp: des_read_def)
qed

lemma decodes_u8: "1 \<le> lim \<Longrightarrow> decodes src_ok stream (des_u8 rd) w (le_enc 1 (unat w))"
  unfolding des_u8_def
  by (rule decodes_sbind_sret [OF decodes_read]) (simp_all add: le_dec_enc of_nat_unat_mod)

lemma decodes_u16: "2 \<le> lim \<Longrightarrow> decodes src_ok stream (des_u16 rd) w (le_enc 2 (unat w))"
  unfolding des_u16_def
  by (rule decodes_sbind_sret [OF decodes_read]) (simp_all add: le_dec_enc of_nat_unat_mod)

lemma decodes_u32: "4 \<le> lim \<Longrightarrow> decodes src_ok stream (des_u32 rd) w (le_enc 4 (unat w))"
  unfolding des_u32_def
  by (rule decodes_sbind_sret [OF decodes_read]) (simp_all add: le_dec_enc of_nat_unat_mod)

lemma decodes_length:
  "4 \<le> lim \<Longrightarrow> n < 2 ^ 32 \<Longrightarrow> decodes src_ok stream (des_u32 rd) (of_nat n) (le_enc 4 n)"
  using decodes_u32 [of "of_nat n"] by (simp add: unat_of_nat)

lemma decodes_bool: "1 \<le> lim \<Longrightarrow> decodes src_ok stream (des_bool rd) b (le_enc 1 (of_bool b))"
  unfolding des_bool_def using decodes_u8 [of "of_bool b"]
  by (intro decodes_sbind_sret [of _ _ _ "of_bool b"]) (cases b; simp)+

lemma decodes_chunks:
  "128 \<le> lim \<Longrightarrow> decodes src_ok stream (des_chunks rd (length s) acc) (acc @ chunk_strings s) s"
proof (induction s arbitrary: acc rule: chunk_strings.induct)
  case (1 s)
  show ?case
  proof (cases "s = []")
    case True
    then show ?thesis by (simp add: decodes_def des_chunks.simps chunk_strings.simps)
  next
    case False
    let ?h = "take 128 s" and ?t = "drop 128 s" and ?n = "min 128 (length s)"
    have eq: "des_chunks rd (length s) acc = sbind (des_read rd ?n) (\<lambda>b. des_chunks rd (length ?t) (acc @ c_string b))"
      by (rule ext) (subst des_chunks.simps, use False in \<open>auto simp: sbind_def Let_def min_def split: prod.splits sum.splits\<close>)
    have "decodes src_ok stream (des_read rd ?n) ?h ?h"
      by (rule decodes_read) (use 1(2) in \<open>auto simp: min_def\<close>)
    moreover have "decodes src_ok stream (des_chunks rd (length ?t) (acc @ c_string ?h)) ((acc @ c_string ?h) @ chunk_strings ?t) ?t"
      by (rule 1(1) [OF False 1(2)])
    ultimately have "decodes src_ok stream (des_chunks rd (length s) acc) ((acc @ c_string ?h) @ chunk_strings ?t) (?h @ ?t)"
      unfolding eq by (rule decodes_sbind)
    then show ?thesis using False by (subst chunk_strings.simps) simp
  qed
qed

lemma decodes_any_string:
  assumes "128 \<le> lim" "length s < 2 ^ 32"
  shows "decodes src_ok stream (des_string rd) (chunk_strings s) (enc_string s)"
proof -
  have u: "unat (of_nat (length s) :: u32) = length s" using assms(2) by (simp add: unat_of_nat)
  have "decodes src_ok stream (des_chunks rd (unat (of_nat (length s) :: u32)) []) (chunk_strings s) s"
    using decodes_chunks [OF assms(1), of s "[]"] unfolding u by simp
  then show ?thesis unfolding des_string_def enc_string_def
    using assms by (intro decodes_sbind [OF decodes_length]) simp_all
qed

lemma decodes_string: "128 \<le> lim \<Longrightarrow> string_ok s \<Longrightarrow> decodes src_ok stream (des_string rd) s (enc_string s)"
  using decodes_any_string [of s] by (simp add: string_ok_def chunk_strings_id)

lemma decodes_uri:
  assumes "128 \<le> lim" "string_ok (str u)"
  shows "decodes src_ok stream (des_uri rd) u (enc_uri u)"
proof -
  have "decodes src_ok stream (des_lookup (str u)) u []"
    unfolding decodes_def
  proof (intro allI impI)
    fix s c rest assume "src_ok s" "cache_ok c" "stream s = [] @ rest"
    with uri_lookup_ok [of c "str u"] show "\<exists>s' c'. des_lookup (str u) (s, c) = (Inr u, (s', c'))
        \<and> src_ok s' \<and> cache_ok c' \<and> stream s' = rest"
      by (cases "uri_lookup (str u) c") (simp add: des_lookup_def)
  qed
  with decodes_sbind [OF decodes_string [OF assms], of des_lookup u "[]"] show ?thesis
    unfolding des_uri_def enc_uri_def by simp
qed

lemma decodes_multicast_packet:
  assumes "128 \<le> lim" "packet_ok mp" "length (mp_data mp) \<le> lim"
  shows "decodes src_ok stream (des_multicast_packet rd) mp (enc_multicast_packet mp)"
proof -
  have "decodes src_ok stream (if 0 < mp_size mp then des_read rd (unat (mp_size mp)) else sret []) (mp_data mp) (mp_data mp)"
    using assms decodes_sret decodes_read [of "mp_data mp" "unat (mp_size mp)"]
    by (auto simp: packet_ok_def word_gt_0)
  then show ?thesis unfolding des_multicast_packet_def enc_multicast_packet_def
    using assms
    by (intro decodes_sbind [OF decodes_uri] decodes_sbind [OF decodes_u32] decodes_sbind_sret)
      (simp_all add: packet_ok_def, cases mp, simp)
qed

lemma decodes_interface_property:
  assumes "128 \<le> lim" "property_ok ip"
  shows "decodes src_ok stream (des_interface_property rd) ip (enc_interface_property ip)"
  unfolding des_interface_property_def enc_interface_property_def
  using assms
  by (intro decodes_sbind [OF decodes_u32] decodes_sbind [OF decodes_string] decodes_sbind_sret [OF decodes_string])
    (simp_all add: property_ok_def)

lemma decodes_container:
  assumes "4 \<le> lim" "length xs < 2 ^ 32" "\<And>x. x \<in> set xs \<Longrightarrow> decodes src_ok stream f x (e x)"
  shows "decodes src_ok stream (deserialize_container rd f add c) (fold add xs c) (enc_list e xs)"
proof -
  have u: "unat (of_nat (length xs) :: u32) = length xs" using assms(2) by (simp add: unat_of_nat)
  have "decodes src_ok stream (des_each f add (unat (of_nat (length xs) :: u32)) c) (fold add xs c) (concat (map e xs))"
    unfolding u by (rule decodes_des_each) (rule assms(3))
  then show ?thesis unfolding deserialize_container_def enc_list_def
    by (rule decodes_sbind [OF decodes_length [OF assms(1,2)]])
qed

lemma decodes_vector:
  assumes "4 \<le> lim" "length xs < 2 ^ 32" "\<And>x. x \<in> set xs \<Longrightarrow> decodes src_ok stream f x (e x)"
  shows "decodes src_ok stream (des_vector rd f) xs (enc_list e xs)"
proof -
  have "fold (\<lambda>x xs. xs @ [x]) xs ys = ys @ xs" for ys by (induction xs arbitrary: ys) simp_all
  with decodes_container [OF assms, of "\<lambda>x xs. xs @ [x]" "[]"] show ?thesis by (simp add: des_vector_def)
qed

lemma decodes_map:
  assumes "4 \<le> lim" "length m < 2 ^ 32" "sm_ok m"
    "\<And>k v. (k, v) \<in> set m \<Longrightarrow> decodes src_ok stream f k (ek k)"
    "\<And>k v. (k, v) \<in> set m \<Longrightarrow> decodes src_ok stream g v (ev v)"
  shows "decodes src_ok stream (des_map rd f g) m (enc_list (\<lambda>(k, v). ek k @ ev v) m)"
proof -
  have "decodes src_ok stream (des_pair f g) x ((\<lambda>(k, v). ek k @ ev v) x)" if "x \<in> set m" for x
  proof -
    obtain k v where x: "x = (k, v)" by fastforce
    with that assms(4) [of k v] assms(5) [of k v] show ?thesis by (simp add: decodes_des_pair)
  qed
  from decodes_container [OF assms(1,2) this, of "\<lambda>(k, v) m. sm_insert k v m" "[]"] assms(3) show ?thesis
    by (simp add: des_map_def fold_sm_insert [of "[]" m, simplified])
qed

end

section \<open>Properties\<close>

text \<open>C27: A multicast packet written to a \<open>write_buffer\<close> with room for it is read back from the
  buffer's content unchanged, and the read consumes exactly its bytes.\<close>

theorem packet_roundtrip:
  assumes "packet_ok mp" "cache_ok c" "wb_ok default_block_size default_max_write_buffer_size wb"
    and "wb_wr_pos wb + length (enc_multicast_packet mp) \<le> default_max_write_buffer_size"
  shows "\<exists>wb' rb' c'.
      ser_multicast_packet (wb_write default_block_size default_max_write_buffer_size) mp wb = (Inr (), wb')
    \<and> des_multicast_packet rb_read (\<lparr>rb_rd_pos = wb_wr_pos wb, rb_buf = wb_content wb'\<rparr>, c) = (Inr mp, (rb', c'))
    \<and> rb_available rb' = 0"
proof -
  have r: "length (enc_multicast_packet mp) \<le> default_max_write_buffer_size - wb_wr_pos wb" using assms(4) by simp
  from encodesD [OF wbuf.encodes_multicast_packet [OF assms(1)] assms(3) r] obtain wb' where
    wb': "ser_multicast_packet (wb_write default_block_size default_max_write_buffer_size) mp wb = (Inr (), wb')"
    "wb_content wb' = wb_content wb @ enc_multicast_packet mp" by blast
  let ?rb = "\<lparr>rb_rd_pos = wb_wr_pos wb, rb_buf = wb_content wb'\<rparr>"
  have s: "rb_stream ?rb = enc_multicast_packet mp @ []"
    using length_wb_content [OF assms(3)] wb'(2) by (simp add: rb_stream_def)
  have "decodes (\<lambda>_. True) rb_stream (des_multicast_packet rb_read) mp (enc_multicast_packet mp)"
    using rbuf.decodes_multicast_packet [of "max 128 (length (mp_data mp))" mp] assms(1) by simp
  from decodesD [OF this _ assms(2) s] wb'(1) show ?thesis
    by (metis rb_available_stream list.size(3))
qed

theorem packet_roundtrip_witness:
  "\<exists>wb' rb' c'.
      ser_multicast_packet (wb_write default_block_size default_max_write_buffer_size)
        \<lparr>mp_source_uri = uri_of ''ham:ip:g'', mp_size = 2, mp_data = [CHR 0x00, CHR 0xFF]\<rparr> new_write_buffer = (Inr (), wb')
    \<and> des_multicast_packet rb_read (\<lparr>rb_rd_pos = 0, rb_buf = wb_content wb'\<rparr>, [])
        = (Inr \<lparr>mp_source_uri = uri_of ''ham:ip:g'', mp_size = 2, mp_data = [CHR 0x00, CHR 0xFF]\<rparr>, (rb', c'))"
proof -
  let ?mp = "\<lparr>mp_source_uri = uri_of ''ham:ip:g'', mp_size = 2, mp_data = [CHR 0x00, CHR 0xFF]\<rparr>"
  have s: "str (uri_of ''ham:ip:g'') = ''ham:ip:g''" unfolding str_def uri_d_uri_of by code_simp
  have "packet_ok ?mp" by (simp add: packet_ok_def string_ok_def s)
  moreover have "cache_ok []" by (simp add: cache_ok_def)
  moreover have "wb_wr_pos new_write_buffer + length (enc_multicast_packet ?mp) \<le> default_max_write_buffer_size"
    by (simp add: enc_multicast_packet_def enc_uri_def enc_string_def s new_write_buffer_def
      default_max_write_buffer_size_def)
  ultimately show ?thesis
    using packet_roundtrip [of ?mp "[]" new_write_buffer] wb_ok_new by (auto simp: new_write_buffer_def)
qed

text \<open>A vector of interface properties, the reply of \<open>get_interfaces\<close>, is read back unchanged
  through a \<open>buffered_source\<close> that fetches the bytes in pieces from the source below it.\<close>

theorem interfaces_roundtrip:
  assumes "\<forall>ip \<in> set ips. property_ok ip" "length ips < 2 ^ 32" "cache_ok c"
    and "bsrc_ok default_block_size default_max_write_buffer_size (\<lambda>_. True) s"
    and "bsrc_stream rb_stream s = enc_list enc_interface_property ips @ rest"
  shows "\<exists>s' c'. des_vector (bsrc_read default_block_size default_max_write_buffer_size rb_read_some)
      (des_interface_property (bsrc_read default_block_size default_max_write_buffer_size rb_read_some)) (s, c)
      = (Inr ips, (s', c')) \<and> bsrc_stream rb_stream s' = rest"
proof -
  have lim: "128 \<le> default_max_write_buffer_size div 4" by (simp add: default_max_write_buffer_size_def)
  have "4 \<le> default_max_write_buffer_size div 4" using lim by simp
  from bsrc.decodes_vector [OF this assms(2), of _ enc_interface_property]
    bsrc.decodes_interface_property [OF lim] assms(1)
  have "decodes (bsrc_ok default_block_size default_max_write_buffer_size (\<lambda>_. True)) (bsrc_stream rb_stream)
      (des_vector (bsrc_read default_block_size default_max_write_buffer_size rb_read_some)
      (des_interface_property (bsrc_read default_block_size default_max_write_buffer_size rb_read_some))) ips
      (enc_list enc_interface_property ips)" by blast
  from decodesD [OF this assms(4,3,5)] show ?thesis by metis
qed

theorem interfaces_roundtrip_witness:
  "let ip = \<lparr>ip_id = 1, ip_name = ''eth0'', ip_address = ''10.0.0.1'', ip_technology = ''ip''\<rparr>;
       wb = \<lparr>wb_data = Some (replicate 512 CHR 0x00), wb_wr_pos = 0, wb_reserved = 512\<rparr>;
       s = \<lparr>bsrc_decorated = new_read_buffer (enc_list enc_interface_property [ip]), bsrc_rd_pos = 0,
            bsrc_buf1 = wb, bsrc_buf2 = wb, bsrc_first = True\<rparr>
   in \<exists>s' c'. des_vector (bsrc_read default_block_size default_max_write_buffer_size rb_read_some)
      (des_interface_property (bsrc_read default_block_size default_max_write_buffer_size rb_read_some)) (s, [])
      = (Inr [ip], (s', c')) \<and> bsrc_stream rb_stream s' = []"
  unfolding Let_def
  by (rule interfaces_roundtrip)
    (simp_all add: property_ok_def string_ok_def cache_ok_def bsrc_ok_def bsrc_data_def bsrc_other_def wb_ok_def
      bsrc_stream_def wb_content_def rb_stream_def new_read_buffer_def default_block_size_def
      default_max_write_buffer_size_def)

text \<open>C30: Reading back a serialized string gives the string exactly when it has no NUL: every
  chunk of 128 bytes is cut at its first NUL.\<close>

theorem string_roundtrip_iff:
  assumes "length s < 2 ^ 32" "cache_ok c"
  shows "fst (des_string rb_read (new_read_buffer (enc_string s), c)) = Inr s \<longleftrightarrow> CHR 0x00 \<notin> set s"
proof -
  have "decodes (\<lambda>_. True) rb_stream (des_string rb_read) (chunk_strings s) (enc_string s)"
    using rbuf.decodes_any_string [of 128 s] assms(1) by simp
  moreover have "rb_stream (new_read_buffer (enc_string s)) = enc_string s @ []"
    by (simp add: rb_stream_def new_read_buffer_def)
  ultimately have "fst (des_string rb_read (new_read_buffer (enc_string s), c)) = Inr (chunk_strings s)"
    using decodesD [of "\<lambda>_. True" rb_stream "des_string rb_read"] assms(2) by (metis fst_conv)
  then show ?thesis by (simp add: chunk_strings_id_iff)
qed

theorem string_roundtrip_iff_witness:
  "fst (des_string rb_read (new_read_buffer (enc_string ''abc''), [])) = Inr ''abc''
   \<and> fst (des_string rb_read (new_read_buffer (enc_string [CHR ''a'', CHR 0x00, CHR ''b'']), [])) \<noteq> Inr [CHR ''a'', CHR 0x00, CHR ''b'']"
  using string_roundtrip_iff [of "''abc''" "[]"] string_roundtrip_iff [of "[CHR ''a'', CHR 0x00, CHR ''b'']" "[]"]
  by (simp add: cache_ok_def)

text \<open>The thread-local uri cache is transparent: a lookup returns the uri the string parses
  to, whatever has been looked up before, and the cache stays within 50 correct entries.\<close>

theorem uri_cache_transparent:
  assumes "cache_ok c"
  shows "fst (uri_lookup s c) = uri_of s \<and> cache_ok (snd (uri_lookup s c)) \<and> length (snd (uri_lookup s c)) \<le> 50"
  using uri_lookup_ok [OF assms, of s] by (simp add: cache_ok_def max_cache_size_def)

theorem uri_cache_transparent_witness:
  "fst (uri_lookup ''x'' (snd (uri_lookup ''ham:ip:g'' []))) = uri_of ''x''"
  using uri_cache_transparent [of "snd (uri_lookup ''ham:ip:g'' [])" "''x''"] uri_cache_transparent [of "[]" "''ham:ip:g''"]
  by (simp add: cache_ok_def)

end
