(* ===== verification/Message.thy ===== *)
theory Message
  imports Serialization
begin

text \<open>
  IPC messages (\<open>libhamcast/src/message.cpp\<close>, \<open>libhamcast/hamcast/ipc/message.hpp\<close>): the
  message types and ids, the header of two 16-bit and three 32-bit fields, \<open>serialize\<close> and
  \<open>deserialize\<close>, and the \<open>serialize_as_message\<close> shortcuts that write a packet or an event
  as a message without building one. The lemmas show that a message survives the way over a
  stream, and that the shortcuts write exactly the message they stand for.
\<close>

section \<open>Types and ids\<close>

datatype message_type =
    sync_request | sync_response | async_event | async_send | async_recv | cumulative_ack | retransmit

fun message_type_code :: "message_type \<Rightarrow> u16" where
  "message_type_code sync_request = 0x00"
| "message_type_code sync_response = 0x01"
| "message_type_code async_event = 0x02"
| "message_type_code async_send = 0x03"
| "message_type_code async_recv = 0x04"
| "message_type_code cumulative_ack = 0x05"
| "message_type_code retransmit = 0x06"

text \<open>The cast of a field to the enumeration; \<open>None\<close> is a value without an enumerator.\<close>

definition message_type_of :: "u16 \<Rightarrow> message_type option" where
  "message_type_of w =
     (if w = 0 then Some sync_request else if w = 1 then Some sync_response
      else if w = 2 then Some async_event else if w = 3 then Some async_send
      else if w = 4 then Some async_recv else if w = 5 then Some cumulative_ack
      else if w = 6 then Some retransmit else None)"

definition valid_message_type :: "u16 \<Rightarrow> bool" where
  "valid_message_type w \<longleftrightarrow> message_type_of w \<noteq> None"

datatype exception_id = eid_none | eid_requirement_failed | eid_internal_interface_error

fun exception_id_code :: "exception_id \<Rightarrow> u16" where
  "exception_id_code eid_none = 0x0000"
| "exception_id_code eid_requirement_failed = 0x0001"
| "exception_id_code eid_internal_interface_error = 0x0002"

datatype function_id =
    fid_create_socket | fid_delete_socket | fid_create_send_stream | fid_join | fid_leave
  | fid_set_ttl | fid_get_sock_interfaces | fid_add_sock_interface | fid_del_sock_interface
  | fid_set_sock_interfaces | fid_get_interfaces | fid_group_set | fid_neighbor_set
  | fid_children_set | fid_parent_set | fid_designated_host | fid_enable_events
  | fid_disable_events | fid_get_atomic_msg_size | fid_set_is_img_flag | fid_get_is_img_flag

fun function_id_code :: "function_id \<Rightarrow> u16" where
  "function_id_code fid_create_socket = 0x0001"
| "function_id_code fid_delete_socket = 0x0002"
| "function_id_code fid_create_send_stream = 0x0003"
| "function_id_code fid_join = 0x0004"
| "function_id_code fid_leave = 0x0005"
| "function_id_code fid_set_ttl = 0x0006"
| "function_id_code fid_get_sock_interfaces = 0x0007"
| "function_id_code fid_add_sock_interface = 0x0008"
| "function_id_code fid_del_sock_interface = 0x0009"
| "function_id_code fid_set_sock_interfaces = 0x000A"
| "function_id_code fid_get_interfaces = 0x0100"
| "function_id_code fid_group_set = 0x0101"
| "function_id_code fid_neighbor_set = 0x0102"
| "function_id_code fid_children_set = 0x0103"
| "function_id_code fid_parent_set = 0x0104"
| "function_id_code fid_designated_host = 0x0105"
| "function_id_code fid_enable_events = 0x0200"
| "function_id_code fid_disable_events = 0x0201"
| "function_id_code fid_get_atomic_msg_size = 0x0202"
| "function_id_code fid_set_is_img_flag = 0xF001"
| "function_id_code fid_get_is_img_flag = 0xF002"

section \<open>The message\<close>

text \<open>The content is \<open>None\<close> for the null pointer.\<close>

record message =
  msg_type :: u16
  msg_field1 :: u16
  msg_field2 :: u32
  msg_field3 :: u32
  msg_content_size :: u32
  msg_content :: "bytes option"

definition header_size :: nat where
  "header_size = 2 * 2 + 3 * 4"

definition message_size :: "message \<Rightarrow> nat" where
  "message_size m = header_size + unat (msg_content_size m)"

definition message_create ::
  "u16 \<Rightarrow> u16 \<Rightarrow> u32 \<Rightarrow> u32 \<Rightarrow> u32 \<Rightarrow> bytes option \<Rightarrow> message res" where
  "message_create mtype field1 field2 field3 ct_size ct =
     rbind (hc_require ((ct \<noteq> None \<and> 0 < ct_size) \<or> (ct = None \<and> ct_size = 0))
             ''((ct) && ct_size > 0) || ((!ct) && ct_size == 0)'')
       (\<lambda>_. Inr \<lparr>msg_type = mtype, msg_field1 = field1, msg_field2 = field2, msg_field3 = field3,
                 msg_content_size = ct_size, msg_content = ct\<rparr>)"

text \<open>\<open>create\<close> from the pair that \<open>write_buffer::take\<close> returns.\<close>

definition message_create_pair ::
  "u16 \<Rightarrow> u16 \<Rightarrow> u32 \<Rightarrow> u32 \<Rightarrow> nat \<times> bytes option \<Rightarrow> message res" where
  "message_create_pair mtype field1 field2 field3 ct =
     rbind (hc_require (fst ct < 2 ^ 32 - 1) ''ct.first < std::numeric_limits<boost::uint32_t>::max()'')
       (\<lambda>_. message_create mtype field1 field2 field3 (of_nat (fst ct)) (snd ct))"

text \<open>The last field compared is the pointer: \<open>a\<close> and \<open>b\<close> are the addresses of the contents.\<close>

definition message_compare :: "nat \<Rightarrow> message \<Rightarrow> nat \<Rightarrow> message \<Rightarrow> int" where
  "message_compare a m b other =
     (if msg_type m > msg_type other then 1 else if msg_type m < msg_type other then -1
      else if msg_field1 m > msg_field1 other then 1 else if msg_field1 m < msg_field1 other then -1
      else if msg_field2 m > msg_field2 other then 1 else if msg_field2 m < msg_field2 other then -1
      else if msg_field3 m > msg_field3 other then 1 else if msg_field3 m < msg_field3 other then -1
      else if msg_content_size m > msg_content_size other then 1
      else if msg_content_size m < msg_content_size other then -1
      else if a > b then 1 else if a < b then -1
      else 0)"

definition ser_header ::
  "(bytes \<Rightarrow> ('s, unit) op) \<Rightarrow> u16 \<Rightarrow> u16 \<Rightarrow> u32 \<Rightarrow> u32 \<Rightarrow> u32 \<Rightarrow> ('s, unit) op" where
  "ser_header wr t f1 f2 f3 ct_size =
     sbind (ser_u16 wr t) (\<lambda>_. sbind (ser_u16 wr f1) (\<lambda>_. sbind (ser_u32 wr f2) (\<lambda>_.
     sbind (ser_u32 wr f3) (\<lambda>_. ser_u32 wr ct_size))))"

definition message_serialize :: "(bytes \<Rightarrow> ('s, unit) op) \<Rightarrow> message \<Rightarrow> ('s, unit) op" where
  "message_serialize wr m =
     sbind (ser_header wr (msg_type m) (msg_field1 m) (msg_field2 m) (msg_field3 m) (msg_content_size m)) (\<lambda>_.
       if 0 < msg_content_size m then
         (case msg_content m of
            None \<Rightarrow> sthrow (Undefined_behaviour ''read through null'')
          | Some ct \<Rightarrow> wr (take (unat (msg_content_size m)) ct))
       else sret ())"

definition message_deserialize :: "(nat \<Rightarrow> ('s, bytes) op) \<Rightarrow> ('s \<times> uri_cache, message) op" where
  "message_deserialize rd =
     sbind (des_u16 rd) (\<lambda>mtype. sbind (des_u16 rd) (\<lambda>f1. sbind (des_u32 rd) (\<lambda>f2.
     sbind (des_u32 rd) (\<lambda>f3. sbind (des_u32 rd) (\<lambda>ct_size.
     sbind (if 0 < ct_size then sbind (des_read rd (unat ct_size)) (\<lambda>b. sret (Some b)) else sret None) (\<lambda>ct.
       case message_create mtype f1 f2 f3 ct_size ct of Inl e \<Rightarrow> sthrow e | Inr m \<Rightarrow> sret m))))))"

section \<open>Writing without a message object\<close>

definition serialize_raw_message ::
  "(bytes \<Rightarrow> ('s, unit) op) \<Rightarrow> message_type \<Rightarrow> u16 \<Rightarrow> u32 \<Rightarrow> u32 \<Rightarrow> u32 \<Rightarrow> bytes \<Rightarrow> ('s, unit) op" where
  "serialize_raw_message wr mtype field1 field2 field3 ct_size ct =
     sbind (ser_header wr (message_type_code mtype) field1 field2 field3 ct_size) (\<lambda>_.
       if 0 < ct_size then wr (take (unat ct_size) ct) else sret ())"

datatype membership_event_type = invalid_event | join_event | leave_event | new_source_event

fun membership_event_type_code :: "membership_event_type \<Rightarrow> u16" where
  "membership_event_type_code invalid_event = 0x00"
| "membership_event_type_code join_event = 0x01"
| "membership_event_type_code leave_event = 0x02"
| "membership_event_type_code new_source_event = 0x03"

record membership_event =
  ev_type :: membership_event_type
  ev_iface_id :: u32
  ev_group :: uri

definition serialize_event_message :: "(bytes \<Rightarrow> ('s, unit) op) \<Rightarrow> membership_event \<Rightarrow> ('s, unit) op" where
  "serialize_event_message wr event =
     sbind (ser_header wr (message_type_code async_event) (membership_event_type_code (ev_type event)) (ev_iface_id event) 0
              (of_nat (4 + length (str (ev_group event)))))
       (\<lambda>_. ser_uri wr (ev_group event))"

definition serialize_packet_message ::
  "(bytes \<Rightarrow> ('s, unit) op) \<Rightarrow> u32 \<Rightarrow> multicast_packet \<Rightarrow> ('s, unit) op" where
  "serialize_packet_message wr receiver_sid pck =
     sbind (ser_header wr (message_type_code async_recv) 0 receiver_sid 0
              (of_nat (4 + length (str (mp_source_uri pck)) + 4 + unat (mp_size pck))))
       (\<lambda>_. sbind (ser_uri wr (mp_source_uri pck)) (\<lambda>_. sbind (ser_u32 wr (mp_size pck))
       (\<lambda>_. wr (take (unat (mp_size pck)) (mp_data pck)))))"

definition serialize_data_message ::
  "(bytes \<Rightarrow> ('s, unit) op) \<Rightarrow> u32 \<Rightarrow> uri \<Rightarrow> bytes \<Rightarrow> ('s, unit) op" where
  "serialize_data_message wr receiver_sid source data =
     sbind (ser_header wr (message_type_code async_recv) 0 receiver_sid 0
              (of_nat (4 + length (str source) + 4 + length data)))
       (\<lambda>_. sbind (ser_uri wr source) (\<lambda>_. sbind (ser_u32 wr (of_nat (length data))) (\<lambda>_. wr data)))"

section \<open>The format of a message\<close>

definition enc_header :: "u16 \<Rightarrow> u16 \<Rightarrow> u32 \<Rightarrow> u32 \<Rightarrow> u32 \<Rightarrow> bytes" where
  "enc_header t f1 f2 f3 n =
     le_enc 2 (unat t) @ le_enc 2 (unat f1) @ le_enc 4 (unat f2) @ le_enc 4 (unat f3) @ le_enc 4 (unat n)"

definition enc_message :: "message \<Rightarrow> bytes" where
  "enc_message m =
     enc_header (msg_type m) (msg_field1 m) (msg_field2 m) (msg_field3 m) (msg_content_size m)
     @ (case msg_content m of None \<Rightarrow> [] | Some ct \<Rightarrow> ct)"

definition message_ok :: "message \<Rightarrow> bool" where
  "message_ok m \<longleftrightarrow>
     (case msg_content m of None \<Rightarrow> msg_content_size m = 0
      | Some ct \<Rightarrow> ct \<noteq> [] \<and> length ct = unat (msg_content_size m))"

text \<open>The message that carries a content.\<close>

definition message_with :: "message_type \<Rightarrow> u16 \<Rightarrow> u32 \<Rightarrow> u32 \<Rightarrow> bytes \<Rightarrow> message" where
  "message_with t f1 f2 f3 ct =
     \<lparr>msg_type = message_type_code t, msg_field1 = f1, msg_field2 = f2, msg_field3 = f3,
      msg_content_size = of_nat (length ct), msg_content = (if ct = [] then None else Some ct)\<rparr>"

lemma message_type_of_code [simp]: "message_type_of (message_type_code t) = Some t"
  by (cases t) (simp_all add: message_type_of_def)

lemma message_type_of_eq_Some: "message_type_of w = Some t \<longleftrightarrow> w = message_type_code t"
  by (cases t) (auto simp: message_type_of_def split: if_splits)

lemma length_enc_header [simp]: "length (enc_header t f1 f2 f3 n) = header_size"
  by (simp add: enc_header_def header_size_def)

lemma length_enc_message: "message_ok m \<Longrightarrow> length (enc_message m) = message_size m"
  by (auto simp: enc_message_def message_ok_def message_size_def split: option.splits)

lemma message_ok_with: "length ct < 2 ^ 32 \<Longrightarrow> message_ok (message_with t f1 f2 f3 ct)"
  by (auto simp: message_ok_def message_with_def unat_of_nat)

lemma enc_message_with:
  "enc_message (message_with t f1 f2 f3 ct) = enc_header (message_type_code t) f1 f2 f3 (of_nat (length ct)) @ ct"
  by (simp add: enc_message_def message_with_def)

context byte_sink
begin

lemma encodes_header [enc_intros]:
  "encodes sink_ok written room (ser_header wr t f1 f2 f3 n) (enc_header t f1 f2 f3 n)"
  unfolding ser_header_def enc_header_def by (intro encodes_sbind encodes_u16 encodes_u32)

lemma encodes_message [enc_intros]:
  assumes "message_ok m"
  shows "encodes sink_ok written room (message_serialize wr m) (enc_message m)"
proof (cases "msg_content m")
  case None
  with assms show ?thesis unfolding message_serialize_def enc_message_def
    by (intro encodes_sbind encodes_header) (simp add: message_ok_def encodes_sret)
next
  case (Some ct)
  with assms have "0 < msg_content_size m" "take (unat (msg_content_size m)) ct = ct"
    by (auto simp: message_ok_def word_gt_0)
  with Some show ?thesis unfolding message_serialize_def enc_message_def
    by (intro encodes_sbind encodes_header) (simp add: encodes_wr)
qed

lemma encodes_packet_message:
  assumes "packet_ok pck"
  shows "encodes sink_ok written room (serialize_packet_message wr sid pck)
    (enc_message (message_with async_recv 0 sid 0 (enc_multicast_packet pck)))"
proof -
  have len: "length (enc_multicast_packet pck) = 4 + length (str (mp_source_uri pck)) + 4 + unat (mp_size pck)"
    and d: "take (unat (mp_size pck)) (mp_data pck) = mp_data pck"
    using assms by (simp_all add: packet_ok_def enc_multicast_packet_def enc_uri_def enc_string_def)
  show ?thesis unfolding enc_message_with len serialize_packet_message_def d unfolding enc_multicast_packet_def
    by (intro encodes_sbind encodes_header encodes_uri encodes_u32 encodes_wr)
      (use assms in \<open>simp add: packet_ok_def string_ok_def\<close>)
qed

lemma encodes_data_message:
  assumes "length (str source) < 2 ^ 32" "length data < 2 ^ 32"
  shows "encodes sink_ok written room (serialize_data_message wr sid source data)
    (enc_message (message_with async_recv 0 sid 0
       (enc_multicast_packet \<lparr>mp_source_uri = source, mp_size = of_nat (length data), mp_data = data\<rparr>)))"
proof -
  have len: "length (enc_uri source @ le_enc 4 (unat (of_nat (length data) :: u32)) @ data)
      = 4 + length (str source) + 4 + length data"
    by (simp add: enc_uri_def enc_string_def)
  show ?thesis unfolding serialize_data_message_def enc_multicast_packet_def enc_message_with
    multicast_packet.select_convs len using assms
    by (intro encodes_sbind encodes_header encodes_uri encodes_u32 encodes_wr)
qed

lemma encodes_event_message:
  assumes "length (str (ev_group ev)) < 2 ^ 32"
  shows "encodes sink_ok written room (serialize_event_message wr ev)
    (enc_message (message_with async_event (membership_event_type_code (ev_type ev)) (ev_iface_id ev) 0
       (enc_uri (ev_group ev))))"
proof -
  have len: "length (enc_uri (ev_group ev)) = 4 + length (str (ev_group ev))"
    by (simp add: enc_uri_def enc_string_def)
  show ?thesis unfolding serialize_event_message_def enc_message_with len using assms
    by (intro encodes_sbind encodes_header encodes_uri)
qed

end

context byte_source
begin

lemma decodes_message:
  assumes "4 \<le> lim" "message_ok m" "unat (msg_content_size m) \<le> lim"
  shows "decodes src_ok stream (message_deserialize rd) m (enc_message m)"
proof -
  let ?n = "msg_content_size m" and ?c = "case msg_content m of None \<Rightarrow> [] | Some ct \<Rightarrow> ct"
  have n: "(0 < ?n) = (msg_content m \<noteq> None)"
    using assms(2) by (auto simp: message_ok_def word_gt_0 split: option.splits)
  have c: "decodes src_ok stream
      (if 0 < ?n then sbind (des_read rd (unat ?n)) (\<lambda>b. sret (Some b)) else sret None) (msg_content m) ?c"
    using assms(2,3) decodes_sret
    by (auto simp: n message_ok_def split: option.splits intro!: decodes_sbind_sret [OF decodes_read])
  have m: "message_create (msg_type m) (msg_field1 m) (msg_field2 m) (msg_field3 m) ?n (msg_content m) = Inr m"
    using n by (cases m) (auto simp: message_create_def word_gt_0)
  let ?k = "\<lambda>ct. case message_create (msg_type m) (msg_field1 m) (msg_field2 m) (msg_field3 m) ?n ct
      of Inl e \<Rightarrow> sthrow e | Inr m \<Rightarrow> sret m"
  have "decodes src_ok stream (?k (msg_content m)) m []"
    unfolding m by (simp add: decodes_sret)
  with decodes_sbind [OF c, of ?k m "[]"] have "decodes src_ok stream
      (sbind (if 0 < ?n then sbind (des_read rd (unat ?n)) (\<lambda>b. sret (Some b)) else sret None) ?k) m ?c" by simp
  then show ?thesis unfolding message_deserialize_def enc_message_def enc_header_def append_assoc
    using assms(1) by (intro decodes_sbind [OF decodes_u16] decodes_sbind [OF decodes_u32]) auto
qed

end

section \<open>Properties\<close>

text \<open>C5: An IPC message written to a \<open>write_buffer\<close> and read back through a \<open>read_buffer\<close> over its
  content is the same message, and exactly the announced \<open>size()\<close> bytes are consumed.\<close>

theorem message_roundtrip:
  assumes "message_ok m" "cache_ok c" "wb_ok default_block_size default_max_write_buffer_size wb"
    and "wb_wr_pos wb + message_size m \<le> default_max_write_buffer_size"
  shows "\<exists>wb' rb' c'.
      message_serialize (wb_write default_block_size default_max_write_buffer_size) m wb = (Inr (), wb')
    \<and> message_deserialize rb_read (\<lparr>rb_rd_pos = wb_wr_pos wb, rb_buf = wb_content wb'\<rparr>, c) = (Inr m, (rb', c'))
    \<and> rb_available rb' = 0 \<and> wb_wr_pos wb' = wb_wr_pos wb + message_size m"
proof -
  have r: "length (enc_message m) \<le> default_max_write_buffer_size - wb_wr_pos wb"
    using assms(4) length_enc_message [OF assms(1)] by simp
  from encodesD [OF wbuf.encodes_message [OF assms(1)] assms(3) r] obtain wb' where
    wb': "message_serialize (wb_write default_block_size default_max_write_buffer_size) m wb = (Inr (), wb')"
    "wb_ok default_block_size default_max_write_buffer_size wb'"
    "wb_content wb' = wb_content wb @ enc_message m" by blast
  let ?rb = "\<lparr>rb_rd_pos = wb_wr_pos wb, rb_buf = wb_content wb'\<rparr>"
  have s: "rb_stream ?rb = enc_message m @ []"
    using length_wb_content [OF assms(3)] wb'(3) by (simp add: rb_stream_def)
  have "wb_wr_pos wb' = wb_wr_pos wb + message_size m"
    using length_wb_content [OF assms(3)] length_wb_content [OF wb'(2)] wb'(3) length_enc_message [OF assms(1)] by simp
  moreover have "decodes (\<lambda>_. True) rb_stream (message_deserialize rb_read) m (enc_message m)"
    using rbuf.decodes_message [of "max 4 (unat (msg_content_size m))" m] assms(1) by simp
  from decodesD [OF this _ assms(2) s] obtain rb' c' where "message_deserialize rb_read (?rb, c) = (Inr m, (rb', c'))"
    "rb_stream rb' = []" by metis
  ultimately show ?thesis using wb'(1) by (auto simp: rb_available_stream)
qed

theorem message_roundtrip_witness:
  "\<exists>wb' rb' c'.
      message_serialize (wb_write default_block_size default_max_write_buffer_size)
        (message_with async_send 1 2 3 ''hi'') new_write_buffer = (Inr (), wb')
    \<and> message_deserialize rb_read (new_read_buffer (wb_content wb'), []) = (Inr (message_with async_send 1 2 3 ''hi''), (rb', c'))
    \<and> wb_wr_pos wb' = 18"
proof -
  have "message_ok (message_with async_send 1 2 3 ''hi'')" by (simp add: message_ok_with)
  moreover have "cache_ok []" by (simp add: cache_ok_def)
  moreover have "message_size (message_with async_send 1 2 3 ''hi'') = 18"
    by (simp add: message_size_def header_size_def message_with_def)
  ultimately show ?thesis
    using message_roundtrip [of "message_with async_send 1 2 3 ''hi''" "[]" new_write_buffer] wb_ok_new
    by (auto simp: new_write_buffer_def new_read_buffer_def default_max_write_buffer_size_def)
qed

text \<open>Writing a received packet directly as an \<open>async_recv\<close> message, which computes the
  content size by hand, is byte for byte the serialization of the message whose content is
  the serialized packet.\<close>

theorem packet_message_framing:
  assumes "packet_ok pck" "wb_ok default_block_size default_max_write_buffer_size wb"
    and "length (enc_multicast_packet pck) < 2 ^ 32"
    and "wb_wr_pos wb + header_size + length (enc_multicast_packet pck) \<le> default_max_write_buffer_size"
  shows "\<exists>wb1 wb2. serialize_packet_message (wb_write default_block_size default_max_write_buffer_size) sid pck wb = (Inr (), wb1)
    \<and> message_serialize (wb_write default_block_size default_max_write_buffer_size)
        (message_with async_recv 0 sid 0 (enc_multicast_packet pck)) wb = (Inr (), wb2)
    \<and> wb_content wb1 = wb_content wb2"
proof -
  let ?m = "message_with async_recv 0 sid 0 (enc_multicast_packet pck)"
  have ok: "message_ok ?m" using assms(3) by (rule message_ok_with)
  have r: "length (enc_message ?m) \<le> default_max_write_buffer_size - wb_wr_pos wb"
    using assms(4) by (simp add: enc_message_with)
  from encodesD [OF wbuf.encodes_message [OF ok] assms(2) r] encodesD [OF wbuf.encodes_packet_message [OF assms(1)] assms(2) r]
  show ?thesis by metis
qed

theorem packet_message_framing_witness:
  "let pck = \<lparr>mp_source_uri = default_uri, mp_size = 1, mp_data = ''x''\<rparr> in
   \<exists>wb1 wb2. serialize_packet_message (wb_write default_block_size default_max_write_buffer_size) 7 pck new_write_buffer = (Inr (), wb1)
    \<and> message_serialize (wb_write default_block_size default_max_write_buffer_size)
        (message_with async_recv 0 7 0 (enc_multicast_packet pck)) new_write_buffer = (Inr (), wb2)
    \<and> wb_content wb1 = wb_content wb2"
proof -
  let ?p = "\<lparr>mp_source_uri = default_uri, mp_size = 1, mp_data = ''x''\<rparr>"
  have s: "str default_uri = []" using default_uri_iff [of default_uri] by (simp add: uri_is_empty_def)
  have "length (enc_multicast_packet ?p) = 9"
    by (simp add: enc_multicast_packet_def enc_uri_def enc_string_def s)
  then show ?thesis unfolding Let_def
    using packet_message_framing [of ?p new_write_buffer 7] wb_ok_new
    by (simp add: packet_ok_def string_ok_def s new_write_buffer_def header_size_def default_max_write_buffer_size_def)
qed

text \<open>Two messages with the same fields and the same content bytes compare equal only when
  the contents are the same array: \<open>message::compare\<close> ends on the content pointer.\<close>

theorem message_compare_pointer:
  "message_compare a m b m = 0 \<longleftrightarrow> a = b"
  by (simp add: message_compare_def)

end
