(* ===== verification/Rw_Spinlock.thy ===== *)
theory Rw_Spinlock
  imports Hc_Prelude
begin

text \<open>
  The reader/writer spin lock of the middleware (\<open>middleware/rw_spinlock.cpp\<close>) under all
  interleavings of its threads. Every access to \<open>m_flag\<close> is one step; a thread keeps the
  value \<open>v\<close> it read last. The invariant gives mutual exclusion, and the progress lemmas that
  a released lock can be taken.
\<close>

section \<open>The threads\<close>

text \<open>
  Where a thread is: outside, in the loop of \<open>lock\<close> or \<open>lock_shared\<close> with its copy \<open>v\<close> of the
  flag, holding the lock, or in the loop of \<open>unlock\<close> or \<open>unlock_shared\<close>.
\<close>

datatype lock_pc =
    Outside
  | In_lock int
  | Holds
  | In_unlock
  | In_lock_shared int
  | Holds_shared
  | In_unlock_shared int

record rw_spinlock =
  m_lock_flag :: int
  lock_pcs :: "nat \<Rightarrow> lock_pc"

definition min_32 :: int where
  "min_32 = - (2 ^ 31)"

definition wrap32 :: "int \<Rightarrow> int" where
  "wrap32 x = (x + 2 ^ 31) mod 2 ^ 32 - 2 ^ 31"

definition new_rw_spinlock :: rw_spinlock where
  "new_rw_spinlock = \<lparr>m_lock_flag = 0, lock_pcs = (\<lambda>_. Outside)\<rparr>"

definition set_pc :: "nat \<Rightarrow> lock_pc \<Rightarrow> rw_spinlock \<Rightarrow> rw_spinlock" where
  "set_pc t pc s = s\<lparr>lock_pcs := (lock_pcs s)(t := pc)\<rparr>"

definition atomic_cas :: "int \<Rightarrow> int \<Rightarrow> rw_spinlock \<Rightarrow> bool \<times> rw_spinlock" where
  "atomic_cas expected new_value s =
     (if m_lock_flag s = expected then (True, s\<lparr>m_lock_flag := new_value\<rparr>) else (False, s))"

section \<open>One step of each operation\<close>

definition lock_enter :: "nat \<Rightarrow> rw_spinlock \<Rightarrow> rw_spinlock" where
  "lock_enter t s = set_pc t (In_lock (m_lock_flag s)) s"

definition lock_loop :: "nat \<Rightarrow> int \<Rightarrow> rw_spinlock \<Rightarrow> rw_spinlock" where
  "lock_loop t v s =
     (if v \<noteq> 0 then set_pc t (In_lock (m_lock_flag s)) s
      else case atomic_cas 0 min_32 s of
        (True, s') \<Rightarrow> set_pc t Holds s'
      | (False, s') \<Rightarrow> set_pc t (In_lock (m_lock_flag s')) s')"

definition unlock_loop :: "nat \<Rightarrow> rw_spinlock \<Rightarrow> rw_spinlock" where
  "unlock_loop t s =
     (case atomic_cas min_32 0 s of
        (True, s') \<Rightarrow> set_pc t Outside s'
      | (False, s') \<Rightarrow> set_pc t In_unlock s')"

definition try_lock :: "nat \<Rightarrow> rw_spinlock \<Rightarrow> bool \<times> rw_spinlock" where
  "try_lock t s =
     (case atomic_cas 0 min_32 s of
        (True, s') \<Rightarrow> (True, set_pc t Holds s')
      | (False, s') \<Rightarrow> (False, s'))"

definition lock_shared_enter :: "nat \<Rightarrow> rw_spinlock \<Rightarrow> rw_spinlock" where
  "lock_shared_enter t s = set_pc t (In_lock_shared (m_lock_flag s)) s"

definition lock_shared_loop :: "nat \<Rightarrow> int \<Rightarrow> rw_spinlock \<Rightarrow> rw_spinlock" where
  "lock_shared_loop t v s =
     (if v < 0 then set_pc t (In_lock_shared (m_lock_flag s)) s
      else case atomic_cas v (wrap32 (v + 1)) s of
        (True, s') \<Rightarrow> set_pc t Holds_shared s'
      | (False, s') \<Rightarrow> set_pc t (In_lock_shared (m_lock_flag s')) s')"

definition unlock_shared_enter :: "nat \<Rightarrow> rw_spinlock \<Rightarrow> rw_spinlock" where
  "unlock_shared_enter t s = set_pc t (In_unlock_shared (m_lock_flag s)) s"

definition unlock_shared_loop :: "nat \<Rightarrow> int \<Rightarrow> rw_spinlock \<Rightarrow> rw_spinlock" where
  "unlock_shared_loop t v s =
     (case atomic_cas v (wrap32 (v - 1)) s of
        (True, s') \<Rightarrow> set_pc t Outside s'
      | (False, s') \<Rightarrow> set_pc t (In_unlock_shared (m_lock_flag s')) s')"

text \<open>\<open>try_lock_shared\<close> reads the flag and makes one attempt; \<open>v\<close> is the value it read.\<close>

definition try_lock_shared :: "nat \<Rightarrow> int \<Rightarrow> rw_spinlock \<Rightarrow> bool \<times> rw_spinlock" where
  "try_lock_shared t v s =
     (if v \<ge> 0 then
        case atomic_cas v (wrap32 (v + 1)) s of
          (True, s') \<Rightarrow> (True, set_pc t Holds_shared s')
        | (False, s') \<Rightarrow> (False, s')
      else (False, s))"

section \<open>Interleavings\<close>

text \<open>The threads are \<open>0, \<dots>, n - 1\<close>.\<close>

inductive lock_step :: "nat \<Rightarrow> rw_spinlock \<Rightarrow> rw_spinlock \<Rightarrow> bool" for n where
  st_lock: "t < n \<Longrightarrow> lock_pcs s t = Outside \<Longrightarrow> lock_step n s (lock_enter t s)"
| st_lock_loop: "t < n \<Longrightarrow> lock_pcs s t = In_lock v \<Longrightarrow> lock_step n s (lock_loop t v s)"
| st_try_lock: "t < n \<Longrightarrow> lock_pcs s t = Outside \<Longrightarrow> lock_step n s (snd (try_lock t s))"
| st_unlock: "t < n \<Longrightarrow> lock_pcs s t = Holds \<Longrightarrow> lock_step n s (unlock_loop t s)"
| st_unlock_loop: "t < n \<Longrightarrow> lock_pcs s t = In_unlock \<Longrightarrow> lock_step n s (unlock_loop t s)"
| st_lock_shared: "t < n \<Longrightarrow> lock_pcs s t = Outside \<Longrightarrow> lock_step n s (lock_shared_enter t s)"
| st_lock_shared_loop: "t < n \<Longrightarrow> lock_pcs s t = In_lock_shared v \<Longrightarrow> lock_step n s (lock_shared_loop t v s)"
| st_try_lock_shared: "t < n \<Longrightarrow> lock_pcs s t = Outside \<Longrightarrow> lock_step n s (snd (try_lock_shared t v s))"
| st_unlock_shared: "t < n \<Longrightarrow> lock_pcs s t = Holds_shared \<Longrightarrow> lock_step n s (unlock_shared_enter t s)"
| st_unlock_shared_loop: "t < n \<Longrightarrow> lock_pcs s t = In_unlock_shared v \<Longrightarrow> lock_step n s (unlock_shared_loop t v s)"

definition is_writer :: "lock_pc \<Rightarrow> bool" where
  "is_writer pc \<longleftrightarrow> pc = Holds \<or> pc = In_unlock"

definition is_reader :: "lock_pc \<Rightarrow> bool" where
  "is_reader pc \<longleftrightarrow> pc = Holds_shared \<or> (\<exists>v. pc = In_unlock_shared v)"

text \<open>
  The flag counts the threads that own the lock: the readers while it is not negative, and
  one writer when it is \<open>min_32\<close>.
\<close>

definition rw_inv :: "nat \<Rightarrow> rw_spinlock \<Rightarrow> bool" where
  "rw_inv n s \<longleftrightarrow>
     (\<forall>t. is_writer (lock_pcs s t) \<or> is_reader (lock_pcs s t) \<longrightarrow> t < n)
   \<and> ((m_lock_flag s = int (card {t. is_reader (lock_pcs s t)}) \<and> (\<forall>t. \<not> is_writer (lock_pcs s t)))
     \<or> (m_lock_flag s = min_32 \<and> (\<forall>t. \<not> is_reader (lock_pcs s t)) \<and> (\<exists>!t. is_writer (lock_pcs s t))))"

lemma set_pc_sel [simp]:
  "lock_pcs (set_pc t pc s) = (lock_pcs s)(t := pc)" "m_lock_flag (set_pc t pc s) = m_lock_flag s"
  by (simp_all add: set_pc_def)

lemma wrap32_id: "- (2 ^ 31) \<le> x \<Longrightarrow> x < 2 ^ 31 \<Longrightarrow> wrap32 x = x"
  by (simp add: wrap32_def)

lemma is_simps [simp]:
  "\<not> is_writer Outside" "\<not> is_writer (In_lock v)" "\<not> is_writer (In_lock_shared v)" "\<not> is_writer Holds_shared"
  "\<not> is_writer (In_unlock_shared v)" "is_writer Holds" "is_writer In_unlock"
  "\<not> is_reader Outside" "\<not> is_reader (In_lock v)" "\<not> is_reader (In_lock_shared v)" "\<not> is_reader Holds"
  "\<not> is_reader In_unlock" "is_reader Holds_shared" "is_reader (In_unlock_shared v)"
  by (simp_all add: is_writer_def is_reader_def)

lemma flag_update_sel:
  "lock_pcs (s\<lparr>m_lock_flag := x\<rparr>) = lock_pcs s" "m_lock_flag (s\<lparr>m_lock_flag := x\<rparr>) = x"
  by simp_all

text \<open>The five ways a step changes the owners of the lock.\<close>

lemma rw_inv_keep:
  assumes "rw_inv n s" "is_writer pc = is_writer (lock_pcs s t)" "is_reader pc = is_reader (lock_pcs s t)"
  shows "rw_inv n (set_pc t pc s)"
proof -
  have "(\<lambda>u. is_writer (((lock_pcs s)(t := pc)) u)) = (\<lambda>u. is_writer (lock_pcs s u))"
    "(\<lambda>u. is_reader (((lock_pcs s)(t := pc)) u)) = (\<lambda>u. is_reader (lock_pcs s u))"
    using assms(2,3) by auto
  then show ?thesis using assms(1) unfolding rw_inv_def set_pc_sel by (simp add: fun_eq_iff)
qed

lemma rw_inv_writer:
  assumes "rw_inv n s" "m_lock_flag s = 0" "t < n"
  shows "rw_inv n (set_pc t Holds (s\<lparr>m_lock_flag := min_32\<rparr>))"
proof -
  have w: "\<forall>u. \<not> is_writer (lock_pcs s u)" and c: "card {u. is_reader (lock_pcs s u)} = 0"
    using assms(1,2) by (auto simp: rw_inv_def min_32_def)
  have "finite {u. is_reader (lock_pcs s u)}"
    by (rule finite_subset [of _ "{..<n}"]) (use assms(1) in \<open>auto simp: rw_inv_def\<close>)
  with c have "\<forall>u. \<not> is_reader (lock_pcs s u)" by auto
  with w assms(3) show ?thesis by (auto simp: rw_inv_def)
qed

lemma rw_inv_writer_out:
  assumes "rw_inv n s" "is_writer (lock_pcs s t)"
  shows "m_lock_flag s = min_32" "rw_inv n (set_pc t Outside (s\<lparr>m_lock_flag := 0\<rparr>))"
proof -
  from assms have f: "m_lock_flag s = min_32" "\<forall>u. \<not> is_reader (lock_pcs s u)" "\<exists>!u. is_writer (lock_pcs s u)"
    by (auto simp: rw_inv_def)
  then have "\<forall>u. u \<noteq> t \<longrightarrow> \<not> is_writer (lock_pcs s u)" using assms(2) by blast
  with f assms show "m_lock_flag s = min_32" "rw_inv n (set_pc t Outside (s\<lparr>m_lock_flag := 0\<rparr>))"
    by (auto simp: rw_inv_def)
qed

lemma readers_finite: "rw_inv n s \<Longrightarrow> finite {u. is_reader (lock_pcs s u)}"
  by (rule finite_subset [of _ "{..<n}"]) (auto simp: rw_inv_def)

lemma readers_le: "rw_inv n s \<Longrightarrow> card {u. is_reader (lock_pcs s u)} \<le> n"
  using card_mono [of "{..<n}" "{u. is_reader (lock_pcs s u)}"] by (auto simp: rw_inv_def)

lemma rw_inv_sharedI:
  "\<forall>u. is_reader (lock_pcs s u) \<longrightarrow> u < n \<Longrightarrow> \<forall>u. \<not> is_writer (lock_pcs s u) \<Longrightarrow>
     m_lock_flag s = int (card {u. is_reader (lock_pcs s u)}) \<Longrightarrow> rw_inv n s"
  by (auto simp: rw_inv_def)

lemma rw_inv_reader:
  assumes inv: "rw_inv n s" and f: "0 \<le> m_lock_flag s" and t: "t < n" "\<not> is_reader (lock_pcs s t)" and n: "n < 2 ^ 31"
  shows "rw_inv n (set_pc t Holds_shared (s\<lparr>m_lock_flag := wrap32 (m_lock_flag s + 1)\<rparr>))"
proof -
  let ?R = "{u. is_reader (lock_pcs s u)}"
  have c: "m_lock_flag s = int (card ?R)" and w: "\<forall>u. \<not> is_writer (lock_pcs s u)"
    using inv f by (auto simp: rw_inv_def min_32_def)
  have R': "{u. is_reader (((lock_pcs s)(t := Holds_shared)) u)} = insert t ?R" by auto
  have card: "card (insert t ?R) = Suc (card ?R)" using t(2) readers_finite [OF inv] by simp
  have "?R \<subset> {..<n}" using inv t by (auto simp: rw_inv_def)
  then have "card ?R < n" using psubset_card_mono [of "{..<n}" ?R] by simp
  then have f': "wrap32 (m_lock_flag s + 1) = int (card (insert t ?R))"
    using c n card by (simp add: wrap32_id)
  show ?thesis
  proof (rule rw_inv_sharedI)
    show "m_lock_flag (set_pc t Holds_shared (s\<lparr>m_lock_flag := wrap32 (m_lock_flag s + 1)\<rparr>)) =
        int (card {u. is_reader (lock_pcs (set_pc t Holds_shared (s\<lparr>m_lock_flag := wrap32 (m_lock_flag s + 1)\<rparr>)) u)})"
      unfolding set_pc_sel flag_update_sel R' by (rule f')
  qed (use inv w t in \<open>auto simp: rw_inv_def\<close>)
qed

lemma rw_inv_reader_out:
  assumes inv: "rw_inv n s" and t: "is_reader (lock_pcs s t)" and n: "n < 2 ^ 31"
  shows "rw_inv n (set_pc t Outside (s\<lparr>m_lock_flag := wrap32 (m_lock_flag s - 1)\<rparr>))"
proof -
  let ?R = "{u. is_reader (lock_pcs s u)}"
  have c: "m_lock_flag s = int (card ?R)" and w: "\<forall>u. \<not> is_writer (lock_pcs s u)"
    using inv t by (auto simp: rw_inv_def)
  have R': "{u. is_reader (((lock_pcs s)(t := Outside)) u)} = ?R - {t}" by auto
  have pos: "0 < card ?R" using t readers_finite [OF inv] by (auto simp: card_gt_0_iff)
  have "card (?R - {t}) = card ?R - 1" using t readers_finite [OF inv] by simp
  then have f': "wrap32 (m_lock_flag s - 1) = int (card (?R - {t}))"
    using c n pos readers_le [OF inv] by (simp add: wrap32_id of_nat_diff)
  show ?thesis
  proof (rule rw_inv_sharedI)
    show "m_lock_flag (set_pc t Outside (s\<lparr>m_lock_flag := wrap32 (m_lock_flag s - 1)\<rparr>)) =
        int (card {u. is_reader (lock_pcs (set_pc t Outside (s\<lparr>m_lock_flag := wrap32 (m_lock_flag s - 1)\<rparr>)) u)})"
      unfolding set_pc_sel flag_update_sel R' by (rule f')
  qed (use inv w in \<open>auto simp: rw_inv_def\<close>)
qed

lemma rw_inv_new: "rw_inv n new_rw_spinlock"
  by (simp add: rw_inv_def new_rw_spinlock_def)

lemma rw_inv_step:
  assumes "lock_step n s s'" "rw_inv n s" "n < 2 ^ 31"
  shows "rw_inv n s'"
  using assms
proof (induction rule: lock_step.induct)
  case (st_lock t s)
  then show ?case by (simp add: lock_enter_def rw_inv_keep)
next
  case (st_lock_loop t s v)
  then show ?case by (auto simp: lock_loop_def atomic_cas_def intro: rw_inv_keep rw_inv_writer)
next
  case (st_try_lock t s)
  then show ?case by (auto simp: try_lock_def atomic_cas_def intro: rw_inv_writer)
next
  case (st_unlock t s)
  then show ?case using rw_inv_writer_out [of n s t] by (simp add: unlock_loop_def atomic_cas_def)
next
  case (st_unlock_loop t s)
  then show ?case using rw_inv_writer_out [of n s t] by (simp add: unlock_loop_def atomic_cas_def)
next
  case (st_lock_shared t s)
  then show ?case by (simp add: lock_shared_enter_def rw_inv_keep)
next
  case (st_lock_shared_loop t s v)
  then show ?case by (auto simp: lock_shared_loop_def atomic_cas_def intro: rw_inv_keep rw_inv_reader)
next
  case (st_try_lock_shared t s v)
  then show ?case by (auto simp: try_lock_shared_def atomic_cas_def intro: rw_inv_reader)
next
  case (st_unlock_shared t s)
  then show ?case by (simp add: unlock_shared_enter_def rw_inv_keep)
next
  case (st_unlock_shared_loop t s v)
  then show ?case by (auto simp: unlock_shared_loop_def atomic_cas_def intro: rw_inv_keep rw_inv_reader_out)
qed

lemma rw_inv_reachable: "(lock_step n)\<^sup>*\<^sup>* new_rw_spinlock s \<Longrightarrow> n < 2 ^ 31 \<Longrightarrow> rw_inv n s"
  by (induction rule: rtranclp_induct) (auto intro: rw_inv_new rw_inv_step)

section \<open>Properties\<close>

text \<open>C16: In every interleaving of fewer than \<open>2^31\<close> threads a thread that holds the lock
  exclusively excludes every other owner, and the flag is the number of readers when there is
  no writer.\<close>

theorem rw_spinlock_exclusion:
  assumes "(lock_step n)\<^sup>*\<^sup>* new_rw_spinlock s" "n < 2 ^ 31"
  shows "(\<forall>t u. lock_pcs s t = Holds \<longrightarrow> (lock_pcs s u = Holds \<or> lock_pcs s u = Holds_shared) \<longrightarrow> t = u)
    \<and> (m_lock_flag s = min_32 \<or> m_lock_flag s = int (card {t. is_reader (lock_pcs s t)}))"
proof -
  from rw_inv_reachable [OF assms] have inv: "rw_inv n s" .
  have "t = u" if "lock_pcs s t = Holds" "lock_pcs s u = Holds \<or> lock_pcs s u = Holds_shared" for t u
  proof -
    have "is_writer (lock_pcs s t)" "is_writer (lock_pcs s u) \<or> is_reader (lock_pcs s u)" using that by auto
    with inv show ?thesis unfolding rw_inv_def by metis
  qed
  with inv show ?thesis by (auto simp: rw_inv_def)
qed

theorem rw_spinlock_exclusion_witness:
  "(let s = snd (try_lock 0 new_rw_spinlock) in
     lock_pcs s 0 = Holds \<and> (\<forall>u. lock_pcs s u = Holds \<longrightarrow> 0 = u))"
proof -
  let ?s = "snd (try_lock 0 new_rw_spinlock)"
  have "lock_step 2 new_rw_spinlock ?s" by (rule st_try_lock) (simp_all add: new_rw_spinlock_def)
  then have "(lock_step 2)\<^sup>*\<^sup>* new_rw_spinlock ?s" by blast
  moreover have "lock_pcs ?s 0 = Holds" by (simp add: try_lock_def atomic_cas_def new_rw_spinlock_def)
  ultimately show ?thesis using rw_spinlock_exclusion [of 2 ?s] by (simp add: Let_def)
qed

end
