(* ===== verification/Uri_Mappings.thy ===== *)
theory Uri_Mappings
  imports Uri Std_Map
begin

text \<open>
  The two-way table of group names (\<open>libhamcast/hamcast/util/uri_mappings.hpp\<close>) that a
  technology module keeps between HAMcast uris and the names of its technology. Every member
  function runs under the table's mutex, so each is one operation on the two maps. The
  invariant is that the maps are inverse to each other.
\<close>

record uri_mappings =
  m_forward_map :: "(uri, uri) smap"
  m_reverse_map :: "(uri, uri) smap"

definition new_uri_mappings :: uri_mappings where
  "new_uri_mappings = \<lparr>m_forward_map = [], m_reverse_map = []\<rparr>"

definition um_lookup :: "(uri, uri) smap \<Rightarrow> uri \<Rightarrow> uri" where
  "um_lookup m what = (case map_of m what of Some u \<Rightarrow> u | None \<Rightarrow> default_uri)"

definition um_erase ::
  "uri \<Rightarrow> (uri, uri) smap \<Rightarrow> (uri, uri) smap \<Rightarrow> (uri, uri) smap \<times> (uri, uri) smap" where
  "um_erase what m1 m2 =
     (case map_of m1 what of None \<Rightarrow> (m1, m2) | Some u \<Rightarrow> (sm_erase what m1, sm_erase u m2))"

definition forward_lookup :: "uri \<Rightarrow> uri_mappings \<Rightarrow> uri" where
  "forward_lookup what um = um_lookup (m_forward_map um) what"

definition reverse_lookup :: "uri \<Rightarrow> uri_mappings \<Rightarrow> uri" where
  "reverse_lookup what um = um_lookup (m_reverse_map um) what"

text \<open>The lookup that asks the mapping functor \<open>mf\<close>, which may throw, for a new name.\<close>

definition forward_lookup_with :: "(uri \<Rightarrow> uri res) \<Rightarrow> uri \<Rightarrow> (uri_mappings, uri) op" where
  "forward_lookup_with mf what um =
     (case map_of (m_forward_map um) what of
        Some u \<Rightarrow> (Inr u, um)
      | None \<Rightarrow>
          (case mf what of
             Inl e \<Rightarrow> (Inl e, um)
           | Inr mapped \<Rightarrow>
               if uri_is_empty mapped then (Inl (Requirement_failed ''!mapped.empty()''), um)
               else if map_of (m_reverse_map um) mapped \<noteq> None
               then (Inl (Requirement_failed ''m_reverse_map.count(mapped) == 0''), um)
               else (Inr mapped, um\<lparr>m_forward_map := sm_insert what mapped (m_forward_map um),
                                    m_reverse_map := sm_insert mapped what (m_reverse_map um)\<rparr>)))"

definition um_empty :: "uri_mappings \<Rightarrow> bool" where
  "um_empty um \<longleftrightarrow> m_forward_map um = []"

definition um_clear :: "uri_mappings \<Rightarrow> uri_mappings" where
  "um_clear um = um\<lparr>m_forward_map := [], m_reverse_map := []\<rparr>"

definition forward_erase :: "uri \<Rightarrow> uri_mappings \<Rightarrow> uri_mappings" where
  "forward_erase what um =
     (case um_erase what (m_forward_map um) (m_reverse_map um) of
        (f, r) \<Rightarrow> um\<lparr>m_forward_map := f, m_reverse_map := r\<rparr>)"

definition reverse_erase :: "uri \<Rightarrow> uri_mappings \<Rightarrow> uri_mappings" where
  "reverse_erase what um =
     (case um_erase what (m_reverse_map um) (m_forward_map um) of
        (r, f) \<Rightarrow> um\<lparr>m_forward_map := f, m_reverse_map := r\<rparr>)"

definition um_insert :: "uri \<Rightarrow> uri \<Rightarrow> (uri_mappings, unit) op" where
  "um_insert original mapped um =
     (if \<not> (\<not> uri_is_empty original \<and> \<not> uri_is_empty mapped)
      then (Inl (Requirement_failed ''!original.empty() && !mapped.empty()''), um)
      else if map_of (m_forward_map um) original \<noteq> None
      then (Inl (Requirement_failed ''m_forward_map.count(original) == 0''), um)
      else if map_of (m_reverse_map um) mapped \<noteq> None
      then (Inl (Requirement_failed ''m_reverse_map.count(mapped) == 0''), um)
      else (Inr (), um\<lparr>m_forward_map := sm_insert original mapped (m_forward_map um),
                       m_reverse_map := sm_insert mapped original (m_reverse_map um)\<rparr>))"

section \<open>The invariant\<close>

definition um_ok :: "uri_mappings \<Rightarrow> bool" where
  "um_ok um \<longleftrightarrow> sm_ok (m_forward_map um) \<and> sm_ok (m_reverse_map um)
     \<and> (\<forall>u v. map_of (m_forward_map um) u = Some v \<longleftrightarrow> map_of (m_reverse_map um) v = Some u)
     \<and> (\<forall>u v. map_of (m_forward_map um) u = Some v \<longrightarrow> v \<noteq> default_uri)"

lemma um_ok_new [simp]: "um_ok new_uri_mappings"
  by (simp add: um_ok_def new_uri_mappings_def)

lemma um_ok_clear [simp]: "um_ok (um_clear um)"
  by (simp add: um_ok_def um_clear_def)

lemma um_ok_add:
  assumes "um_ok um" "map_of (m_forward_map um) u = None" "map_of (m_reverse_map um) v = None" "v \<noteq> default_uri"
  shows "um_ok (um\<lparr>m_forward_map := sm_insert u v (m_forward_map um), m_reverse_map := sm_insert v u (m_reverse_map um)\<rparr>)"
  using assms by (auto simp: um_ok_def) (metis option.distinct(1))+

lemma forward_lookup_with_ok:
  assumes "um_ok um" "forward_lookup_with mf what um = (r, um')"
  shows "um_ok um' \<and> (case r of Inl e \<Rightarrow> um' = um | Inr v \<Rightarrow> map_of (m_forward_map um') what = Some v)"
  using assms um_ok_add [of um what]
  by (auto simp: forward_lookup_with_def default_uri_iff um_ok_def split: option.splits sum.splits if_splits)

lemma um_insert_ok:
  assumes "um_ok um" "um_insert u v um = (r, um')"
  shows "um_ok um' \<and> (case r of Inl e \<Rightarrow> um' = um | Inr _ \<Rightarrow> map_of (m_forward_map um') u = Some v)"
  using assms um_ok_add [of um u v]
  by (auto simp: um_insert_def default_uri_iff um_ok_def split: if_splits)

lemma forward_erase_ok: "um_ok um \<Longrightarrow> um_ok (forward_erase u um) \<and> map_of (m_forward_map (forward_erase u um)) u = None"
  by (auto simp: um_ok_def forward_erase_def um_erase_def split: option.splits) (metis option.inject)+

lemma reverse_erase_ok: "um_ok um \<Longrightarrow> um_ok (reverse_erase u um) \<and> map_of (m_reverse_map (reverse_erase u um)) u = None"
  by (auto simp: um_ok_def reverse_erase_def um_erase_def split: option.splits) (metis option.inject)+

section \<open>Properties\<close>



end
