(* ===== verification/Single_Reader_Queue.thy ===== *)
theory Single_Reader_Queue
  imports Hc_Prelude
begin

text \<open>
  The lock-free queue of the library (\<open>libhamcast/hamcast/util/single_reader_queue.hpp\<close>):
  many writers push on a shared LIFO stack, the one reader takes the whole stack at once and
  reverses it into its private FIFO cache. The model is the shared memory: \<open>next\<close> pointers of
  the elements, \<open>m_stack\<close>, \<open>m_cache\<close>, the mutex and the condition variable, with one step for
  every access that other threads can see. The refinement shows that every interleaving is a
  FIFO queue, and that a sleeping reader is woken.
\<close>

section \<open>State\<close>

text \<open>
  Addresses are natural numbers and \<open>0\<close> is the null pointer. A writer carries the list of the
  elements \<open>[head, tail]\<close> it is pushing; \<open>sq_owned\<close> is the set of elements that have been
  handed to the queue and not been returned, which the code does not store.
\<close>

datatype push_pc =
    P_idle
  | P_read bool "nat list"
  | P_cas bool "nat list" nat
  | P_want "nat list"
  | P_cas0 "nat list"

datatype take_kind = Pop | Try_pop | Timed_pop | Front

datatype read_pc =
    R_idle
  | R_want take_kind
  | R_locked take_kind
  | R_sleep take_kind
  | R_wake take_kind
  | R_take take_kind
  | R_read take_kind
  | R_cas take_kind nat
  | R_rev take_kind nat
  | R_head take_kind

datatype mutex_owner = Nobody | Writer nat | Reader

record srq =
  sq_next :: "nat \<Rightarrow> nat"
  sq_stack :: nat
  sq_cache :: nat
  sq_mutex :: mutex_owner
  sq_pushers :: "nat \<Rightarrow> push_pc"
  sq_reader :: read_pc
  sq_owned :: "nat set"

definition new_srq :: srq where
  "new_srq = \<lparr>sq_next = (\<lambda>_. 0), sq_stack = 0, sq_cache = 0, sq_mutex = Nobody,
              sq_pushers = (\<lambda>_. P_idle), sq_reader = R_idle, sq_owned = {}\<rparr>"

section \<open>The writers\<close>

text \<open>
  \<open>push\<close> and \<open>unsafe_push\<close> (the flag of the program counter is true for \<open>push\<close>): read
  \<open>m_stack\<close> and link the tail to it, then compare-and-swap. \<open>push\<close> on an empty stack takes the
  mutex first and notifies the reader.
\<close>

definition push_read :: "nat \<Rightarrow> bool \<Rightarrow> nat list \<Rightarrow> srq \<Rightarrow> srq" where
  "push_read t sg zs s =
     (let e = sq_stack s in
      s\<lparr>sq_next := (sq_next s)(last zs := e),
        sq_pushers := (sq_pushers s)(t := if sg \<and> e = 0 then P_want zs else P_cas sg zs e)\<rparr>)"

definition push_cas :: "nat \<Rightarrow> bool \<Rightarrow> nat list \<Rightarrow> nat \<Rightarrow> srq \<Rightarrow> srq" where
  "push_cas t sg zs e s =
     (if sq_stack s = e
      then s\<lparr>sq_stack := hd zs, sq_pushers := (sq_pushers s)(t := P_idle)\<rparr>
      else s\<lparr>sq_pushers := (sq_pushers s)(t := P_read sg zs)\<rparr>)"

definition push_lock :: "nat \<Rightarrow> nat list \<Rightarrow> srq \<Rightarrow> srq" where
  "push_lock t zs s = s\<lparr>sq_pushers := (sq_pushers s)(t := P_cas0 zs), sq_mutex := Writer t\<rparr>"

definition notify_one :: "read_pc \<Rightarrow> read_pc" where
  "notify_one r = (case r of R_sleep k \<Rightarrow> R_wake k | _ \<Rightarrow> r)"

definition push_cas0 :: "nat \<Rightarrow> nat list \<Rightarrow> srq \<Rightarrow> srq" where
  "push_cas0 t zs s =
     (if sq_stack s = 0
      then s\<lparr>sq_stack := hd zs, sq_pushers := (sq_pushers s)(t := P_idle),
             sq_reader := notify_one (sq_reader s), sq_mutex := Nobody\<rparr>
      else s\<lparr>sq_pushers := (sq_pushers s)(t := P_read True zs), sq_mutex := Nobody\<rparr>)"

section \<open>The reader\<close>

text \<open>
  \<open>wait_for_data\<close>: without a cache and without a stack, take the mutex and sleep until the
  stack is not null.
\<close>

definition wait_check :: "take_kind \<Rightarrow> srq \<Rightarrow> srq" where
  "wait_check k s =
     (if sq_cache s = 0 \<and> sq_stack s = 0 then s\<lparr>sq_reader := R_want k\<rparr> else s\<lparr>sq_reader := R_take k\<rparr>)"

definition wait_lock :: "take_kind \<Rightarrow> srq \<Rightarrow> srq" where
  "wait_lock k s = s\<lparr>sq_mutex := Reader, sq_reader := R_locked k\<rparr>"

definition wait_loop :: "take_kind \<Rightarrow> srq \<Rightarrow> srq" where
  "wait_loop k s =
     s\<lparr>sq_mutex := Nobody, sq_reader := (if sq_stack s = 0 then R_sleep k else R_take k)\<rparr>"

text \<open>\<open>take_head\<close>, \<open>front\<close> and \<open>take_public_tail\<close>.\<close>

definition take_start :: "take_kind \<Rightarrow> srq \<Rightarrow> srq" where
  "take_start k s = s\<lparr>sq_reader := (if sq_cache s \<noteq> 0 then R_head k else R_read k)\<rparr>"

definition take_read :: "take_kind \<Rightarrow> srq \<Rightarrow> srq" where
  "take_read k s = s\<lparr>sq_reader := (if sq_stack s = 0 then R_idle else R_cas k (sq_stack s))\<rparr>"

definition take_cas :: "take_kind \<Rightarrow> nat \<Rightarrow> srq \<Rightarrow> srq" where
  "take_cas k e s =
     (if sq_stack s = e then s\<lparr>sq_stack := 0, sq_reader := R_rev k e\<rparr> else s\<lparr>sq_reader := R_read k\<rparr>)"

definition take_rev :: "take_kind \<Rightarrow> nat \<Rightarrow> srq \<Rightarrow> srq" where
  "take_rev k e s =
     (if e \<noteq> 0 then s\<lparr>sq_next := (sq_next s)(e := sq_cache s), sq_cache := e, sq_reader := R_rev k (sq_next s e)\<rparr>
      else s\<lparr>sq_reader := R_head k\<rparr>)"

definition take_result :: "take_kind \<Rightarrow> srq \<Rightarrow> srq" where
  "take_result k s =
     (if k = Front then s\<lparr>sq_reader := R_idle\<rparr>
      else s\<lparr>sq_cache := sq_next s (sq_cache s), sq_reader := R_idle, sq_owned := sq_owned s - {sq_cache s}\<rparr>)"

section \<open>Interleavings\<close>

datatype sq_event = E_tau | E_push "nat list" | E_pop nat | E_front nat | E_null take_kind | E_timeout

text \<open>The elements of a list that is about to be pushed are linked from head to tail.\<close>

fun seg :: "(nat \<Rightarrow> nat) \<Rightarrow> nat list \<Rightarrow> bool" where
  "seg nx [] \<longleftrightarrow> True"
| "seg nx [x] \<longleftrightarrow> True"
| "seg nx (x # y # zs) \<longleftrightarrow> nx x = y \<and> seg nx (y # zs)"

text \<open>
  The argument \<open>u\<close> says whether \<open>unsafe_push\<close> is used. Clients write the \<open>next\<close> pointers of
  elements they own, and push only elements they own.
\<close>

inductive srq_step :: "bool \<Rightarrow> sq_event \<Rightarrow> srq \<Rightarrow> srq \<Rightarrow> bool" for u where
  s_client: "x \<notin> sq_owned s \<Longrightarrow> srq_step u E_tau s (s\<lparr>sq_next := (sq_next s)(x := v)\<rparr>)"
| s_push: "sq_pushers s t = P_idle \<Longrightarrow> zs \<noteq> [] \<Longrightarrow> distinct zs \<Longrightarrow> 0 \<notin> set zs \<Longrightarrow>
    set zs \<inter> sq_owned s = {} \<Longrightarrow> seg (sq_next s) zs \<Longrightarrow> sg \<or> u \<Longrightarrow>
    srq_step u E_tau s (s\<lparr>sq_pushers := (sq_pushers s)(t := P_read sg zs), sq_owned := sq_owned s \<union> set zs\<rparr>)"
| s_push_read: "sq_pushers s t = P_read sg zs \<Longrightarrow> srq_step u E_tau s (push_read t sg zs s)"
| s_push_cas: "sq_pushers s t = P_cas sg zs e \<Longrightarrow>
    srq_step u (if sq_stack s = e then E_push zs else E_tau) s (push_cas t sg zs e s)"
| s_push_lock: "sq_pushers s t = P_want zs \<Longrightarrow> sq_mutex s = Nobody \<Longrightarrow> srq_step u E_tau s (push_lock t zs s)"
| s_push_cas0: "sq_pushers s t = P_cas0 zs \<Longrightarrow>
    srq_step u (if sq_stack s = 0 then E_push zs else E_tau) s (push_cas0 t zs s)"
| s_wait: "sq_reader s = R_idle \<Longrightarrow> k = Pop \<or> k = Timed_pop \<Longrightarrow> srq_step u E_tau s (wait_check k s)"
| s_nowait: "sq_reader s = R_idle \<Longrightarrow> k = Try_pop \<or> k = Front \<Longrightarrow> srq_step u E_tau s (s\<lparr>sq_reader := R_take k\<rparr>)"
| s_wait_lock: "sq_reader s = R_want k \<or> sq_reader s = R_wake k \<Longrightarrow> sq_mutex s = Nobody \<Longrightarrow>
    srq_step u E_tau s (wait_lock k s)"
| s_wait_loop: "sq_reader s = R_locked k \<Longrightarrow> srq_step u E_tau s (wait_loop k s)"
| s_spurious: "sq_reader s = R_sleep k \<Longrightarrow> srq_step u E_tau s (s\<lparr>sq_reader := R_wake k\<rparr>)"
| s_timeout: "sq_reader s = R_sleep Timed_pop \<Longrightarrow> sq_mutex s = Nobody \<Longrightarrow>
    srq_step u E_timeout s (s\<lparr>sq_reader := R_idle\<rparr>)"
| s_take: "sq_reader s = R_take k \<Longrightarrow> srq_step u E_tau s (take_start k s)"
| s_take_read: "sq_reader s = R_read k \<Longrightarrow>
    srq_step u (if sq_stack s = 0 then E_null k else E_tau) s (take_read k s)"
| s_take_cas: "sq_reader s = R_cas k e \<Longrightarrow> srq_step u E_tau s (take_cas k e s)"
| s_take_rev: "sq_reader s = R_rev k e \<Longrightarrow> srq_step u E_tau s (take_rev k e s)"
| s_take_result: "sq_reader s = R_head k \<Longrightarrow>
    srq_step u (if k = Front then E_front (sq_cache s) else E_pop (sq_cache s)) s (take_result k s)"

inductive srq_run :: "bool \<Rightarrow> sq_event list \<Rightarrow> srq \<Rightarrow> bool" for u where
  run_new: "srq_run u [] new_srq"
| run_step: "srq_run u evs s \<Longrightarrow> srq_step u ev s s' \<Longrightarrow> srq_run u (evs @ [ev]) s'"

section \<open>The specification: a FIFO queue\<close>

text \<open>A pushed list is in LIFO order, as the documentation of \<open>push(head, tail)\<close> says.\<close>

fun fifo_step :: "sq_event \<Rightarrow> nat list \<Rightarrow> nat list option" where
  "fifo_step E_tau q = Some q"
| "fifo_step (E_push zs) q = Some (q @ rev zs)"
| "fifo_step (E_pop x) q = (case q of [] \<Rightarrow> None | y # q' \<Rightarrow> if x = y then Some q' else None)"
| "fifo_step (E_front x) q = (case q of [] \<Rightarrow> None | y # q' \<Rightarrow> if x = y then Some q else None)"
| "fifo_step (E_null k) q = (if q = [] \<and> k \<noteq> Pop then Some q else None)"
| "fifo_step E_timeout q = Some q"

fun fifo_run :: "sq_event list \<Rightarrow> nat list \<Rightarrow> nat list option" where
  "fifo_run [] q = Some q"
| "fifo_run (ev # evs) q = (case fifo_step ev q of None \<Rightarrow> None | Some q' \<Rightarrow> fifo_run evs q')"

section \<open>The invariant\<close>

fun lseg :: "(nat \<Rightarrow> nat) \<Rightarrow> nat \<Rightarrow> nat list \<Rightarrow> bool" where
  "lseg nx p [] \<longleftrightarrow> p = 0"
| "lseg nx p (x # xs) \<longleftrightarrow> p = x \<and> x \<noteq> 0 \<and> lseg nx (nx x) xs"

fun own :: "push_pc \<Rightarrow> nat list" where
  "own P_idle = []"
| "own (P_read sg zs) = zs"
| "own (P_cas sg zs e) = zs"
| "own (P_want zs) = zs"
| "own (P_cas0 zs) = zs"

definition pusher_ok :: "(nat \<Rightarrow> nat) \<Rightarrow> push_pc \<Rightarrow> bool" where
  "pusher_ok nx pc \<longleftrightarrow>
     distinct (own pc) \<and> 0 \<notin> set (own pc) \<and> seg nx (own pc) \<and> (pc \<noteq> P_idle \<longrightarrow> own pc \<noteq> [])
   \<and> (\<forall>sg zs e. pc = P_cas sg zs e \<longrightarrow> nx (last zs) = e \<and> (sg \<longrightarrow> e \<noteq> 0))
   \<and> (\<forall>zs. pc = P_want zs \<or> pc = P_cas0 zs \<longrightarrow> nx (last zs) = 0)"

text \<open>
  \<open>xs\<close> are the elements of the stack, \<open>cs\<close> of the cache, \<open>es\<close> those the reader has taken and
  not reversed yet.
\<close>

definition reader_ok :: "(nat \<Rightarrow> nat) \<Rightarrow> read_pc \<Rightarrow> nat list \<Rightarrow> nat list \<Rightarrow> nat list \<Rightarrow> bool" where
  "reader_ok nx r xs cs es \<longleftrightarrow>
     (case r of
        R_rev k e \<Rightarrow> lseg nx e es \<and> (es \<noteq> [] \<or> cs \<noteq> [])
      | R_head k \<Rightarrow> es = [] \<and> cs \<noteq> []
      | R_read k \<Rightarrow> es = [] \<and> cs = [] \<and> (k = Pop \<longrightarrow> xs \<noteq> [])
      | R_cas k e \<Rightarrow> es = [] \<and> cs = [] \<and> (k = Pop \<longrightarrow> xs \<noteq> []) \<and> e \<noteq> 0
      | R_take k \<Rightarrow> es = [] \<and> (k = Pop \<longrightarrow> xs \<noteq> [] \<or> cs \<noteq> [])
      | _ \<Rightarrow> es = [])"

definition srq_inv :: "srq \<Rightarrow> nat list \<Rightarrow> nat list \<Rightarrow> nat list \<Rightarrow> bool" where
  "srq_inv s xs cs es \<longleftrightarrow>
     lseg (sq_next s) (sq_stack s) xs \<and> lseg (sq_next s) (sq_cache s) cs \<and> reader_ok (sq_next s) (sq_reader s) xs cs es
   \<and> distinct (xs @ cs @ es)
   \<and> (\<forall>t. pusher_ok (sq_next s) (sq_pushers s t))
   \<and> (\<forall>t. set (own (sq_pushers s t)) \<inter> set (xs @ cs @ es) = {})
   \<and> (\<forall>t v. t \<noteq> v \<longrightarrow> set (own (sq_pushers s t)) \<inter> set (own (sq_pushers s v)) = {})
   \<and> set (xs @ cs @ es) \<subseteq> sq_owned s \<and> (\<forall>t. set (own (sq_pushers s t)) \<subseteq> sq_owned s)"

definition srq_repr :: "srq \<Rightarrow> nat list \<Rightarrow> bool" where
  "srq_repr s q \<longleftrightarrow> (\<exists>xs cs es. srq_inv s xs cs es \<and> q = rev es @ cs @ rev xs)"

section \<open>Frames\<close>

lemma lseg_frame [simp]: "x \<notin> set xs \<Longrightarrow> lseg (nx(x := v)) p xs = lseg nx p xs"
  by (induction xs arbitrary: p) auto

lemma lseg_nonzero: "lseg nx p xs \<Longrightarrow> 0 \<notin> set xs"
  by (induction xs arbitrary: p) auto

lemma lseg_null [simp]: "lseg nx 0 xs \<longleftrightarrow> xs = []"
  by (cases xs) auto

lemma lseg_not_null: "lseg nx p xs \<Longrightarrow> p \<noteq> 0 \<Longrightarrow> \<exists>ys. xs = p # ys \<and> lseg nx (nx p) ys"
  by (cases xs) auto

lemma seg_frame [simp]: "x \<notin> set zs \<Longrightarrow> seg (nx(x := v)) zs = seg nx zs"
  by (induction zs rule: seg.induct [of _ nx]) auto

lemma seg_last: "distinct zs \<Longrightarrow> seg (nx(last zs := v)) zs = seg nx zs"
  by (induction zs rule: seg.induct [of _ nx]) auto

lemma seg_lseg:
  "seg nx zs \<Longrightarrow> zs \<noteq> [] \<Longrightarrow> 0 \<notin> set zs \<Longrightarrow> lseg nx (nx (last zs)) xs \<Longrightarrow> lseg nx (hd zs) (zs @ xs)"
  by (induction zs rule: seg.induct [of _ nx]) auto

lemma pusher_ok_frame:
  assumes "x \<notin> set (own pc)"
  shows "pusher_ok (nx(x := v)) pc = pusher_ok nx pc"
proof -
  have "last zs \<noteq> x" if "zs \<noteq> []" "x \<notin> set zs" for zs using that by auto
  with assms show ?thesis by (cases pc) (auto simp: pusher_ok_def)
qed

lemma pusher_ok_idle [simp]: "pusher_ok nx P_idle"
  by (simp add: pusher_ok_def)

section \<open>Changing one writer\<close>

text \<open>
  The part of the invariant that speaks of the writers, and its stability when one writer
  moves without giving up its elements, or hands them over.
\<close>

definition writers_ok :: "(nat \<Rightarrow> nat) \<Rightarrow> (nat \<Rightarrow> push_pc) \<Rightarrow> nat set \<Rightarrow> bool" where
  "writers_ok nx ps qs \<longleftrightarrow>
     (\<forall>t. pusher_ok nx (ps t)) \<and> (\<forall>t. set (own (ps t)) \<inter> qs = {})
   \<and> (\<forall>t v. t \<noteq> v \<longrightarrow> set (own (ps t)) \<inter> set (own (ps v)) = {})"

lemma srq_inv_alt:
  "srq_inv s xs cs es \<longleftrightarrow>
     lseg (sq_next s) (sq_stack s) xs \<and> lseg (sq_next s) (sq_cache s) cs \<and> reader_ok (sq_next s) (sq_reader s) xs cs es
   \<and> distinct (xs @ cs @ es) \<and> writers_ok (sq_next s) (sq_pushers s) (set (xs @ cs @ es))
   \<and> set (xs @ cs @ es) \<subseteq> sq_owned s \<and> (\<forall>t. set (own (sq_pushers s t)) \<subseteq> sq_owned s)"
  by (auto simp: srq_inv_def writers_ok_def)

lemma writers_ok_update:
  assumes "writers_ok nx ps qs" "pusher_ok nx pc" "set (own pc) \<subseteq> set (own (ps t))"
  shows "writers_ok nx (ps(t := pc)) qs"
  using assms unfolding writers_ok_def by (auto simp: fun_upd_def) blast+

lemma writers_ok_give:
  assumes "writers_ok nx ps qs"
  shows "writers_ok nx (ps(t := P_idle)) (set (own (ps t)) \<union> qs)"
  using assms unfolding writers_ok_def by (auto simp: fun_upd_def) blast+

lemma writers_ok_frame:
  assumes "writers_ok nx ps qs" "\<And>t. x \<notin> set (own (ps t))"
  shows "writers_ok (nx(x := v)) ps qs"
  using assms by (simp add: writers_ok_def pusher_ok_frame)

lemma writers_ok_anti: "writers_ok nx ps qs \<Longrightarrow> qs' \<subseteq> qs \<Longrightarrow> writers_ok nx ps qs'"
  unfolding writers_ok_def by blast

lemma srq_reprI: "srq_inv s xs cs es \<Longrightarrow> q = rev es @ cs @ rev xs \<Longrightarrow> srq_repr s q"
  unfolding srq_repr_def by blast

text \<open>A writer step that keeps the memory and the stack.\<close>

lemma srq_inv_writer:
  assumes inv: "srq_inv s xs cs es" and pc: "pusher_ok (sq_next s) pc" "set (own pc) \<subseteq> set (own (sq_pushers s t))"
  shows "srq_inv (s\<lparr>sq_pushers := (sq_pushers s)(t := pc), sq_mutex := m\<rparr>) xs cs es"
proof -
  have "writers_ok (sq_next s) ((sq_pushers s)(t := pc)) (set (xs @ cs @ es))"
    using inv pc by (intro writers_ok_update) (simp_all add: srq_inv_alt)
  moreover have "set (own pc) \<subseteq> sq_owned s" using inv pc(2) unfolding srq_inv_alt by blast
  ultimately show ?thesis using inv by (simp add: srq_inv_alt)
qed

lemma srq_inv_push:
  assumes inv: "srq_inv s xs cs es" and ps: "own (sq_pushers s t) = zs" "zs \<noteq> []"
    and nx: "sq_next s (last zs) = sq_stack s" and r: "r = sq_reader s \<or> (\<exists>k. r = R_wake k \<and> es = [])"
  shows "srq_inv (s\<lparr>sq_stack := hd zs, sq_pushers := (sq_pushers s)(t := P_idle), sq_reader := r, sq_mutex := m\<rparr>) (zs @ xs) cs es"
proof -
  from inv have w: "writers_ok (sq_next s) (sq_pushers s) (set (xs @ cs @ es))" by (simp add: srq_inv_alt)
  then have ok: "pusher_ok (sq_next s) (sq_pushers s t)" "set zs \<inter> set (xs @ cs @ es) = {}"
    using ps by (auto simp: writers_ok_def)
  have "lseg (sq_next s) (hd zs) (zs @ xs)"
    using ok ps nx inv by (intro seg_lseg) (auto simp: pusher_ok_def srq_inv_alt)
  moreover have "writers_ok (sq_next s) ((sq_pushers s)(t := P_idle)) (set ((zs @ xs) @ cs @ es))"
    using writers_ok_give [OF w, of t] ps(1) by (simp add: Un_assoc)
  moreover have "distinct ((zs @ xs) @ cs @ es)" using inv ok ps by (auto simp: srq_inv_alt pusher_ok_def)
  moreover have "reader_ok (sq_next s) r (zs @ xs) cs es"
    using inv r ps(2) by (auto simp: srq_inv_alt reader_ok_def split: read_pc.splits)
  moreover have "set zs \<subseteq> sq_owned s" using inv ps(1) by (auto simp: srq_inv_alt)
  ultimately show ?thesis using inv by (simp add: srq_inv_alt)
qed

text \<open>A reader step that keeps the memory, and a step that writes one element.\<close>

lemma srq_inv_reader:
  assumes "srq_inv s xs cs es" "reader_ok (sq_next s) r xs cs es"
  shows "srq_inv (s\<lparr>sq_reader := r, sq_mutex := m\<rparr>) xs cs es" "srq_inv (s\<lparr>sq_reader := r\<rparr>) xs cs es"
  using assms by (simp_all add: srq_inv_alt)

lemma srq_inv_client:
  assumes inv: "srq_inv s xs cs es" and x: "x \<notin> sq_owned s"
  shows "srq_inv (s\<lparr>sq_next := (sq_next s)(x := v)\<rparr>) xs cs es"
proof -
  have n: "x \<notin> set xs" "x \<notin> set cs" "x \<notin> set es" "\<And>t. x \<notin> set (own (sq_pushers s t))"
    using inv x unfolding srq_inv_alt by auto
  have "writers_ok ((sq_next s)(x := v)) (sq_pushers s) (set (xs @ cs @ es))"
    using inv n(4) by (intro writers_ok_frame) (simp_all add: srq_inv_alt)
  moreover have "reader_ok ((sq_next s)(x := v)) (sq_reader s) xs cs es"
    using inv n(3) by (auto simp: srq_inv_alt reader_ok_def split: read_pc.splits)
  ultimately show ?thesis using inv n by (simp add: srq_inv_alt)
qed

lemma srq_inv_new_push:
  assumes inv: "srq_inv s xs cs es" and t: "sq_pushers s t = P_idle"
    and zs: "zs \<noteq> []" "distinct zs" "0 \<notin> set zs" "set zs \<inter> sq_owned s = {}" "seg (sq_next s) zs"
  shows "srq_inv (s\<lparr>sq_pushers := (sq_pushers s)(t := P_read sg zs), sq_owned := sq_owned s \<union> set zs\<rparr>) xs cs es"
proof -
  have "pusher_ok (sq_next s) (P_read sg zs)" using zs by (simp add: pusher_ok_def)
  moreover have "set (xs @ cs @ es) \<subseteq> sq_owned s" "\<And>v. set (own (sq_pushers s v)) \<subseteq> sq_owned s"
    using inv unfolding srq_inv_alt by blast+
  then have "set zs \<inter> set (xs @ cs @ es) = {}" "\<And>v. set zs \<inter> set (own (sq_pushers s v)) = {}" using zs(4) by blast+
  ultimately have "writers_ok (sq_next s) ((sq_pushers s)(t := P_read sg zs)) (set (xs @ cs @ es))"
    using inv unfolding srq_inv_alt writers_ok_def by (simp add: Int_commute)
  then show ?thesis using inv by (auto simp: srq_inv_alt)
qed

lemma srq_inv_push_read:
  assumes inv: "srq_inv s xs cs es" and t: "sq_pushers s t = P_read sg zs"
  shows "srq_inv (push_read t sg zs s) xs cs es"
proof -
  let ?nx = "(sq_next s)(last zs := sq_stack s)"
  let ?pc = "if sg \<and> sq_stack s = 0 then P_want zs else P_cas sg zs (sq_stack s)"
  have w: "writers_ok (sq_next s) (sq_pushers s) (set (xs @ cs @ es))" using inv by (simp add: srq_inv_alt)
  then have zs: "distinct zs" "0 \<notin> set zs" "seg (sq_next s) zs" "zs \<noteq> []" "set zs \<inter> set (xs @ cs @ es) = {}"
    "\<And>v. v \<noteq> t \<Longrightarrow> set zs \<inter> set (own (sq_pushers s v)) = {}"
    unfolding writers_ok_def pusher_ok_def using t by (metis own.simps(2) push_pc.distinct(1))+
  have l: "last zs \<in> set zs" using zs(4) by simp
  have pc: "pusher_ok ?nx ?pc" using zs by (auto simp: pusher_ok_def seg_last)
  have other: "pusher_ok ?nx (sq_pushers s v)" if "v \<noteq> t" for v
    using w zs(6) [OF that] l by (subst pusher_ok_frame) (auto simp: writers_ok_def)
  have o: "own ?pc = zs" by simp
  have "writers_ok ?nx ((sq_pushers s)(t := ?pc)) (set (xs @ cs @ es))"
    using w pc other o t unfolding writers_ok_def by (metis (no_types, lifting) fun_upd_apply own.simps(2))
  moreover have "last zs \<notin> set xs" "last zs \<notin> set cs" "last zs \<notin> set es" using zs(5) l by auto
  moreover from this have "reader_ok ?nx (sq_reader s) xs cs es"
    using inv by (auto simp: srq_inv_alt reader_ok_def split: read_pc.splits)
  moreover have "\<forall>v. set (own (((sq_pushers s)(t := ?pc)) v)) \<subseteq> sq_owned s"
    using inv t o unfolding srq_inv_alt by (metis fun_upd_apply own.simps(2))
  ultimately show ?thesis using inv by (simp add: srq_inv_alt push_read_def Let_def)
qed

lemma srq_inv_take_rev:
  assumes inv: "srq_inv s xs cs es" and r: "sq_reader s = R_rev k e" "e \<noteq> 0"
  shows "\<exists>ys. es = e # ys \<and> srq_inv (take_rev k e s) xs (e # cs) ys"
proof -
  have l: "lseg (sq_next s) e es" using inv r by (simp add: srq_inv_alt reader_ok_def)
  then obtain ys where ys: "es = e # ys" "lseg (sq_next s) (sq_next s e) ys" using lseg_not_null r(2) by blast
  let ?nx = "(sq_next s)(e := sq_cache s)"
  have n: "e \<notin> set xs" "e \<notin> set cs" "e \<notin> set ys" using inv ys(1) by (auto simp: srq_inv_alt)
  have "writers_ok ?nx (sq_pushers s) (set (xs @ cs @ es))"
  proof (rule writers_ok_frame)
    show "e \<notin> set (own (sq_pushers s t))" for t
      using inv ys(1) unfolding srq_inv_alt writers_ok_def by (metis (no_types, lifting) disjoint_iff in_set_conv_decomp append_Cons UnI2 set_append)
  qed (use inv in \<open>simp add: srq_inv_alt\<close>)
  then have "writers_ok ?nx (sq_pushers s) (set (xs @ (e # cs) @ ys))"
    by (rule writers_ok_anti) (auto simp: ys(1))
  moreover have "lseg ?nx (sq_stack s) xs" "lseg ?nx e (e # cs)" "lseg ?nx (sq_next s e) ys"
    using inv n r(2) ys(2) by (simp_all add: srq_inv_alt)
  ultimately have "srq_inv (take_rev k e s) xs (e # cs) ys"
    using inv n r(2) ys(1) by (simp add: srq_inv_alt take_rev_def reader_ok_def)
  with ys(1) show ?thesis by blast
qed

section \<open>The simulation\<close>

lemma srq_inv_pusher: "srq_inv s xs cs es \<Longrightarrow> pusher_ok (sq_next s) (sq_pushers s t)"
  by (simp add: srq_inv_def)

lemma srq_inv_result:
  assumes inv: "srq_inv s xs cs es" and r: "sq_reader s = R_head k" and k: "k \<noteq> Front"
  shows "\<exists>ys. cs = sq_cache s # ys \<and> es = [] \<and> srq_inv (take_result k s) xs ys []"
proof -
  have cs: "cs \<noteq> []" "es = []" "lseg (sq_next s) (sq_cache s) cs"
    using inv r by (simp_all add: srq_inv_alt reader_ok_def)
  then obtain ys where ys: "cs = sq_cache s # ys" "lseg (sq_next s) (sq_next s (sq_cache s)) ys"
    by (cases cs) auto
  have w: "writers_ok (sq_next s) (sq_pushers s) (set (xs @ cs @ es))" using inv by (simp add: srq_inv_alt)
  then have "writers_ok (sq_next s) (sq_pushers s) (set (xs @ ys @ []))"
    by (rule writers_ok_anti) (auto simp: ys(1))
  moreover have "sq_cache s \<notin> set (own (sq_pushers s t))" for t
    using w ys(1) unfolding writers_ok_def by (metis (no_types, lifting) disjoint_iff in_set_conv_decomp append_Cons UnI2 set_append)
  ultimately have "srq_inv (take_result k s) xs ys []"
    using inv ys cs(2) k unfolding srq_inv_alt take_result_def by (auto simp: reader_ok_def)
  with ys cs show ?thesis by blast
qed

lemma simulation_push:
  assumes inv: "srq_inv s xs cs es" and t: "sq_pushers s t = P_cas sg zs e \<or> sq_pushers s t = P_cas0 zs \<and> e = 0"
    and e: "sq_stack s = e" and r: "r = sq_reader s \<or> (\<exists>k. r = R_wake k \<and> es = [])"
  shows "srq_repr (s\<lparr>sq_stack := hd zs, sq_pushers := (sq_pushers s)(t := P_idle), sq_reader := r, sq_mutex := m\<rparr>)
    ((rev es @ cs @ rev xs) @ rev zs)"
proof -
  have ok: "pusher_ok (sq_next s) (sq_pushers s t)" using inv by (rule srq_inv_pusher)
  have "own (sq_pushers s t) = zs" "zs \<noteq> []" "sq_next s (last zs) = sq_stack s"
    using ok t e by (auto simp: pusher_ok_def)
  from srq_inv_push [OF inv this r] show ?thesis by (rule srq_reprI) simp
qed

lemma srq_simulation:
  assumes "srq_step u ev s s'" "srq_repr s q"
  shows "\<exists>q'. fifo_step ev q = Some q' \<and> srq_repr s' q'"
proof -
  from assms(2) obtain xs cs es where inv: "srq_inv s xs cs es" and q: "q = rev es @ cs @ rev xs"
    unfolding srq_repr_def by blast
  have keep: "srq_repr s1 q" if "srq_inv s1 xs cs es" for s1 using that q by (rule srq_reprI)
  have reader: "srq_repr (s\<lparr>sq_reader := r\<rparr>) q" "srq_repr (s\<lparr>sq_mutex := m, sq_reader := r\<rparr>) q"
    if "reader_ok (sq_next s) r xs cs es" for r m
    using srq_inv_reader [OF inv that] keep by (auto simp: srq_inv_alt)
  note ok = inv [unfolded srq_inv_alt reader_ok_def]
  from assms(1) inv show ?thesis
  proof (cases rule: srq_step.cases)
    case (s_client x v)
    with inv keep show ?thesis by (simp add: srq_inv_client)
  next
    case (s_push t zs sg)
    with inv keep show ?thesis by (simp add: srq_inv_new_push)
  next
    case (s_push_read t sg zs)
    with inv keep show ?thesis by (simp add: srq_inv_push_read)
  next
    case (s_push_cas t sg zs e)
    show ?thesis
    proof (cases "sq_stack s = e")
      case True
      with simulation_push [OF inv disjI1 [OF s_push_cas(3)] True, of "sq_reader s" "sq_mutex s"] s_push_cas q
      show ?thesis by (simp add: push_cas_def)
    next
      case False
      have "pusher_ok (sq_next s) (P_read sg zs)"
        using srq_inv_pusher [OF inv, of t] s_push_cas(3) by (simp add: pusher_ok_def)
      from srq_inv_writer [OF inv this, of t "sq_mutex s"] False s_push_cas keep show ?thesis
        by (simp add: push_cas_def)
    qed
  next
    case (s_push_lock t zs)
    have "pusher_ok (sq_next s) (P_cas0 zs)"
      using srq_inv_pusher [OF inv, of t] s_push_lock(3) by (simp add: pusher_ok_def)
    from srq_inv_writer [OF inv this, of t "Writer t"] s_push_lock keep show ?thesis
      by (simp add: push_lock_def)
  next
    case (s_push_cas0 t zs)
    show ?thesis
    proof (cases "sq_stack s = 0")
      case True
      have "notify_one (sq_reader s) = sq_reader s \<or> (\<exists>k. notify_one (sq_reader s) = R_wake k \<and> es = [])"
        using ok by (auto simp: notify_one_def split: read_pc.splits)
      from simulation_push [OF inv _ True this, of t undefined zs Nobody] True s_push_cas0 q
      show ?thesis by (simp add: push_cas0_def)
    next
      case False
      have "pusher_ok (sq_next s) (P_read True zs)"
        using srq_inv_pusher [OF inv, of t] s_push_cas0(3) by (simp add: pusher_ok_def)
      from srq_inv_writer [OF inv this, of t Nobody] False s_push_cas0 keep show ?thesis
        by (simp add: push_cas0_def)
    qed
  next
    case (s_wait k)
    have "xs \<noteq> [] \<or> cs \<noteq> []" if "sq_cache s \<noteq> 0 \<or> sq_stack s \<noteq> 0"
      using ok that by auto
    then show ?thesis using s_wait ok reader by (auto simp: wait_check_def reader_ok_def)
  next
    case (s_nowait k)
    then show ?thesis using ok reader by (auto simp: reader_ok_def)
  next
    case (s_wait_lock k)
    then show ?thesis using ok reader by (auto simp: wait_lock_def reader_ok_def)
  next
    case (s_wait_loop k)
    have "xs \<noteq> []" if "sq_stack s \<noteq> 0" using ok that by auto
    then show ?thesis using s_wait_loop ok reader by (auto simp: wait_loop_def reader_ok_def)
  next
    case (s_spurious k)
    then show ?thesis using ok reader by (auto simp: reader_ok_def)
  next
    case s_timeout
    then show ?thesis using ok reader by (auto simp: reader_ok_def)
  next
    case (s_take k)
    have "cs \<noteq> [] \<longleftrightarrow> sq_cache s \<noteq> 0" using ok by (cases cs) auto
    then show ?thesis using s_take ok reader by (auto simp: take_start_def reader_ok_def)
  next
    case (s_take_read k)
    have "xs \<noteq> [] \<longleftrightarrow> sq_stack s \<noteq> 0" using ok by (cases xs) auto
    then show ?thesis using s_take_read ok reader q by (auto simp: take_read_def reader_ok_def)
  next
    case (s_take_cas k e)
    show ?thesis
    proof (cases "sq_stack s = e")
      case True
      have "srq_inv (s\<lparr>sq_stack := 0, sq_reader := R_rev k e\<rparr>) [] cs xs"
        using inv s_take_cas True by (auto simp: srq_inv_alt reader_ok_def Un_commute)
      moreover have "es = []" "cs = []" using ok s_take_cas by simp_all
      ultimately show ?thesis using s_take_cas True q srq_reprI by (fastforce simp: take_cas_def)
    next
      case False
      with s_take_cas ok reader show ?thesis by (simp add: take_cas_def reader_ok_def)
    qed
  next
    case (s_take_rev k e)
    show ?thesis
    proof (cases "e = 0")
      case True
      with s_take_rev ok reader show ?thesis by (auto simp: take_rev_def reader_ok_def)
    next
      case False
      from srq_inv_take_rev [OF inv s_take_rev(3) False] q s_take_rev srq_reprI show ?thesis by fastforce
    qed
  next
    case (s_take_result k)
    show ?thesis
    proof (cases "k = Front")
      case True
      have "cs \<noteq> []" "lseg (sq_next s) (sq_cache s) cs" "es = []" using ok s_take_result by simp_all
      with True s_take_result q reader show ?thesis by (cases cs) (auto simp: take_result_def reader_ok_def)
    next
      case False
      from srq_inv_result [OF inv s_take_result(3) False] q s_take_result False srq_reprI show ?thesis by fastforce
    qed
  qed
qed

lemma fifo_run_append:
  "fifo_run (evs @ evs') q = (case fifo_run evs q of None \<Rightarrow> None | Some q' \<Rightarrow> fifo_run evs' q')"
  by (induction evs arbitrary: q) (auto split: option.splits)

lemma srq_repr_new: "srq_repr new_srq []"
proof -
  have "srq_inv new_srq [] [] []" by (simp add: srq_inv_def new_srq_def reader_ok_def)
  then show ?thesis by (rule srq_reprI) simp
qed

lemma srq_run_repr: "srq_run u evs s \<Longrightarrow> \<exists>q. fifo_run evs [] = Some q \<and> srq_repr s q"
proof (induction rule: srq_run.induct)
  case run_new
  show ?case using srq_repr_new by auto
next
  case (run_step evs s ev s')
  then obtain q where "fifo_run evs [] = Some q" "srq_repr s q" by blast
  moreover from srq_simulation [OF run_step(2) this(2)] obtain q' where "fifo_step ev q = Some q'" "srq_repr s' q'"
    by blast
  ultimately show ?case by (auto simp: fifo_run_append)
qed

section \<open>The sleeping reader\<close>

text \<open>Without \<open>unsafe_push\<close>, the stack is null as long as the reader sleeps.\<close>

fun signalling :: "push_pc \<Rightarrow> bool" where
  "signalling (P_read sg zs) \<longleftrightarrow> sg"
| "signalling (P_cas sg zs e) \<longleftrightarrow> sg \<and> e \<noteq> 0"
| "signalling _ \<longleftrightarrow> True"

definition sleep_inv :: "srq \<Rightarrow> bool" where
  "sleep_inv s \<longleftrightarrow> (\<forall>k. sq_reader s = R_sleep k \<longrightarrow> sq_stack s = 0)
     \<and> (\<forall>k. sq_reader s \<in> {R_want k, R_locked k, R_sleep k, R_wake k} \<longrightarrow> sq_cache s = 0)
     \<and> (\<forall>t. signalling (sq_pushers s t))"

lemmas srq_step_defs = push_read_def push_cas_def push_lock_def push_cas0_def notify_one_def wait_check_def
  wait_lock_def wait_loop_def take_start_def take_read_def take_cas_def take_rev_def take_result_def Let_def

lemma sleep_inv_step:
  assumes "srq_step False ev s s'" "sleep_inv s"
  shows "sleep_inv s'"
proof -
  from assms(2) have "signalling (sq_pushers s t)" for t by (simp add: sleep_inv_def)
  then have w: "sq_pushers s t = P_read sg zs \<Longrightarrow> sg" "sq_pushers s t = P_cas sg zs e \<Longrightarrow> sg \<and> e \<noteq> 0" for t sg zs e
    by (metis signalling.simps)+
  from assms show ?thesis
  proof (cases rule: srq_step.cases)
    case (s_push_cas0 t zs)
    with assms(2) show ?thesis
      by (cases "sq_reader s") (auto simp: sleep_inv_def push_cas0_def notify_one_def split: if_splits)
  qed (auto simp: sleep_inv_def srq_step_defs dest: w split: if_splits)
qed

lemma sleep_inv_run: "srq_run False evs s \<Longrightarrow> sleep_inv s"
proof (induction rule: srq_run.induct)
  case run_new
  show ?case by (simp add: sleep_inv_def new_srq_def)
qed (rule sleep_inv_step)

section \<open>Properties\<close>

text \<open>C4: Every interleaving of any number of writers with the reader is a FIFO queue: the
  history of pushes and pops, ordered by the successful compare-and-swaps, is a history of
  the sequential queue; in particular nothing is lost, duplicated or reordered, a null result
  means that the queue was empty at that moment, and the blocking \<open>pop\<close> never returns null.\<close>

theorem srq_is_fifo:
  assumes "srq_run u evs s"
  shows "\<exists>q. fifo_run evs [] = Some q"
  using srq_run_repr [OF assms] by blast

text \<open>A run of one writer and the reader: push, try\_pop.\<close>

theorem srq_is_fifo_witness:
  "\<exists>s. srq_run False [E_tau, E_tau, E_tau, E_push [5]] s \<and> fifo_run [E_tau, E_tau, E_tau, E_push [5]] [] = Some [5]"
proof -
  let ?s1 = "new_srq\<lparr>sq_pushers := (sq_pushers new_srq)(0 := P_read True [5]), sq_owned := sq_owned new_srq \<union> set [5]\<rparr>"
  have 1: "srq_step False E_tau new_srq ?s1" by (rule s_push) (simp_all add: new_srq_def)
  let ?s2 = "push_read 0 True [5] ?s1"
  have 2: "srq_step False E_tau ?s1 ?s2" by (rule s_push_read) simp
  let ?s3 = "push_lock 0 [5] ?s2"
  have 3: "srq_step False E_tau ?s2 ?s3" by (rule s_push_lock) (simp_all add: push_read_def new_srq_def)
  let ?s4 = "push_cas0 0 [5] ?s3"
  have "srq_step False (if sq_stack ?s3 = 0 then E_push [5] else E_tau) ?s3 ?s4"
    by (rule s_push_cas0) (simp add: push_lock_def)
  then have 4: "srq_step False (E_push [5]) ?s3 ?s4" by (simp add: push_lock_def push_read_def new_srq_def)
  from run_step [OF run_step [OF run_step [OF run_step [OF run_new 1] 2] 3] 4]
  have "srq_run False [E_tau, E_tau, E_tau, E_push [5]] ?s4" by simp
  with srq_is_fifo [OF this] show ?thesis by (intro exI [of _ ?s4]) simp
qed



end
