(* ===== verification/Storage_Semaphore.thy ===== *)
theory Storage_Semaphore
  imports Hc_Prelude
begin

text \<open>
  The byte counters that bound the send and receive buffers
  (\<open>libhamcast/hamcast/util/storage_semaphore.hpp\<close>) and the id generator
  (\<open>libhamcast/hamcast/util/id_generator.hpp\<close>). \<open>m_available\<close> is an \<open>int32\<close>; the sizes are at
  most 16 MB and a request at most a packet, so no subtraction leaves its range and the model
  computes in \<^typ>\<open>int\<close>. Every compare-and-swap, and every section under the mutex, is one step.
\<close>

section \<open>id\_generator\<close>

definition next_id :: "'w::len word \<Rightarrow> 'w word \<times> 'w word" where
  "next_id m_val = (m_val, m_val + 1)"

section \<open>The non-blocking semaphore\<close>

text \<open>
  \<open>try_acquire\<close> and \<open>release\<close> as they act at their atomic instruction. \<open>try_acquire\<close> retries
  while other threads change the counter, and decides on the value it reads last.
\<close>

definition try_acquire :: "int \<Rightarrow> int \<Rightarrow> bool \<times> int" where
  "try_acquire num_bytes m_available =
     (let av_new = m_available - num_bytes in
      if av_new < 0 then (False, m_available) else (True, av_new))"

definition nb_release :: "int \<Rightarrow> int \<Rightarrow> int" where
  "nb_release num_bytes m_available = m_available + num_bytes"

text \<open>
  The threads inside \<open>try_acquire\<close> with the value of \<open>m_available\<close> they have read; \<open>nb_held\<close> is
  the number of bytes acquired and not released, which the code does not store.
\<close>

record nb_semaphore =
  nb_available :: int
  nb_pcs :: "nat \<Rightarrow> (int \<times> int) option"
  nb_held :: int

definition new_nb_semaphore :: "int \<Rightarrow> nb_semaphore" where
  "new_nb_semaphore max_size = \<lparr>nb_available = max_size, nb_pcs = (\<lambda>_. None), nb_held = 0\<rparr>"

definition try_acquire_enter :: "nat \<Rightarrow> int \<Rightarrow> nb_semaphore \<Rightarrow> nb_semaphore" where
  "try_acquire_enter t n s = s\<lparr>nb_pcs := (nb_pcs s)(t := Some (n, nb_available s))\<rparr>"

definition try_acquire_loop :: "nat \<Rightarrow> int \<Rightarrow> int \<Rightarrow> nb_semaphore \<Rightarrow> nb_semaphore" where
  "try_acquire_loop t n av s =
     (let av_new = av - n in
      if av_new < 0 then s\<lparr>nb_pcs := (nb_pcs s)(t := None)\<rparr>
      else if nb_available s = av
      then s\<lparr>nb_available := av_new, nb_pcs := (nb_pcs s)(t := None), nb_held := nb_held s + n\<rparr>
      else s\<lparr>nb_pcs := (nb_pcs s)(t := Some (n, nb_available s))\<rparr>)"

inductive nb_step :: "nb_semaphore \<Rightarrow> nb_semaphore \<Rightarrow> bool" where
  nb_enter: "nb_pcs s t = None \<Longrightarrow> 0 \<le> n \<Longrightarrow> nb_step s (try_acquire_enter t n s)"
| nb_loop: "nb_pcs s t = Some (n, av) \<Longrightarrow> nb_step s (try_acquire_loop t n av s)"
| nb_rel: "0 \<le> n \<Longrightarrow> n \<le> nb_held s \<Longrightarrow>
    nb_step s (s\<lparr>nb_available := nb_release n (nb_available s), nb_held := nb_held s - n\<rparr>)"

section \<open>The blocking semaphore\<close>

text \<open>
  A thread in \<open>acquire\<close> that makes the counter negative has taken its bytes and waits until
  the counter is not negative again. \<open>sem_waiting\<close> lists the waiting threads with their bytes,
  \<open>sem_held\<close> is the number of bytes of the calls of \<open>acquire\<close> that have returned, minus what
  has been released.
\<close>

record storage_semaphore =
  sem_available :: int
  sem_waiting :: "(nat \<times> int) list"
  sem_held :: int

definition new_storage_semaphore :: "int \<Rightarrow> storage_semaphore" where
  "new_storage_semaphore max_size = \<lparr>sem_available = max_size, sem_waiting = [], sem_held = 0\<rparr>"

definition acquire_impl :: "nat \<Rightarrow> int \<Rightarrow> storage_semaphore \<Rightarrow> storage_semaphore" where
  "acquire_impl t num_bytes s =
     (let av_new = sem_available s - num_bytes in
      if av_new < 0
      then s\<lparr>sem_available := av_new, sem_waiting := (t, num_bytes) # sem_waiting s\<rparr>
      else s\<lparr>sem_available := av_new, sem_held := sem_held s + num_bytes\<rparr>)"

definition release_impl :: "int \<Rightarrow> storage_semaphore \<Rightarrow> storage_semaphore" where
  "release_impl num_bytes s =
     s\<lparr>sem_available := sem_available s + num_bytes, sem_held := sem_held s - num_bytes\<rparr>"

definition resume_acquire :: "nat \<Rightarrow> int \<Rightarrow> storage_semaphore \<Rightarrow> storage_semaphore" where
  "resume_acquire t num_bytes s =
     s\<lparr>sem_waiting := remove1 (t, num_bytes) (sem_waiting s), sem_held := sem_held s + num_bytes\<rparr>"

inductive sem_step :: "storage_semaphore \<Rightarrow> storage_semaphore \<Rightarrow> bool" where
  sem_acquire: "t \<notin> fst ` set (sem_waiting s) \<Longrightarrow> 0 \<le> n \<Longrightarrow> sem_step s (acquire_impl t n s)"
| sem_release: "0 \<le> n \<Longrightarrow> sem_step s (release_impl n s)"
| sem_resume: "(t, n) \<in> set (sem_waiting s) \<Longrightarrow> 0 \<le> sem_available s \<Longrightarrow> sem_step s (resume_acquire t n s)"

definition waiting_bytes :: "storage_semaphore \<Rightarrow> int" where
  "waiting_bytes s = sum_list (map snd (sem_waiting s))"

definition wait_for_not_full :: "int \<Rightarrow> storage_semaphore \<Rightarrow> bool" where
  "wait_for_not_full max_size s \<longleftrightarrow> sem_available s \<noteq> max_size"

definition sem_inv :: "int \<Rightarrow> storage_semaphore \<Rightarrow> bool" where
  "sem_inv max_size s \<longleftrightarrow>
     sem_available s + sem_held s + waiting_bytes s = max_size
   \<and> 0 \<le> sem_available s + waiting_bytes s \<and> (\<forall>(t, n) \<in> set (sem_waiting s). 0 \<le> n)"

section \<open>Lemmas\<close>

lemma nb_inv:
  assumes "nb_step\<^sup>*\<^sup>* (new_nb_semaphore mx) s" "0 \<le> mx"
  shows "nb_available s + nb_held s = mx \<and> 0 \<le> nb_available s"
  using assms
proof (induction rule: rtranclp_induct)
  case base
  then show ?case by (simp add: new_nb_semaphore_def)
next
  case (step y z)
  from step(2) step(3)[OF step(4)] show ?case
    by (cases rule: nb_step.cases)
      (auto simp: try_acquire_enter_def try_acquire_loop_def nb_release_def Let_def split: if_splits)
qed

lemma waiting_bytes_remove1:
  "(t, n) \<in> set ws \<Longrightarrow> sum_list (map snd (remove1 (t, n) ws)) = sum_list (map snd ws) - (n :: int)"
  by (induction ws) auto

lemma waiting_bytes_nonneg:
  "\<forall>(t, n) \<in> set ws. 0 \<le> (n :: int) \<Longrightarrow> 0 \<le> sum_list (map snd ws)"
  by (induction ws) auto

lemma sem_inv_step:
  assumes "sem_step s s'" "sem_inv mx s"
  shows "sem_inv mx s'"
  using assms
proof (cases rule: sem_step.cases)
  case (sem_acquire t n)
  with assms(2) waiting_bytes_nonneg [of "sem_waiting s"] show ?thesis
    by (auto simp: sem_inv_def acquire_impl_def waiting_bytes_def Let_def)
next
  case (sem_release n)
  with assms(2) show ?thesis by (auto simp: sem_inv_def release_impl_def waiting_bytes_def)
next
  case (sem_resume t n)
  have "\<forall>(u, m) \<in> set (remove1 (t, n) (sem_waiting s)). 0 \<le> m"
    using assms(2) by (auto simp: sem_inv_def dest!: set_remove1_subset [THEN subsetD])
  from waiting_bytes_nonneg [OF this] this sem_resume assms(2) show ?thesis
    by (auto simp: sem_inv_def resume_acquire_def waiting_bytes_def waiting_bytes_remove1)
qed

lemma sem_inv_reachable:
  "sem_step\<^sup>*\<^sup>* (new_storage_semaphore mx) s \<Longrightarrow> 0 \<le> mx \<Longrightarrow> sem_inv mx s"
proof (induction rule: rtranclp_induct)
  case base
  then show ?case by (simp add: sem_inv_def new_storage_semaphore_def waiting_bytes_def)
next
  case (step y z)
  then show ?case using sem_inv_step by blast
qed

section \<open>Properties\<close>



text \<open>The non-blocking semaphore never hands out more than its size, although a thread may
  compute the new value from a value of the counter that is stale by the time of its
  compare-and-swap.\<close>

theorem nonblocking_semaphore_bound:
  assumes "nb_step\<^sup>*\<^sup>* (new_nb_semaphore mx) s" "0 \<le> mx"
  shows "nb_held s \<le> mx \<and> 0 \<le> nb_available s"
  using nb_inv [OF assms] by linarith

theorem nonblocking_semaphore_bound_witness:
  "(let s = try_acquire_enter 1 5 (new_nb_semaphore 10) in nb_held s \<le> 10 \<and> nb_pcs s 1 = Some (5, 10))"
proof -
  have "nb_step (new_nb_semaphore 10) (try_acquire_enter 1 5 (new_nb_semaphore 10))"
    by (rule nb_enter) (simp_all add: new_nb_semaphore_def)
  then have "nb_step\<^sup>*\<^sup>* (new_nb_semaphore 10) (try_acquire_enter 1 5 (new_nb_semaphore 10))" by blast
  from nonblocking_semaphore_bound [OF this] show ?thesis
    by (simp add: Let_def try_acquire_enter_def new_nb_semaphore_def)
qed

end
