(* ===== verification/Tech_Module.thy ===== *)
theory Tech_Module
  imports Message Uri_Mappings Storage_Semaphore "HOL-Library.List_Lexorder" "HOL-Library.Char_ord"
begin

text \<open>
  Technology modules (\<open>middleware/tech_module.cpp\<close>, \<open>middleware/tech_module.hpp\<close>): the wrapper
  the middleware keeps around each loaded module. A worker thread serves a queue of
  mapping lookups, send jobs, joins and leaves; the module delivers packets through
  \<open>handle_receive\<close> and events through \<open>event_callack\<close>. The functions the module exports
  (\<open>hc_map\<close>, \<open>hc_join\<close>, ...) are loaded from a shared library, so they are a parameter: a
  record of functions on the state \<open>'m\<close> of the module instance. Objects that the code passes
  by pointer (sockets, sessions, jobs) are addresses of type \<^typ>\<open>nat\<close>.

  The lemmas show that the join tables implement a set of (group, socket) pairs, that the
  module is a member of exactly the groups somebody listens to, and that a received packet is
  copied to exactly the joined sockets that have room.
\<close>

section \<open>The interface of a loaded module\<close>

text \<open>Results that carry a uri carry it as a C string, as an object, or not at all.\<close>

record hc_uri_result =
  uri_str :: "string option"
  uri_obj :: "uri option"

record hc_uri_node =
  node_type :: int
  node_uri_str :: "string option"
  node_uri_obj :: "uri option"

record 'm hc_module_handle =
  map_fun :: "uri \<Rightarrow> 'm \<Rightarrow> hc_uri_result \<times> 'm"
  sendto_fun :: "bytes option \<Rightarrow> u32 \<Rightarrow> u8 \<Rightarrow> uri \<Rightarrow> 'm \<Rightarrow> int \<times> 'm"
  leave_fun :: "uri \<Rightarrow> 'm \<Rightarrow> int \<times> 'm"
  join_fun :: "uri \<Rightarrow> 'm \<Rightarrow> int \<times> 'm"
  group_set_fun :: "'m \<Rightarrow> hc_uri_node list \<times> 'm"
  neighbor_set_fun :: "'m \<Rightarrow> hc_uri_node list \<times> 'm"
  children_set_fun :: "uri \<Rightarrow> 'm \<Rightarrow> hc_uri_node list \<times> 'm"
  parent_set_fun :: "uri \<Rightarrow> 'm \<Rightarrow> hc_uri_node list \<times> 'm"
  designated_host_fun :: "uri \<Rightarrow> 'm \<Rightarrow> int \<times> 'm"
  delete_instance_fun :: "'m \<Rightarrow> 'm"

definition HC_SUCCESS :: int where
  "HC_SUCCESS = 0"

definition get_uri_result :: "hc_uri_result \<Rightarrow> uri" where
  "get_uri_result res =
     (case uri_obj res of Some u \<Rightarrow> u
      | None \<Rightarrow> (case uri_str res of Some s \<Rightarrow> uri_of s | None \<Rightarrow> default_uri))"

definition create_uri_result :: "uri \<Rightarrow> hc_uri_result" where
  "create_uri_result from = \<lparr>uri_str = None, uri_obj = (if uri_is_empty from then None else Some from)\<rparr>"

definition append_from_uri_list :: "(uri \<Rightarrow> int \<Rightarrow> 'a) \<Rightarrow> 'a list \<Rightarrow> hc_uri_node \<Rightarrow> 'a list" where
  "append_from_uri_list mk storage l =
     (case node_uri_obj l of Some u \<Rightarrow> storage @ [mk u (node_type l)]
      | None \<Rightarrow> (case node_uri_str l of Some s \<Rightarrow> storage @ [mk (uri_of s) (node_type l)]
                 | None \<Rightarrow> storage))"

fun consume_uri_list :: "(uri \<Rightarrow> int \<Rightarrow> 'a) \<Rightarrow> 'a list \<Rightarrow> hc_uri_node list \<Rightarrow> 'a list" where
  "consume_uri_list mk storage [] = storage"
| "consume_uri_list mk storage (l # ls) = consume_uri_list mk (append_from_uri_list mk storage l) ls"

definition set_uri_list_element :: "('a \<Rightarrow> uri \<times> int) \<Rightarrow> 'a \<Rightarrow> hc_uri_node" where
  "set_uri_list_element el x = \<lparr>node_type = snd (el x), node_uri_str = None, node_uri_obj = Some (fst (el x))\<rparr>"

definition create_uri_list :: "('a \<Rightarrow> uri \<times> int) \<Rightarrow> 'a list \<Rightarrow> hc_uri_node list" where
  "create_uri_list el vec =
     (if vec = [] then [\<lparr>node_type = -1, node_uri_str = None, node_uri_obj = None\<rparr>]
      else map (set_uri_list_element el) vec)"

section \<open>Jobs, queue messages and messages to a session\<close>

record send_job =
  job_addr :: nat
  m_msg :: message
  m_receiver :: uri
  job_ttl :: u8
  m_client :: nat

text \<open>The constructor refuses an empty group; a null session is no value of the model.\<close>

definition new_send_job :: "nat \<Rightarrow> message \<Rightarrow> uri \<Rightarrow> u8 \<Rightarrow> nat \<Rightarrow> send_job res" where
  "new_send_job addr msg receiver_group ttl_value client =
     rbind (hc_require (\<not> uri_is_empty receiver_group) ''!receiver_group.empty() && client'')
       (\<lambda>_. Inr \<lparr>job_addr = addr, m_msg = msg, m_receiver = receiver_group, job_ttl = ttl_value,
                 m_client = client\<rparr>)"

datatype tm_msg =
    mapping_lookup_t uri
  | send_job_t send_job
  | join_t uri nat
  | leave_t uri nat
  | leave_all_t nat
  | kill_t

text \<open>What the worker sets in the future of a message.\<close>

datatype tm_reply = f_uri uri | f_bool bool | no_future

text \<open>
  Messages to a session. A packet is stored in an array of one of ten sizes; the first
  argument is the size of that array, then the id of the socket, the source and the data.
\<close>

datatype session_msg =
    outgoing_ipc_msg_t message
  | outgoing_mcast_pckt_t nat u32 uri bytes
  | incoming_sync_request_t message
  | async_send_job_done_t message
  | receive_loop_killed_t
  | membership_event_t membership_event

section \<open>The state of a module instance\<close>

text \<open>
  \<open>m_joins\<close> maps a mapped group to its sockets, \<open>m_fjoins\<close> an unmapped group to its mapped one.
  \<open>worker_mappings\<close> is the table \<open>mappings\<close> that is local to \<open>worker\<close>.
\<close>

record 'm tech_module =
  m_id :: u32
  m_instance :: 'm
  m_atomic_msg_size :: u32
  m_service_discovery_results :: "(string, string) smap"
  m_queue :: "tm_msg list"
  m_joins :: "(uri, uri \<times> nat list) smap"
  m_fjoins :: "(uri, uri) smap"
  worker_mappings :: uri_mappings

fun handle_kvp_list :: "(string option \<times> string option) list \<Rightarrow> (string, string) smap \<Rightarrow> (string, string) smap" where
  "handle_kvp_list [] sd = sd"
| "handle_kvp_list ((key, val) # l) sd =
     handle_kvp_list l
       (case key of None \<Rightarrow> sd | Some k \<Rightarrow> (case val of None \<Rightarrow> sd | Some v \<Rightarrow> sm_put k v sd))"

definition next_iid :: "u32 \<Rightarrow> u32 \<times> u32" where
  "next_iid s_next_id = (s_next_id + 1, s_next_id + 1)"

definition new_tech_module ::
  "u32 \<Rightarrow> 'm \<Rightarrow> (string option \<times> string option) list \<Rightarrow> u32 \<Rightarrow> 'm tech_module" where
  "new_tech_module iid mod_ptr sd_res init_atomic_size =
     \<lparr>m_id = iid, m_instance = mod_ptr, m_atomic_msg_size = init_atomic_size,
      m_service_discovery_results = handle_kvp_list sd_res [],
      m_queue = [], m_joins = [], m_fjoins = [], worker_mappings = new_uri_mappings\<rparr>"

definition atomic_msg_size_changed :: "nat \<Rightarrow> 'm tech_module \<Rightarrow> 'm tech_module" where
  "atomic_msg_size_changed new_atomic_size tm = tm\<lparr>m_atomic_msg_size := of_nat new_atomic_size\<rparr>"

section \<open>The join tables\<close>

definition add :: "nat \<Rightarrow> uri \<Rightarrow> uri \<Rightarrow> ('m tech_module, bool) op" where
  "add whom mapped_what unmapped_what tm =
     (let element = (case map_of (m_joins tm) mapped_what of Some e \<Rightarrow> e | None \<Rightarrow> (default_uri, []));
          lst = snd element in
      if lst = [] then
        (Inr True, tm\<lparr>m_joins := sm_put mapped_what (mapped_what, [whom]) (m_joins tm),
                      m_fjoins := sm_put unmapped_what mapped_what (m_fjoins tm)\<rparr>)
      else if whom \<notin> set lst then
        (Inr True, tm\<lparr>m_joins := sm_put mapped_what (fst element, lst @ [whom]) (m_joins tm)\<rparr>)
      else (Inr False, tm))"

text \<open>
  \<open>del\<close> returns \<open>lst.size()\<close> after it erased the entry that owns \<open>lst\<close>: \<open>freed\<close> is the value
  read from the destroyed list.
\<close>

definition del :: "nat \<Rightarrow> nat \<Rightarrow> uri \<Rightarrow> uri \<Rightarrow> ('m tech_module, bool \<times> nat) op" where
  "del freed whom mapped_what unmapped_what tm =
     (case map_of (m_joins tm) mapped_what of
        None \<Rightarrow> (Inr (False, 0), tm)
      | Some (first, lst) \<Rightarrow>
          if whom \<in> set lst then
            (let lst' = remove1 whom lst in
             if lst' = [] then
               (Inr (True, freed), tm\<lparr>m_joins := sm_erase mapped_what (m_joins tm),
                                      m_fjoins := sm_erase unmapped_what (m_fjoins tm)\<rparr>)
             else (Inr (True, length lst'),
                   tm\<lparr>m_joins := sm_put mapped_what (first, lst') (m_joins tm)\<rparr>))
          else (Inr (False, length lst), tm))"

text \<open>The two loops of \<open>del_all\<close>: removing the socket everywhere, then leaving the emptied groups.\<close>

fun del_from_lists ::
  "nat \<Rightarrow> (uri, uri \<times> nat list) smap \<Rightarrow> (uri, uri) smap \<Rightarrow>
   (uri, uri \<times> nat list) smap \<times> uri list \<times> (uri, uri) smap" where
  "del_from_lists whom [] fj = ([], [], fj)"
| "del_from_lists whom ((g, first, spl) # js) fj =
     (let spl' = remove1 whom spl;
          emptied = whom \<in> set spl \<and> spl' = [];
          (js', empties, fj') = del_from_lists whom js (if emptied then sm_erase first fj else fj)
      in ((g, first, spl') # js', (if emptied then g # empties else empties), fj'))"

text \<open>A call of a function of the module.\<close>

definition call_module :: "('m \<Rightarrow> 'a \<times> 'm) \<Rightarrow> ('m tech_module, 'a) op" where
  "call_module f tm = (case f (m_instance tm) of (x, m) \<Rightarrow> (Inr x, tm\<lparr>m_instance := m\<rparr>))"

fun leave_emptied :: "'m hc_module_handle \<Rightarrow> uri list \<Rightarrow> ('m tech_module, unit) op" where
  "leave_emptied h [] tm = (Inr (), tm)"
| "leave_emptied h (g # gs) tm =
     sbind (call_module (leave_fun h g)) (\<lambda>rc.
     sbind (srequire (rc = HC_SUCCESS) ''m_handle->leave_fun(m_instance, &(*i), i->c_str()) == HC_SUCCESS'')
       (\<lambda>_. leave_emptied h gs)) (tm\<lparr>m_joins := sm_erase g (m_joins tm)\<rparr>)"

definition del_all :: "'m hc_module_handle \<Rightarrow> nat \<Rightarrow> ('m tech_module, unit) op" where
  "del_all h whom tm =
     (case del_from_lists whom (m_joins tm) (m_fjoins tm) of
        (js, empty_groups, fj) \<Rightarrow> leave_emptied h empty_groups (tm\<lparr>m_joins := js, m_fjoins := fj\<rparr>))"

section \<open>The worker\<close>

definition tm_mapping_helper :: "hc_uri_result \<Rightarrow> uri" where
  "tm_mapping_helper hc_res =
     (case uri_str hc_res of
        Some s \<Rightarrow> uri_of s
      | None \<Rightarrow> (case uri_obj hc_res of Some u \<Rightarrow> u | None \<Rightarrow> default_uri))"

text \<open>\<open>mappings.forward_lookup(u, helper)\<close>: the module is asked only for a name not in the table.\<close>

definition worker_lookup :: "'m hc_module_handle \<Rightarrow> uri \<Rightarrow> ('m tech_module, uri) op" where
  "worker_lookup h u tm =
     (let (hc_res, m) = map_fun h u (m_instance tm);
          (r, um) = forward_lookup_with (\<lambda>_. Inr (tm_mapping_helper hc_res)) u (worker_mappings tm)
      in (r, tm\<lparr>m_instance := (if map_of (m_forward_map (worker_mappings tm)) u = None then m
                                else m_instance tm),
                worker_mappings := um\<rparr>))"

text \<open>
  One iteration of \<open>worker\<close>. An exception is not caught in this thread except for a
  \<open>requirement_failed\<close> while sending.
\<close>

fun worker_msg :: "'m hc_module_handle \<Rightarrow> nat \<Rightarrow> tm_msg \<Rightarrow> ('m tech_module, tm_reply) op" where
  "worker_msg h freed (mapping_lookup_t u) tm =
     sbind (worker_lookup h u) (\<lambda>result. sret (f_uri result)) tm"
| "worker_msg h freed (send_job_t j) tm =
     (case worker_lookup h (m_receiver j) tm of
        (Inr receiver, tm') \<Rightarrow>
          sbind (call_module (sendto_fun h (msg_content (m_msg j)) (msg_content_size (m_msg j)) (job_ttl j) receiver))
            (\<lambda>_. sret no_future) tm'
      | (Inl (Requirement_failed e), tm') \<Rightarrow> (Inr no_future, tm')
      | (Inl e, tm') \<Rightarrow> (Inl e, tm'))"
| "worker_msg h freed (join_t u s) tm =
     sbind (worker_lookup h u) (\<lambda>mapped. sbind (add s mapped u) (\<lambda>success.
       if success then
         sbind (call_module (join_fun h mapped)) (\<lambda>rc.
         sbind (srequire (rc = HC_SUCCESS) ''m_handle->join_fun(m_instance, &mapped, mapped.c_str()) == HC_SUCCESS'')
           (\<lambda>_. sret (f_bool True)))
       else sret (f_bool False))) tm"
| "worker_msg h freed (leave_t u s) tm =
     sbind (worker_lookup h u) (\<lambda>mapped. sbind (del freed s mapped u) (\<lambda>res.
       if fst res then
         sbind (if snd res = 0 then
                  sbind (call_module (leave_fun h mapped)) (\<lambda>rc.
                    srequire (rc = HC_SUCCESS) ''m_handle->leave_fun(m_instance, &mapped, mapped.c_str()) == HC_SUCCESS'')
                else sret ())
           (\<lambda>_. sret (f_bool True))
       else sret (f_bool False))) tm"
| "worker_msg h freed (leave_all_t s) tm = sbind (del_all h s) (\<lambda>_. sret (f_bool True)) tm"
| "worker_msg h freed kill_t tm =
     sbind (call_module (\<lambda>m. ((), delete_instance_fun h m))) (\<lambda>_. sret (f_bool True)) tm"

text \<open>The loop of \<open>worker\<close> over the messages in the queue, with the replies it sets, in order.\<close>

fun worker_loop :: "'m hc_module_handle \<Rightarrow> nat \<Rightarrow> tm_msg list \<Rightarrow> ('m tech_module, tm_reply list) op" where
  "worker_loop h freed [] tm = (Inr [], tm)"
| "worker_loop h freed (msg # q) tm =
     sbind (worker_msg h freed msg) (\<lambda>r.
       if msg = kill_t then sret [r]
       else sbind (worker_loop h freed q) (\<lambda>rs. sret (r # rs))) tm"

section \<open>Requests of other threads\<close>

text \<open>
  \<open>mapping_of\<close>, \<open>join\<close>, \<open>leave\<close> and \<open>leave_all\<close> push a message and wait for its future, so they
  return after the worker has served everything pushed before. An exception in the worker
  thread ends the process. \<open>add_job\<close> only pushes.
\<close>

definition tm_request :: "'m hc_module_handle \<Rightarrow> nat \<Rightarrow> tm_msg \<Rightarrow> ('m tech_module, tm_reply) op" where
  "tm_request h freed msg tm =
     (case worker_loop h freed (m_queue tm @ [msg]) tm of
        (Inr rs, tm') \<Rightarrow> (Inr (last rs), tm'\<lparr>m_queue := []\<rparr>)
      | (Inl e, tm') \<Rightarrow> (Inl (Terminated e), tm'))"

definition mapping_of :: "'m hc_module_handle \<Rightarrow> nat \<Rightarrow> uri \<Rightarrow> ('m tech_module, tm_reply) op" where
  "mapping_of h freed group_uri = tm_request h freed (mapping_lookup_t group_uri)"

definition tm_join :: "'m hc_module_handle \<Rightarrow> nat \<Rightarrow> uri \<Rightarrow> nat \<Rightarrow> ('m tech_module, tm_reply) op" where
  "tm_join h freed what who = tm_request h freed (join_t what who)"

definition tm_leave :: "'m hc_module_handle \<Rightarrow> nat \<Rightarrow> uri \<Rightarrow> nat \<Rightarrow> ('m tech_module, tm_reply) op" where
  "tm_leave h freed what who = tm_request h freed (leave_t what who)"

definition tm_leave_all :: "'m hc_module_handle \<Rightarrow> nat \<Rightarrow> nat \<Rightarrow> ('m tech_module, tm_reply) op" where
  "tm_leave_all h freed who = tm_request h freed (leave_all_t who)"

definition unload :: "'m hc_module_handle \<Rightarrow> nat \<Rightarrow> ('m tech_module, tm_reply) op" where
  "unload h freed = tm_request h freed kill_t"

definition add_job :: "send_job \<Rightarrow> 'm tech_module \<Rightarrow> 'm tech_module" where
  "add_job job tm = tm\<lparr>m_queue := m_queue tm @ [send_job_t job]\<rparr>"

text \<open>
  The queries under \<open>m_mtx\<close>. \<open>closed()\<close> is a null \<open>m_handle\<close>; \<open>load\<close> passes the handle it
  allocated and nothing resets it, so the requirement holds.
\<close>

definition neighbor_set :: "'m hc_module_handle \<Rightarrow> uri list \<Rightarrow> ('m tech_module, uri list) op" where
  "neighbor_set h result =
     sbind (call_module (neighbor_set_fun h)) (\<lambda>l. sret (consume_uri_list (\<lambda>u _. u) result l))"

definition group_set ::
  "'m hc_module_handle \<Rightarrow> (uri \<times> u32) list \<Rightarrow> ('m tech_module, (uri \<times> u32) list) op" where
  "group_set h result =
     sbind (call_module (group_set_fun h)) (\<lambda>l. sret (consume_uri_list (\<lambda>u t. (u, of_int t)) result l))"

definition children_set :: "'m hc_module_handle \<Rightarrow> uri list \<Rightarrow> uri \<Rightarrow> ('m tech_module, uri list) op" where
  "children_set h result u =
     sbind (call_module (children_set_fun h u)) (\<lambda>l. sret (consume_uri_list (\<lambda>u _. u) result l))"

definition parent_set :: "'m hc_module_handle \<Rightarrow> uri list \<Rightarrow> uri \<Rightarrow> ('m tech_module, uri list) op" where
  "parent_set h result u =
     sbind (call_module (parent_set_fun h u)) (\<lambda>l. sret (consume_uri_list (\<lambda>u _. u) result l))"

definition designated_host :: "'m hc_module_handle \<Rightarrow> uri \<Rightarrow> ('m tech_module, bool) op" where
  "designated_host h u = sbind (call_module (designated_host_fun h u)) (\<lambda>rc. sret (rc = 1))"

section \<open>Received packets and events\<close>

text \<open>\<open>new_mcast_packet_msg<Size>\<close> copies the data into an array of \<open>Size\<close> bytes.\<close>

definition new_mcast_packet_msg :: "nat \<Rightarrow> bytes \<Rightarrow> int \<Rightarrow> uri \<Rightarrow> u32 \<Rightarrow> session_msg res" where
  "new_mcast_packet_msg Size data data_size source sck_id =
     (if Size < nat data_size \<or> length data < nat data_size
      then Inl (Undefined_behaviour ''memcpy outside of an array'')
      else Inr (outgoing_mcast_pckt_t Size sck_id source (take (nat data_size) data)))"

definition packet_class :: "int \<Rightarrow> nat" where
  "packet_class len =
     (if len < 128 then 128 else if len < 256 then 256 else if len < 512 then 512
      else if len < 1024 then 1024 else if len < 2048 then 2048 else if len < 4096 then 4096
      else if len < 8192 then 8192 else if len < 16384 then 16384 else if len < 32768 then 32768
      else 65536)"

text \<open>
  The sockets are behind the interface \<open>abstract_socket\<close>: \<open>acquire_bytes\<close> acts on the state
  \<open>'s\<close> of the sockets, \<open>sid\<close> and \<open>parent_session\<close> are constants of a socket. The result is
  the list of messages pushed, each with the session it is pushed to.
\<close>

fun deliver ::
  "(nat \<Rightarrow> nat \<Rightarrow> 's \<Rightarrow> bool \<times> 's) \<Rightarrow> (nat \<Rightarrow> u32) \<Rightarrow> (nat \<Rightarrow> nat) \<Rightarrow> bytes \<Rightarrow> int \<Rightarrow> uri \<Rightarrow> nat list
    \<Rightarrow> ('s, (nat \<times> session_msg) list) op" where
  "deliver acquire_bytes sid parent_session data len source [] h = (Inr [], h)"
| "deliver acquire_bytes sid parent_session data len source (s # socks) h =
     (case acquire_bytes s (nat len) h of
        (True, h') \<Rightarrow>
          (case new_mcast_packet_msg (packet_class len) data len source (sid s) of
             Inl e \<Rightarrow> (Inl e, h')
           | Inr msg \<Rightarrow> sbind (deliver acquire_bytes sid parent_session data len source socks)
                          (\<lambda>ms. sret ((parent_session s, msg) # ms)) h')
      | (False, h') \<Rightarrow> deliver acquire_bytes sid parent_session data len source socks h')"

definition handle_receive ::
  "(nat \<Rightarrow> nat \<Rightarrow> 's \<Rightarrow> bool \<times> 's) \<Rightarrow> (nat \<Rightarrow> u32) \<Rightarrow> (nat \<Rightarrow> nat) \<Rightarrow> 'm tech_module \<Rightarrow> bytes option \<Rightarrow> int \<Rightarrow> uri
    \<Rightarrow> ('s, (nat \<times> session_msg) list) op" where
  "handle_receive acquire_bytes sid parent_session tm data len source h =
     (case data of
        None \<Rightarrow> (Inl (Requirement_failed ''len >= 0 && data''), h)
      | Some d \<Rightarrow>
          if len < 0 then (Inl (Requirement_failed ''len >= 0 && data''), h)
          else if 65536 < len then (Inr [], h)
          else (case map_of (m_joins tm) source of
                  None \<Rightarrow> (Inr [], h)
                | Some (_, lst) \<Rightarrow> deliver acquire_bytes sid parent_session d len source lst h))"

definition recv_callback ::
  "(nat \<Rightarrow> nat \<Rightarrow> 's \<Rightarrow> bool \<times> 's) \<Rightarrow> (nat \<Rightarrow> u32) \<Rightarrow> (nat \<Rightarrow> nat) \<Rightarrow> 'm tech_module option \<Rightarrow> bytes option \<Rightarrow> int
    \<Rightarrow> uri option \<Rightarrow> string option \<Rightarrow> ('s, (nat \<times> session_msg) list) op" where
  "recv_callback acquire_bytes sid parent_session mod_hdl data data_len obj cstr h =
     (case mod_hdl of
        None \<Rightarrow> (Inr [], h)
      | Some self \<Rightarrow>
          if (obj = None \<and> cstr = None) \<or> data = None \<or> data_len \<le> 0 then (Inr [], h)
          else (case obj of
                  Some u \<Rightarrow> handle_receive acquire_bytes sid parent_session self data data_len u h
                | None \<Rightarrow> handle_receive acquire_bytes sid parent_session self data data_len
                            (uri_of (the cstr)) h))"

text \<open>The subscribed sessions, a set ordered by address.\<close>

type_synonym event_subscribers = "(nat, unit) smap"

definition subscribe_events :: "nat \<Rightarrow> event_subscribers \<Rightarrow> event_subscribers" where
  "subscribe_events subscriber s = sm_insert subscriber () s"

definition unsubscribe_events :: "nat \<Rightarrow> event_subscribers \<Rightarrow> event_subscribers" where
  "unsubscribe_events subscriber s = sm_erase subscriber s"

definition deliver_event :: "membership_event \<Rightarrow> event_subscribers \<Rightarrow> (nat \<times> session_msg) list" where
  "deliver_event event s = map (\<lambda>(i, _). (i, membership_event_t event)) s"

definition event_callack ::
  "u32 \<Rightarrow> int \<Rightarrow> uri option \<Rightarrow> string option \<Rightarrow> event_subscribers \<Rightarrow> (nat \<times> session_msg) list res" where
  "event_callack iid etype obj cstr s =
     rbind (hc_require (1 \<le> etype \<and> etype \<le> 3) ''etype >= 1 && etype <= 3'') (\<lambda>_.
     rbind (hc_require (obj \<noteq> None \<or> cstr \<noteq> None) ''(uri_obj) || (uri_cstr)'') (\<lambda>_.
       let group = (case obj of Some u \<Rightarrow> u | None \<Rightarrow> uri_of (the cstr));
           met = (if etype = 1 then join_event else if etype = 2 then leave_event else new_source_event)
       in Inr (deliver_event \<lparr>ev_type = met, ev_iface_id = iid, ev_group = group\<rparr> s)))"

section \<open>The table of all instances\<close>

type_synonym instances_by_id = "(u32, nat) smap"

definition add_instance :: "u32 \<Rightarrow> nat \<Rightarrow> instances_by_id \<Rightarrow> instances_by_id" where
  "add_instance iid obj s_by_id = sm_insert iid obj s_by_id"

definition instances :: "instances_by_id \<Rightarrow> nat list" where
  "instances s_by_id = map snd s_by_id"

definition instance_by_iid :: "u32 \<Rightarrow> instances_by_id \<Rightarrow> nat option" where
  "instance_by_iid iid s_by_id = map_of s_by_id iid"

definition unload_all :: "instances_by_id \<Rightarrow> instances_by_id" where
  "unload_all s_by_id = []"

section \<open>The join tables as a set\<close>

definition members :: "'m tech_module \<Rightarrow> (uri \<times> nat) set" where
  "members tm = {(g, s). \<exists>e. map_of (m_joins tm) g = Some e \<and> s \<in> set (snd e)}"

definition list_ok :: "uri \<Rightarrow> uri \<times> nat list \<Rightarrow> bool" where
  "list_ok g e \<longleftrightarrow> fst e = g \<and> snd e \<noteq> [] \<and> distinct (snd e)"

definition joins_ok :: "'m tech_module \<Rightarrow> bool" where
  "joins_ok tm \<longleftrightarrow> sm_ok (m_joins tm) \<and> (\<forall>g e. map_of (m_joins tm) g = Some e \<longrightarrow> list_ok g e)
     \<and> sm_ok (m_fjoins tm) \<and> um_ok (worker_mappings tm)"

definition mapped :: "'m tech_module \<Rightarrow> uri \<Rightarrow> uri option" where
  "mapped tm = map_of (m_forward_map (worker_mappings tm))"

lemma joins_ok_new [simp]: "joins_ok (new_tech_module iid m sd sz)"
  by (simp add: joins_ok_def new_tech_module_def)

lemma members_new [simp]: "members (new_tech_module iid m sd sz) = {}"
  by (simp add: members_def new_tech_module_def)

lemma members_update [simp]:
  "members (tm\<lparr>m_instance := m\<rparr>) = members tm"
  "members (tm\<lparr>worker_mappings := um\<rparr>) = members tm"
  "members (tm\<lparr>m_fjoins := fj\<rparr>) = members tm"
  "members (tm\<lparr>m_queue := q\<rparr>) = members tm"
  by (simp_all add: members_def)

lemma mapped_update [simp]:
  "mapped (tm\<lparr>m_instance := m\<rparr>) = mapped tm"
  "mapped (tm\<lparr>m_joins := js\<rparr>) = mapped tm"
  "mapped (tm\<lparr>m_fjoins := fj\<rparr>) = mapped tm"
  "mapped (tm\<lparr>m_queue := q\<rparr>) = mapped tm"
  by (simp_all add: mapped_def)

lemma joins_ok_update [simp]:
  "joins_ok (tm\<lparr>m_instance := m\<rparr>) = joins_ok tm"
  "joins_ok (tm\<lparr>m_queue := q\<rparr>) = joins_ok tm"
  by (simp_all add: joins_ok_def)

lemma members_put: "members (tm\<lparr>m_joins := sm_put g (a, l) (m_joins tm)\<rparr>) = {p \<in> members tm. fst p \<noteq> g} \<union> {g} \<times> set l"
  by (auto simp: members_def split: if_splits)

lemma members_erase: "members (tm\<lparr>m_joins := sm_erase g (m_joins tm)\<rparr>) = {p \<in> members tm. fst p \<noteq> g}"
  by (auto simp: members_def split: if_splits)

lemma joins_ok_put:
  "joins_ok tm \<Longrightarrow> list_ok g e \<Longrightarrow> joins_ok (tm\<lparr>m_joins := sm_put g e (m_joins tm)\<rparr>)"
  by (cases e) (simp add: joins_ok_def)

lemma joins_ok_erase: "joins_ok tm \<Longrightarrow> joins_ok (tm\<lparr>m_joins := sm_erase g (m_joins tm)\<rparr>)"
  by (simp add: joins_ok_def)

lemma joins_ok_fjoins: "joins_ok tm \<Longrightarrow> sm_ok fj \<Longrightarrow> joins_ok (tm\<lparr>m_fjoins := fj\<rparr>)"
  by (simp add: joins_ok_def)

lemma joins_ok_list: "joins_ok tm \<Longrightarrow> map_of (m_joins tm) g = Some e \<Longrightarrow> list_ok g e"
  by (cases e) (simp add: joins_ok_def)

lemma sm_ok_fjoins: "joins_ok tm \<Longrightarrow> sm_ok (m_fjoins tm)"
  by (simp add: joins_ok_def)

lemma mem_members: "map_of (m_joins tm) g = Some e \<Longrightarrow> (g, s) \<in> members tm \<longleftrightarrow> s \<in> set (snd e)"
  by (cases e) (simp add: members_def)

lemma not_mem_members: "map_of (m_joins tm) g = None \<Longrightarrow> (g, s) \<notin> members tm"
  by (simp add: members_def)

text \<open>What \<open>add\<close> and \<open>del\<close> leave alone, and what they do to the set.\<close>

definition same_rest :: "'m tech_module \<Rightarrow> 'm tech_module \<Rightarrow> bool" where
  "same_rest tm tm' \<longleftrightarrow> m_instance tm' = m_instance tm \<and> worker_mappings tm' = worker_mappings tm \<and> m_queue tm' = m_queue tm"

lemma add_members:
  assumes ok: "joins_ok tm"
  shows "\<exists>tm'. add s g u tm = (Inr ((g, s) \<notin> members tm), tm') \<and> joins_ok tm' \<and> same_rest tm tm'
    \<and> members tm' = insert (g, s) (members tm)"
proof (cases "map_of (m_joins tm) g")
  case None
  let ?tm = "tm\<lparr>m_joins := sm_put g (g, [s]) (m_joins tm), m_fjoins := sm_put u g (m_fjoins tm)\<rparr>"
  have "add s g u tm = (Inr True, ?tm)" by (simp add: add_def None)
  moreover have "joins_ok ?tm"
    by (intro joins_ok_fjoins joins_ok_put ok) (simp_all add: list_ok_def sm_ok_fjoins ok)
  moreover have "members ?tm = insert (g, s) (members tm)"
    using None by (auto simp: members_put not_mem_members)
  ultimately show ?thesis by (intro exI [of _ ?tm]) (simp add: same_rest_def not_mem_members None)
next
  case (Some e)
  have l: "fst e = g" "snd e \<noteq> []" "distinct (snd e)"
    using joins_ok_list [OF ok Some] by (simp_all add: list_ok_def)
  show ?thesis
  proof (cases "s \<in> set (snd e)")
    case True
    then have "(g, s) \<in> members tm" using Some by (simp add: mem_members)
    with True l ok show ?thesis by (intro exI [of _ tm]) (simp add: add_def Some same_rest_def insert_absorb)
  next
    case False
    let ?tm = "tm\<lparr>m_joins := sm_put g (g, snd e @ [s]) (m_joins tm)\<rparr>"
    have "add s g u tm = (Inr True, ?tm)" using False l by (simp add: add_def Some)
    moreover have "joins_ok ?tm" by (rule joins_ok_put) (use ok l False in \<open>simp_all add: list_ok_def\<close>)
    moreover have "members ?tm = insert (g, s) (members tm)"
      using Some by (auto simp: members_put mem_members)
    ultimately show ?thesis using False Some by (intro exI [of _ ?tm]) (simp add: same_rest_def mem_members)
  qed
qed

definition groups :: "'m tech_module \<Rightarrow> uri set" where
  "groups tm = dom (map_of (m_joins tm))"

lemma groups_members: "joins_ok tm \<Longrightarrow> groups tm = fst ` members tm"
proof (intro set_eqI iffI)
  fix g assume ok: "joins_ok tm" and "g \<in> groups tm"
  then obtain e where e: "map_of (m_joins tm) g = Some e" by (auto simp: groups_def)
  then have "snd e \<noteq> []" using joins_ok_list [OF ok] by (simp add: list_ok_def)
  then have "(g, hd (snd e)) \<in> members tm" using e by (simp add: mem_members)
  then show "g \<in> fst ` members tm" by force
next
  fix g assume "g \<in> fst ` members tm"
  then show "g \<in> groups tm" by (auto simp: groups_def members_def)
qed

lemma joins_ok_entry:
  assumes "joins_ok tm" "map_of (m_joins tm) g = Some e"
  obtains l where "e = (g, l)" "l \<noteq> []" "distinct l"
  using joins_ok_list [OF assms] by (cases e) (auto simp: list_ok_def)

text \<open>What the result of \<open>del\<close> says and does, as a predicate on result and state.\<close>

definition del_post :: "nat \<Rightarrow> nat \<Rightarrow> uri \<Rightarrow> 'm tech_module \<Rightarrow> bool \<times> nat \<Rightarrow> 'm tech_module \<Rightarrow> bool" where
  "del_post freed s g tm r tm' \<longleftrightarrow> joins_ok tm' \<and> same_rest tm tm' \<and> members tm' = members tm - {(g, s)}
     \<and> fst r = ((g, s) \<in> members tm)
     \<and> ((g, s) \<in> members tm \<longrightarrow> (if g \<in> groups tm' then 0 < snd r else snd r = freed))"

lemma del_last:
  assumes ok: "joins_ok tm" and e: "map_of (m_joins tm) g = Some (g, [s])"
  shows "del_post freed s g tm (True, freed)
    (tm\<lparr>m_joins := sm_erase g (m_joins tm), m_fjoins := sm_erase u (m_fjoins tm)\<rparr>)" (is "del_post _ _ _ _ _ ?tm")
proof -
  have m: "(g, t) \<in> members tm \<longleftrightarrow> t = s" for t using e by (simp add: mem_members)
  have "p \<in> members ?tm \<longleftrightarrow> p \<in> members tm - {(g, s)}" for p
    using m [of "snd p"] by (cases p) (auto simp: members_erase)
  then have "members ?tm = members tm - {(g, s)}" by blast
  moreover have "g \<notin> groups ?tm" by (simp add: groups_def domIff)
  moreover have "joins_ok ?tm" by (intro joins_ok_fjoins joins_ok_erase ok) (simp add: sm_ok_fjoins ok)
  ultimately show ?thesis using m by (simp add: del_post_def same_rest_def)
qed

lemma del_one:
  assumes ok: "joins_ok tm" and e: "map_of (m_joins tm) g = Some (g, l)" and l: "distinct l" "s \<in> set l" "remove1 s l \<noteq> []"
  shows "del_post freed s g tm (True, length (remove1 s l))
    (tm\<lparr>m_joins := sm_put g (g, remove1 s l) (m_joins tm)\<rparr>)" (is "del_post _ _ _ _ _ ?tm")
proof -
  have m: "(g, t) \<in> members tm \<longleftrightarrow> t \<in> set l" for t using e by (simp add: mem_members)
  have "p \<in> members ?tm \<longleftrightarrow> p \<in> members tm - {(g, s)}" for p
    using m [of "snd p"] l by (cases p) (auto simp: members_put)
  then have "members ?tm = members tm - {(g, s)}" by blast
  moreover have "g \<in> groups ?tm" by (simp add: groups_def domIff)
  moreover have "joins_ok ?tm" by (rule joins_ok_put) (use ok l in \<open>simp_all add: list_ok_def\<close>)
  moreover have "0 < length (remove1 s l)" using l(3) by (rule length_greater_0_conv [THEN iffD2])
  ultimately show ?thesis using m l(2) by (simp add: del_post_def same_rest_def)
qed

lemma del_members:
  assumes ok: "joins_ok tm"
  obtains r tm' where "del freed s g u tm = (Inr r, tm')" "del_post freed s g tm r tm'"
proof (cases "map_of (m_joins tm) g")
  case None
  then have "del_post freed s g tm (False, 0) tm" using ok by (simp add: del_post_def same_rest_def not_mem_members)
  with None show ?thesis by (intro that [of "(False, 0)" tm]) (simp_all add: del_def)
next
  case (Some e)
  with ok obtain l where el: "e = (g, l)" "l \<noteq> []" "distinct l" by (rule joins_ok_entry)
  with Some have e: "map_of (m_joins tm) g = Some (g, l)" by simp
  consider "s \<notin> set l" | "l = [s]" | "s \<in> set l" "remove1 s l \<noteq> []"
    using el(2,3) by (cases l; cases "s = hd l") auto
  then show ?thesis
  proof cases
    case 1
    then have "del_post freed s g tm (False, length l) tm" using ok e by (simp add: del_post_def same_rest_def mem_members)
    with 1 show ?thesis by (intro that [of "(False, length l)" tm]) (simp_all add: del_def e)
  next
    case 2
    from del_last [OF ok e [unfolded 2], of freed u] show ?thesis
      by (rule that [rotated]) (simp add: del_def e 2)
  next
    case 3
    from del_one [OF ok e el(3) 3, of freed] show ?thesis
      by (rule that [rotated]) (use 3 in \<open>simp add: del_def e Let_def\<close>)
  qed
qed

lemma del_from_lists_eq:
  assumes "\<forall>(g, e) \<in> set js. list_ok g e"
  shows "\<exists>fj'. del_from_lists s js fj =
    (map (\<lambda>(g, f, l). (g, f, remove1 s l)) js, map fst (filter (\<lambda>(g, f, l). l = [s]) js), fj') \<and> (sm_ok fj \<longrightarrow> sm_ok fj')"
  using assms
proof (induction js arbitrary: fj)
  case Nil
  then show ?case by simp
next
  case (Cons p js)
  obtain g f l where p: "p = (g, f, l)" by (cases p)
  have l: "l \<noteq> []" "distinct l" using Cons.prems by (simp_all add: p list_ok_def)
  have em: "s \<in> set l \<and> remove1 s l = [] \<longleftrightarrow> l = [s]"
    using l by (cases l; cases "s = hd l") auto
  obtain fj' where "del_from_lists s js (if l = [s] then sm_erase f fj else fj) =
      (map (\<lambda>(g, f, l). (g, f, remove1 s l)) js, map fst (filter (\<lambda>(g, f, l). l = [s]) js), fj')"
    and "sm_ok fj \<longrightarrow> sm_ok fj'"
    using Cons.IH [of "if l = [s] then sm_erase f fj else fj"] Cons.prems by (auto split: if_splits)
  then show ?case by (auto simp: p em Let_def)
qed

lemma leave_emptied_result:
  "leave_emptied h gs tm = (Inr x, tm') \<Longrightarrow>
     tm' = tm\<lparr>m_joins := filter (\<lambda>p. fst p \<notin> set gs) (m_joins tm),
              m_instance := fold (\<lambda>g m. snd (leave_fun h g m)) gs (m_instance tm)\<rparr>"
proof (induction gs arbitrary: tm)
  case Nil
  then show ?case by simp
next
  case (Cons g gs)
  obtain rc m where c: "leave_fun h g (m_instance tm) = (rc, m)" by force
  have "leave_emptied h gs (tm\<lparr>m_joins := sm_erase g (m_joins tm), m_instance := m\<rparr>) = (Inr x, tm')"
    using Cons.prems by (auto simp: sbind_eq_Inr call_module_def c srequire_def split: if_splits)
  from Cons.IH [OF this] show ?case by (simp add: c sm_erase_def) 
qed

lemma members_set: "sm_ok (m_joins tm) \<Longrightarrow> (g, x) \<in> members tm \<longleftrightarrow> (\<exists>f l. (g, f, l) \<in> set (m_joins tm) \<and> x \<in> set l)"
  by (auto simp: members_def map_of_in_set)

lemma joins_ok_set:
  "joins_ok tm \<longleftrightarrow> sm_ok (m_joins tm) \<and> (\<forall>(g, e) \<in> set (m_joins tm). list_ok g e) \<and> sm_ok (m_fjoins tm) \<and> um_ok (worker_mappings tm)"
  by (auto simp: joins_ok_def map_of_in_set)

text \<open>The table that \<open>del_all\<close> leaves behind when every \<open>leave_fun\<close> succeeds.\<close>

definition without :: "nat \<Rightarrow> (uri, uri \<times> nat list) smap \<Rightarrow> (uri, uri \<times> nat list) smap" where
  "without s js = map (\<lambda>(g, f, l). (g, f, remove1 s l)) (filter (\<lambda>(g, f, l). l \<noteq> [s]) js)"

definition emptied_by :: "nat \<Rightarrow> (uri, uri \<times> nat list) smap \<Rightarrow> uri list" where
  "emptied_by s js = map fst (filter (\<lambda>(g, f, l). l = [s]) js)"

lemma mem_emptied_by: "g \<in> set (emptied_by s js) \<longleftrightarrow> (\<exists>f. (g, f, [s]) \<in> set js)"
  by (force simp: emptied_by_def)

lemma emptied_by_iff: "sm_ok js \<Longrightarrow> (g, f, l) \<in> set js \<Longrightarrow> g \<in> set (emptied_by s js) \<longleftrightarrow> l = [s]"
  unfolding mem_emptied_by by (metis Pair_inject sm_unique)

lemma without_eq:
  assumes "sm_ok js"
  shows "filter (\<lambda>p. fst p \<notin> set (emptied_by s js)) (map (\<lambda>(g, f, l). (g, f, remove1 s l)) js) = without s js"
proof -
  have "filter (\<lambda>p. fst p \<notin> set (emptied_by s js)) js = filter (\<lambda>(g, f, l). l \<noteq> [s]) js"
  proof (rule filter_cong)
    fix p assume p: "p \<in> set js"
    show "(fst p \<notin> set (emptied_by s js)) = (case p of (g, f, l) \<Rightarrow> l \<noteq> [s])"
      using p emptied_by_iff [OF assms] by (cases p rule: prod_cases3) auto
  qed simp
  then show ?thesis by (simp add: without_def filter_map comp_def case_prod_beta)
qed

lemma del_all_result:
  assumes ok: "joins_ok tm" and r: "del_all h s tm = (Inr x, tm')"
  shows "\<exists>fj. sm_ok fj \<and> tm' = tm\<lparr>m_joins := without s (m_joins tm), m_fjoins := fj,
    m_instance := fold (\<lambda>g m. snd (leave_fun h g m)) (emptied_by s (m_joins tm)) (m_instance tm)\<rparr>"
proof -
  have l: "\<forall>(g, e) \<in> set (m_joins tm). list_ok g e" "sm_ok (m_joins tm)" "sm_ok (m_fjoins tm)"
    using ok by (simp_all add: joins_ok_set)
  from del_from_lists_eq [OF l(1), of s "m_fjoins tm"] l(3) obtain fj where "sm_ok fj"
    and "del_from_lists s (m_joins tm) (m_fjoins tm) =
      (map (\<lambda>(g, f, l). (g, f, remove1 s l)) (m_joins tm), emptied_by s (m_joins tm), fj)"
    by (auto simp: emptied_by_def)
  moreover from this(2) r have "leave_emptied h (emptied_by s (m_joins tm))
      (tm\<lparr>m_joins := map (\<lambda>(g, f, l). (g, f, remove1 s l)) (m_joins tm), m_fjoins := fj\<rparr>) = (Inr x, tm')"
    by (simp add: del_all_def)
  from leave_emptied_result [OF this] have "tm' = tm\<lparr>m_joins := without s (m_joins tm), m_fjoins := fj,
    m_instance := fold (\<lambda>g m. snd (leave_fun h g m)) (emptied_by s (m_joins tm)) (m_instance tm)\<rparr>"
    by (simp add: without_eq l)
  ultimately show ?thesis by blast
qed

lemma mem_without: "(g, f, l') \<in> set (without s js) \<longleftrightarrow> (\<exists>l. (g, f, l) \<in> set js \<and> l \<noteq> [s] \<and> l' = remove1 s l)"
proof
  assume "(g, f, l') \<in> set (without s js)"
  then obtain q where q: "q \<in> set js" "case q of (g, f, l) \<Rightarrow> l \<noteq> [s]" "(g, f, l') = (case q of (g, f, l) \<Rightarrow> (g, f, remove1 s l))"
    unfolding without_def set_map set_filter by blast
  then show "\<exists>l. (g, f, l) \<in> set js \<and> l \<noteq> [s] \<and> l' = remove1 s l" by (cases q rule: prod_cases3) auto
next
  assume "\<exists>l. (g, f, l) \<in> set js \<and> l \<noteq> [s] \<and> l' = remove1 s l"
  then obtain l where l: "(g, f, l) \<in> set js" "l \<noteq> [s]" "l' = remove1 s l" by blast
  show "(g, f, l') \<in> set (without s js)"
    unfolding without_def set_map set_filter by (rule image_eqI [of _ _ "(g, f, l)"]) (use l in simp_all)
qed

lemma sm_ok_without: "sm_ok js \<Longrightarrow> sm_ok (without s js)"
  unfolding without_def by (subst sm_ok_map) (auto simp: case_prod_beta)

lemma remove1_list_ok:
  "list_ok g (f, l) \<Longrightarrow> l \<noteq> [s] \<Longrightarrow> list_ok g (f, remove1 s l) \<and> set (remove1 s l) = set l - {s}"
  by (cases l; cases "s = hd l") (auto simp: list_ok_def)

lemma members_without:
  assumes "joins_ok tm"
  shows "members (tm\<lparr>m_joins := without s (m_joins tm)\<rparr>) = {p \<in> members tm. snd p \<noteq> s}"
    and "joins_ok (tm\<lparr>m_joins := without s (m_joins tm)\<rparr>)"
proof -
  have ok: "sm_ok (m_joins tm)" and lo: "(g, f, l) \<in> set (m_joins tm) \<Longrightarrow> list_ok g (f, l)" for g f l
    using assms by (auto simp: joins_ok_set)
  have "(g, x) \<in> members (tm\<lparr>m_joins := without s (m_joins tm)\<rparr>) \<longleftrightarrow> (g, x) \<in> members tm \<and> x \<noteq> s" for g x
  proof -
    have "(g, x) \<in> members (tm\<lparr>m_joins := without s (m_joins tm)\<rparr>)
        \<longleftrightarrow> (\<exists>f l. (g, f, l) \<in> set (m_joins tm) \<and> l \<noteq> [s] \<and> x \<in> set (remove1 s l))"
      by (subst members_set) (auto simp: sm_ok_without ok mem_without)
    also have "\<dots> \<longleftrightarrow> (\<exists>f l. (g, f, l) \<in> set (m_joins tm) \<and> x \<in> set l \<and> x \<noteq> s)"
      using remove1_list_ok [OF lo] by (metis Diff_iff empty_iff insert_iff list.set(1) list.set(2))
    finally show ?thesis using members_set [OF ok] by auto
  qed
  then show "members (tm\<lparr>m_joins := without s (m_joins tm)\<rparr>) = {p \<in> members tm. snd p \<noteq> s}" by auto
  have "list_ok g (f, l)" if "(g, f, l) \<in> set (without s (m_joins tm))" for g f l
    using that remove1_list_ok [OF lo] unfolding mem_without by blast
  with assms show "joins_ok (tm\<lparr>m_joins := without s (m_joins tm)\<rparr>)" by (auto simp: joins_ok_set sm_ok_without)
qed

lemma mem_groups: "sm_ok (m_joins tm) \<Longrightarrow> g \<in> groups tm \<longleftrightarrow> (\<exists>f l. (g, f, l) \<in> set (m_joins tm))"
  by (simp add: groups_def domIff not_None_eq map_of_in_set)

lemma set_emptied_by:
  assumes "joins_ok tm"
  shows "set (emptied_by s (m_joins tm)) = groups tm - groups (tm\<lparr>m_joins := without s (m_joins tm)\<rparr>)"
proof (rule set_eqI)
  fix g
  have ok: "sm_ok (m_joins tm)" using assms by (simp add: joins_ok_set)
  have w: "g \<in> groups (tm\<lparr>m_joins := without s (m_joins tm)\<rparr>) \<longleftrightarrow> (\<exists>f l. (g, f, l) \<in> set (m_joins tm) \<and> l \<noteq> [s])"
    by (subst mem_groups) (auto simp: sm_ok_without ok mem_without)
  show "g \<in> set (emptied_by s (m_joins tm)) \<longleftrightarrow> g \<in> groups tm - groups (tm\<lparr>m_joins := without s (m_joins tm)\<rparr>)"
    unfolding Diff_iff mem_emptied_by w mem_groups [OF ok] by (metis Pair_inject sm_unique [OF ok])
qed

section \<open>The worker refines the set\<close>

lemma sbind_InrE:
  assumes "sbind m f s = (Inr y, s'')"
  obtains x s' where "m s = (Inr x, s')" "f x s' = (Inr y, s'')"
  using assms by (auto simp: sbind_eq_Inr)

lemma forward_lookup_with_keeps:
  assumes "sm_ok (m_forward_map um)" "forward_lookup_with mf what um = (r, um')" "map_of (m_forward_map um) u = Some v"
  shows "map_of (m_forward_map um') u = Some v"
  using assms
  by (cases "u = what") (auto simp: forward_lookup_with_def split: option.splits sum.splits if_splits)

lemma worker_lookup_result:
  assumes ok: "joins_ok tm" and l: "worker_lookup h u tm = (r, tm')"
  obtains m um where "tm' = tm\<lparr>m_instance := m, worker_mappings := um\<rparr>" "joins_ok tm'"
    "\<And>g. r = Inr g \<Longrightarrow> mapped tm' u = Some g" "mapped tm \<subseteq>\<^sub>m mapped tm'" "m = m_instance tm \<or> m = snd (map_fun h u (m_instance tm))"
proof -
  obtain res m where c: "map_fun h u (m_instance tm) = (res, m)" by force
  obtain r' um where f: "forward_lookup_with (\<lambda>_. Inr (tm_mapping_helper res)) u (worker_mappings tm) = (r', um)" by force
  let ?m = "if map_of (m_forward_map (worker_mappings tm)) u = None then m else m_instance tm"
  have eq: "r = r'" "tm' = tm\<lparr>m_instance := ?m, worker_mappings := um\<rparr>"
    using l by (simp_all add: worker_lookup_def c f)
  have um: "um_ok (worker_mappings tm)" using ok by (simp add: joins_ok_def)
  then have "sm_ok (m_forward_map (worker_mappings tm))" by (simp add: um_ok_def)
  note r = forward_lookup_with_ok [OF um f] forward_lookup_with_keeps [OF this f]
  have "joins_ok tm'" using ok r(1) by (simp add: eq joins_ok_def)
  moreover have "mapped tm' u = Some g" if "r = Inr g" for g using r(1) that by (simp add: eq mapped_def)
  moreover have "mapped tm \<subseteq>\<^sub>m mapped tm'" using r(2) by (auto simp: map_le_def eq mapped_def)
  ultimately show ?thesis using eq c by (intro that [of um ?m]) simp_all
qed

text \<open>
  The abstract module: a set of pairs (group in the module's naming, socket). \<open>mp\<close> is the
  naming.
\<close>

fun member_spec :: "(uri \<Rightarrow> uri option) \<Rightarrow> tm_msg \<Rightarrow> (uri \<times> nat) set \<Rightarrow> (uri \<times> nat) set" where
  "member_spec mp (join_t u s) M = (case mp u of Some g \<Rightarrow> insert (g, s) M | None \<Rightarrow> M)"
| "member_spec mp (leave_t u s) M = (case mp u of Some g \<Rightarrow> M - {(g, s)} | None \<Rightarrow> M)"
| "member_spec mp (leave_all_t s) M = {p \<in> M. snd p \<noteq> s}"
| "member_spec mp _ M = M"

fun reply_spec :: "(uri \<Rightarrow> uri option) \<Rightarrow> tm_msg \<Rightarrow> (uri \<times> nat) set \<Rightarrow> tm_reply" where
  "reply_spec mp (mapping_lookup_t u) M = (case mp u of Some g \<Rightarrow> f_uri g | None \<Rightarrow> no_future)"
| "reply_spec mp (send_job_t j) M = no_future"
| "reply_spec mp (join_t u s) M = (case mp u of Some g \<Rightarrow> f_bool ((g, s) \<notin> M) | None \<Rightarrow> no_future)"
| "reply_spec mp (leave_t u s) M = (case mp u of Some g \<Rightarrow> f_bool ((g, s) \<in> M) | None \<Rightarrow> no_future)"
| "reply_spec mp _ M = f_bool True"

fun replies_spec :: "(uri \<Rightarrow> uri option) \<Rightarrow> tm_msg list \<Rightarrow> (uri \<times> nat) set \<Rightarrow> tm_reply list" where
  "replies_spec mp [] M = []"
| "replies_spec mp (msg # q) M = reply_spec mp msg M # replies_spec mp q (member_spec mp msg M)"

definition names :: "tm_msg \<Rightarrow> uri set" where
  "names msg = (case msg of mapping_lookup_t u \<Rightarrow> {u} | join_t u s \<Rightarrow> {u} | leave_t u s \<Rightarrow> {u} | _ \<Rightarrow> {})"

lemma spec_mono:
  assumes "mp \<subseteq>\<^sub>m mp'" "names msg \<subseteq> dom mp"
  shows "member_spec mp' msg M = member_spec mp msg M" "reply_spec mp' msg M = reply_spec mp msg M"
  using assms by (cases msg; force simp: names_def map_le_def)+

definition refines_step :: "'m tech_module \<Rightarrow> tm_msg \<Rightarrow> tm_reply \<Rightarrow> 'm tech_module \<Rightarrow> bool" where
  "refines_step tm msg r tm' \<longleftrightarrow> joins_ok tm' \<and> mapped tm \<subseteq>\<^sub>m mapped tm' \<and> names msg \<subseteq> dom (mapped tm')
     \<and> members tm' = member_spec (mapped tm') msg (members tm) \<and> r = reply_spec (mapped tm') msg (members tm)"

lemma length_replies_spec [simp]: "length (replies_spec mp q M) = length q"
  by (induction q arbitrary: M) simp_all

lemma same_rest_mapped: "same_rest tm tm' \<Longrightarrow> mapped tm' = mapped tm"
  by (simp add: same_rest_def mapped_def)

lemma joins_ok_same_rest: "joins_ok tm \<Longrightarrow> joins_ok (tm\<lparr>m_instance := m\<rparr>)"
  by simp

lemma join_refines:
  assumes ok: "joins_ok tm" and w: "worker_msg h freed (join_t u s) tm = (Inr r, tm')"
  shows "refines_step tm (join_t u s) r tm'"
proof -
  from w obtain g tm1 where l: "worker_lookup h u tm = (Inr g, tm1)"
    unfolding worker_msg.simps by (rule sbind_InrE)
  from ok l obtain m um where tm1: "tm1 = tm\<lparr>m_instance := m, worker_mappings := um\<rparr>" and ok1: "joins_ok tm1"
    and g: "mapped tm1 u = Some g" and le: "mapped tm \<subseteq>\<^sub>m mapped tm1"
    by (rule worker_lookup_result) simp
  have M: "members tm1 = members tm" by (simp add: tm1)
  from add_members [OF ok1, of s g u] obtain tm2 where a: "add s g u tm1 = (Inr ((g, s) \<notin> members tm1), tm2)"
    and ok2: "joins_ok tm2" "same_rest tm1 tm2" "members tm2 = insert (g, s) (members tm1)" by blast
  obtain rc m' where j: "join_fun h g (m_instance tm2) = (rc, m')" by force
  have "worker_msg h freed (join_t u s) tm =
      (if (g, s) \<notin> members tm1 then sbind (call_module (join_fun h g)) (\<lambda>rc.
         sbind (srequire (rc = HC_SUCCESS) ''m_handle->join_fun(m_instance, &mapped, mapped.c_str()) == HC_SUCCESS'')
           (\<lambda>_. sret (f_bool True))) tm2 else (Inr (f_bool False), tm2))"
    by (simp add: sbind_def l a)
  with w have "(\<exists>m'. tm' = tm2\<lparr>m_instance := m'\<rparr>) \<and> r = f_bool ((g, s) \<notin> members tm1)"
    by (auto simp: sbind_def call_module_def j srequire_def split: if_splits intro: exI [of _ "m_instance tm2"])
  then obtain m' where "tm' = tm2\<lparr>m_instance := m'\<rparr>" "r = f_bool ((g, s) \<notin> members tm1)" by blast
  with ok2 g le M show ?thesis by (auto simp: refines_step_def names_def same_rest_mapped)
qed

lemma leave_refines:
  assumes ok: "joins_ok tm" and w: "worker_msg h freed (leave_t u s) tm = (Inr r, tm')"
  shows "refines_step tm (leave_t u s) r tm'"
proof -
  from w obtain g tm1 where l: "worker_lookup h u tm = (Inr g, tm1)"
    unfolding worker_msg.simps by (rule sbind_InrE)
  from ok l obtain m um where tm1: "tm1 = tm\<lparr>m_instance := m, worker_mappings := um\<rparr>" and ok1: "joins_ok tm1"
    and g: "mapped tm1 u = Some g" and le: "mapped tm \<subseteq>\<^sub>m mapped tm1"
    by (rule worker_lookup_result) simp
  have M: "members tm1 = members tm" by (simp add: tm1)
  from ok1 obtain res tm2 where d: "del freed s g u tm1 = (Inr res, tm2)" and p: "del_post freed s g tm1 res tm2"
    by (rule del_members)
  obtain rc m' where j: "leave_fun h g (m_instance tm2) = (rc, m')" by force
  have "worker_msg h freed (leave_t u s) tm =
      (if fst res then
         sbind (if snd res = 0 then
                  sbind (call_module (leave_fun h g)) (\<lambda>rc.
                    srequire (rc = HC_SUCCESS) ''m_handle->leave_fun(m_instance, &mapped, mapped.c_str()) == HC_SUCCESS'')
                else sret ())
           (\<lambda>_. sret (f_bool True)) tm2
       else (Inr (f_bool False), tm2))"
    by (simp add: sbind_def l d)
  with w have "(\<exists>m'. tm' = tm2\<lparr>m_instance := m'\<rparr>) \<and> r = f_bool (fst res)"
    by (cases "fst res"; cases "snd res = 0"; cases "rc = HC_SUCCESS")
      (auto simp: sbind_def call_module_def j srequire_def intro: exI [of _ "m_instance tm2"])
  then obtain m' where "tm' = tm2\<lparr>m_instance := m'\<rparr>" "r = f_bool (fst res)" by blast
  moreover from p have "joins_ok tm2" "same_rest tm1 tm2" "members tm2 = members tm1 - {(g, s)}" "fst res = ((g, s) \<in> members tm1)"
    by (simp_all add: del_post_def)
  ultimately show ?thesis using g le M by (simp add: refines_step_def names_def same_rest_mapped domIff)
qed

lemma leave_all_refines:
  assumes ok: "joins_ok tm" and w: "worker_msg h freed (leave_all_t s) tm = (Inr r, tm')"
  shows "refines_step tm (leave_all_t s) r tm'"
proof -
  from w have d: "del_all h s tm = (Inr (), tm')" and r: "r = f_bool True" by (auto simp: sbind_eq_Inr)
  from del_all_result [OF ok d] obtain fj where fj: "sm_ok fj" and tm': "tm' = tm\<lparr>m_joins := without s (m_joins tm),
    m_fjoins := fj, m_instance := fold (\<lambda>g m. snd (leave_fun h g m)) (emptied_by s (m_joins tm)) (m_instance tm)\<rparr>" by blast
  from joins_ok_fjoins [OF members_without(2) [OF ok] fj, of s] have "joins_ok tm'" by (simp add: tm')
  then show ?thesis using members_without(1) [OF ok, of s] by (simp add: refines_step_def names_def r tm')
qed

lemma worker_lookup_members:
  assumes "joins_ok tm" "worker_lookup h u tm = (r, tm')"
  shows "joins_ok tm' \<and> members tm' = members tm \<and> mapped tm \<subseteq>\<^sub>m mapped tm' \<and> (\<forall>g. r = Inr g \<longrightarrow> mapped tm' u = Some g)"
  using assms by (rule worker_lookup_result) simp

lemma lookup_refines:
  assumes ok: "joins_ok tm" and w: "worker_msg h freed (mapping_lookup_t u) tm = (Inr r, tm')"
  shows "refines_step tm (mapping_lookup_t u) r tm'"
proof -
  from w obtain g where l: "worker_lookup h u tm = (Inr g, tm')" and "r = f_uri g"
    unfolding worker_msg.simps by (rule sbind_InrE) simp
  with worker_lookup_members [OF ok l] show ?thesis by (simp add: refines_step_def names_def domIff)
qed

lemma send_refines:
  assumes ok: "joins_ok tm" and w: "worker_msg h freed (send_job_t j) tm = (Inr r, tm')"
  shows "refines_step tm (send_job_t j) r tm'"
proof -
  obtain r1 tm1 where l: "worker_lookup h (m_receiver j) tm = (r1, tm1)" by force
  have "(\<exists>m. tm' = tm1\<lparr>m_instance := m\<rparr>) \<and> r = no_future"
  proof (cases r1)
    case (Inl e)
    with w show ?thesis by (cases e) (auto simp: l intro: exI [of _ "m_instance tm1"])
  next
    case (Inr g)
    with w show ?thesis
      by (cases "sendto_fun h (msg_content (m_msg j)) (msg_content_size (m_msg j)) (job_ttl j) g (m_instance tm1)")
        (auto simp: l sbind_def call_module_def)
  qed
  then obtain m where "tm' = tm1\<lparr>m_instance := m\<rparr>" "r = no_future" by blast
  with worker_lookup_members [OF ok l] show ?thesis by (simp add: refines_step_def names_def)
qed

lemma kill_refines:
  "joins_ok tm \<Longrightarrow> worker_msg h freed kill_t tm = (Inr r, tm') \<Longrightarrow> refines_step tm kill_t r tm'"
  by (auto simp: refines_step_def names_def sbind_def call_module_def)

lemma worker_refines:
  assumes "joins_ok tm" "worker_msg h freed msg tm = (Inr r, tm')"
  shows "refines_step tm msg r tm'"
  using assms
  by (cases msg) (simp_all only: lookup_refines send_refines join_refines leave_refines leave_all_refines kill_refines)

lemma worker_loop_refines:
  assumes "joins_ok tm" "worker_loop h freed q tm = (Inr rs, tm')" "kill_t \<notin> set q"
  shows "joins_ok tm' \<and> mapped tm \<subseteq>\<^sub>m mapped tm' \<and> members tm' = fold (member_spec (mapped tm')) q (members tm)
    \<and> rs = replies_spec (mapped tm') q (members tm) \<and> (\<forall>msg \<in> set q. names msg \<subseteq> dom (mapped tm'))"
  using assms
proof (induction q arbitrary: tm rs)
  case Nil
  then show ?case by simp
next
  case (Cons msg q)
  then obtain r tm1 rs1 where w: "worker_msg h freed msg tm = (Inr r, tm1)" and q: "worker_loop h freed q tm1 = (Inr rs1, tm')"
    and rs: "rs = r # rs1" by (auto simp: sbind_eq_Inr split: if_splits)
  from worker_refines [OF Cons.prems(1) w] have s: "joins_ok tm1" "mapped tm \<subseteq>\<^sub>m mapped tm1" "names msg \<subseteq> dom (mapped tm1)"
    "members tm1 = member_spec (mapped tm1) msg (members tm)" "r = reply_spec (mapped tm1) msg (members tm)"
    by (simp_all add: refines_step_def)
  from Cons.IH [OF s(1) q] Cons.prems(3) have i: "joins_ok tm'" "mapped tm1 \<subseteq>\<^sub>m mapped tm'"
    "members tm' = fold (member_spec (mapped tm')) q (members tm1)" "rs1 = replies_spec (mapped tm') q (members tm1)"
    "\<forall>msg \<in> set q. names msg \<subseteq> dom (mapped tm')" by auto
  have "names msg \<subseteq> dom (mapped tm')" using s(3) map_le_implies_dom_le [OF i(2)] by blast
  with spec_mono [OF i(2) s(3)] s i show ?case
    by (simp add: rs map_le_trans [OF s(2) i(2)])
qed

section \<open>The module is a member of the groups somebody listens to\<close>

text \<open>
  What a module promises: \<open>jg m\<close> are the groups its instance is a member of. Joining and
  leaving succeed and have their effect, mapping and sending do not change the groups.
\<close>

definition keeps_groups :: "'m hc_module_handle \<Rightarrow> ('m \<Rightarrow> uri set) \<Rightarrow> bool" where
  "keeps_groups h jg \<longleftrightarrow>
     (\<forall>g m. fst (join_fun h g m) = HC_SUCCESS \<and> jg (snd (join_fun h g m)) = insert g (jg m))
   \<and> (\<forall>g m. fst (leave_fun h g m) = HC_SUCCESS \<and> jg (snd (leave_fun h g m)) = jg m - {g})
   \<and> (\<forall>u m. jg (snd (map_fun h u m)) = jg m)
   \<and> (\<forall>d n t u m. jg (snd (sendto_fun h d n t u m)) = jg m)"

definition maps_by :: "'m hc_module_handle \<Rightarrow> (uri \<Rightarrow> uri) \<Rightarrow> bool" where
  "maps_by h f \<longleftrightarrow> (\<forall>u m. u \<noteq> default_uri \<longrightarrow> tm_mapping_helper (fst (map_fun h u m)) = f u \<and> f u \<noteq> default_uri)
     \<and> inj_on f (- {default_uri})"

definition named_by :: "(uri \<Rightarrow> uri) \<Rightarrow> 'm tech_module \<Rightarrow> bool" where
  "named_by f tm \<longleftrightarrow> (\<forall>u g. mapped tm u = Some g \<longrightarrow> u \<noteq> default_uri \<and> g = f u)"

text \<open>The uris of a message are not empty: the callers of the module check this.\<close>

fun addressed :: "tm_msg \<Rightarrow> bool" where
  "addressed (mapping_lookup_t u) \<longleftrightarrow> u \<noteq> default_uri"
| "addressed (send_job_t j) \<longleftrightarrow> m_receiver j \<noteq> default_uri"
| "addressed (join_t u s) \<longleftrightarrow> u \<noteq> default_uri"
| "addressed (leave_t u s) \<longleftrightarrow> u \<noteq> default_uri"
| "addressed (leave_all_t s) \<longleftrightarrow> True"
| "addressed kill_t \<longleftrightarrow> True"

definition in_step :: "('m \<Rightarrow> uri set) \<Rightarrow> 'm tech_module \<Rightarrow> bool" where
  "in_step jg tm \<longleftrightarrow> jg (m_instance tm) = groups tm"

lemma groups_update [simp]:
  "groups (tm\<lparr>m_instance := m\<rparr>) = groups tm"
  "groups (tm\<lparr>worker_mappings := um\<rparr>) = groups tm"
  "groups (tm\<lparr>m_fjoins := fj\<rparr>) = groups tm"
  "groups (tm\<lparr>m_queue := q\<rparr>) = groups tm"
  by (simp_all add: groups_def)

lemma named_by_same_rest: "same_rest tm tm' \<Longrightarrow> named_by f tm' = named_by f tm"
  by (simp add: named_by_def same_rest_mapped)

lemma named_by_update [simp]:
  "named_by f (tm\<lparr>m_instance := m\<rparr>) = named_by f tm"
  "named_by f (tm\<lparr>m_joins := js\<rparr>) = named_by f tm"
  "named_by f (tm\<lparr>m_fjoins := fj\<rparr>) = named_by f tm"
  "named_by f (tm\<lparr>m_queue := q\<rparr>) = named_by f tm"
  by (simp_all add: named_by_def)

lemma worker_lookup_named:
  assumes h: "maps_by h f" and tm: "joins_ok tm" "named_by f tm" and u: "u \<noteq> default_uri"
  shows "\<exists>tm'. worker_lookup h u tm = (Inr (f u), tm') \<and> named_by f tm' \<and> groups tm' = groups tm
    \<and> (m_instance tm' = m_instance tm \<or> m_instance tm' = snd (map_fun h u (m_instance tm)))"
proof (cases "map_of (m_forward_map (worker_mappings tm)) u")
  case (Some g)
  with tm(2) have "g = f u" by (simp add: named_by_def mapped_def)
  with Some have "worker_lookup h u tm = (Inr (f u), tm)"
    by (simp add: worker_lookup_def forward_lookup_with_def split: prod.splits)
  with tm show ?thesis by blast
next
  case None
  obtain res m where c: "map_fun h u (m_instance tm) = (res, m)" by force
  have f: "tm_mapping_helper res = f u" "\<not> uri_is_empty (f u)" "inj_on f (- {default_uri})"
    using h c u unfolding maps_by_def default_uri_iff [symmetric] by (metis fst_conv)+
  have um: "um_ok (worker_mappings tm)" using tm(1) by (simp add: joins_ok_def)
  have rev: "map_of (m_reverse_map (worker_mappings tm)) (f u) = None"
  proof (rule ccontr)
    assume "map_of (m_reverse_map (worker_mappings tm)) (f u) \<noteq> None"
    then obtain v where "map_of (m_forward_map (worker_mappings tm)) v = Some (f u)" using um by (auto simp: um_ok_def)
    with tm(2) have "f u = f v" "u \<noteq> v" "v \<noteq> default_uri" using None by (auto simp: named_by_def mapped_def)
    with f(3) u show False by (auto dest: inj_onD)
  qed
  let ?um = "(worker_mappings tm)\<lparr>m_forward_map := sm_insert u (f u) (m_forward_map (worker_mappings tm)),
    m_reverse_map := sm_insert (f u) u (m_reverse_map (worker_mappings tm))\<rparr>"
  have "worker_lookup h u tm = (Inr (f u), tm\<lparr>m_instance := m, worker_mappings := ?um\<rparr>)"
    using f(2) by (simp add: worker_lookup_def c f(1) forward_lookup_with_def None rev)
  moreover have "sm_ok (m_forward_map (worker_mappings tm))" using um by (simp add: um_ok_def)
  with tm(2) have "named_by f (tm\<lparr>m_instance := m, worker_mappings := ?um\<rparr>)"
    by (auto simp: named_by_def mapped_def None u)
  ultimately show ?thesis using c by simp
qed

lemma worker_lookup_total:
  assumes h: "keeps_groups h jg" "maps_by h f" and tm: "joins_ok tm" "named_by f tm" "in_step jg tm"
    and u: "u \<noteq> default_uri"
  shows "\<exists>tm'. worker_lookup h u tm = (Inr (f u), tm') \<and> named_by f tm' \<and> in_step jg tm'"
proof -
  have "jg (snd (map_fun h u (m_instance tm))) = jg (m_instance tm)" using h(1) by (simp add: keeps_groups_def)
  with worker_lookup_named [OF h(2) tm(1,2) u] tm(3) show ?thesis unfolding in_step_def by metis
qed

lemma leave_emptied_total:
  assumes "keeps_groups h jg"
  shows "\<exists>tm'. leave_emptied h gs tm = (Inr (), tm')"
proof (induction gs arbitrary: tm)
  case Nil
  then show ?case by simp
next
  case (Cons g gs)
  obtain m where "leave_fun h g (m_instance tm) = (HC_SUCCESS, m)"
    using assms unfolding keeps_groups_def by (metis prod.collapse)
  then show ?case using Cons.IH by (simp add: sbind_def call_module_def)
qed

lemma leave_fold:
  "keeps_groups h jg \<Longrightarrow> jg (fold (\<lambda>g m. snd (leave_fun h g m)) gs m) = jg m - set gs"
  by (induction gs arbitrary: m) (auto simp: keeps_groups_def)

definition served :: "'m hc_module_handle \<Rightarrow> ('m \<Rightarrow> uri set) \<Rightarrow> (uri \<Rightarrow> uri) \<Rightarrow> tm_msg \<Rightarrow> 'm tech_module \<Rightarrow> bool" where
  "served h jg f msg tm \<longleftrightarrow> (\<exists>r tm'. worker_msg h 0 msg tm = (Inr r, tm') \<and> named_by f tm' \<and> in_step jg tm')"

lemma join_served:
  assumes h: "keeps_groups h jg" "maps_by h f" and tm: "joins_ok tm" "named_by f tm" "in_step jg tm"
    and u: "u \<noteq> default_uri"
  shows "served h jg f (join_t u s) tm"
proof -
  from worker_lookup_total [OF assms] obtain tm1 where l: "worker_lookup h u tm = (Inr (f u), tm1)"
    and n1: "named_by f tm1" "in_step jg tm1" by blast
  have ok1: "joins_ok tm1" using worker_lookup_members [OF tm(1) l] by simp
  from add_members [OF ok1, of s "f u" u] obtain tm2 where a: "add s (f u) u tm1 = (Inr ((f u, s) \<notin> members tm1), tm2)"
    and ok2: "joins_ok tm2" "same_rest tm1 tm2" "members tm2 = insert (f u, s) (members tm1)" by blast
  obtain m where j: "join_fun h (f u) (m_instance tm2) = (HC_SUCCESS, m)" "jg m = insert (f u) (jg (m_instance tm2))"
    using h(1) unfolding keeps_groups_def by (metis prod.collapse)
  have g: "groups tm2 = insert (f u) (groups tm1)" "m_instance tm2 = m_instance tm1"
    using ok2 by (simp_all add: groups_members [OF ok1] groups_members same_rest_def)
  show ?thesis
  proof (cases "(f u, s) \<in> members tm1")
    case True
    then have "f u \<in> groups tm1" by (force simp: groups_members [OF ok1])
    with True n1 ok2 g show ?thesis
      by (simp add: served_def sbind_def l a named_by_same_rest in_step_def insert_absorb)
  next
    case False
    with n1 ok2 g j show ?thesis
      by (simp add: served_def sbind_def l a call_module_def named_by_same_rest in_step_def)
  qed
qed

lemma leave_served:
  assumes h: "keeps_groups h jg" "maps_by h f" and tm: "joins_ok tm" "named_by f tm" "in_step jg tm"
    and u: "u \<noteq> default_uri"
  shows "served h jg f (leave_t u s) tm"
proof -
  from worker_lookup_total [OF assms] obtain tm1 where l: "worker_lookup h u tm = (Inr (f u), tm1)"
    and n1: "named_by f tm1" "in_step jg tm1" by blast
  have ok1: "joins_ok tm1" using worker_lookup_members [OF tm(1) l] by simp
  from ok1 obtain res tm2 where d: "del 0 s (f u) u tm1 = (Inr res, tm2)" and p: "del_post 0 s (f u) tm1 res tm2"
    by (rule del_members)
  then have ok2: "joins_ok tm2" and sr: "same_rest tm1 tm2" and M: "members tm2 = members tm1 - {(f u, s)}"
    and b: "fst res \<longleftrightarrow> (f u, s) \<in> members tm1"
    and n: "(f u, s) \<in> members tm1 \<Longrightarrow> snd res = 0 \<longleftrightarrow> f u \<notin> groups tm2"
    by (auto simp: del_post_def split: if_splits)
  obtain m where j: "leave_fun h (f u) (m_instance tm2) = (HC_SUCCESS, m)" "jg m = jg (m_instance tm2) - {f u}"
    using h(1) unfolding keeps_groups_def by (metis prod.collapse)
  have g: "groups tm2 - {f u} = groups tm1 - {f u}" "m_instance tm2 = m_instance tm1"
    unfolding groups_members [OF ok1] groups_members [OF ok2] M using sr by (force simp: same_rest_def)+
  have n2: "named_by f tm2" using n1 sr by (simp add: named_by_same_rest)
  consider "\<not> fst res" | "fst res" "snd res = 0" | "fst res" "snd res \<noteq> 0" by blast
  then show ?thesis
  proof cases
    case 1
    then have "groups tm2 = groups tm1" using b by (simp add: groups_members [OF ok1] groups_members [OF ok2] M)
    with 1 n2 n1 g show ?thesis by (simp add: served_def sbind_def l d in_step_def)
  next
    case 2
    then have "groups tm2 = groups tm1 - {f u}" using n b g(1) by auto
    with 2 n2 n1 g j show ?thesis by (simp add: served_def sbind_def l d in_step_def call_module_def)
  next
    case 3
    then have "f u \<in> groups tm2" using n b by auto
    moreover have "f u \<in> groups tm1" using 3 b by (force simp: groups_members [OF ok1])
    ultimately have "groups tm2 = groups tm1" using g(1) by blast
    with 3 n2 n1 g show ?thesis by (simp add: served_def sbind_def l d in_step_def)
  qed
qed

lemma leave_all_served:
  assumes h: "keeps_groups h jg" and tm: "joins_ok tm" "named_by f tm" "in_step jg tm"
  shows "served h jg f (leave_all_t s) tm"
proof -
  obtain tm' where d: "del_all h s tm = (Inr (), tm')"
    using leave_emptied_total [OF h] unfolding del_all_def
    by (cases "del_from_lists s (m_joins tm) (m_fjoins tm)" rule: prod_cases3) force
  from del_all_result [OF tm(1) d] obtain fj where tm': "tm' = tm\<lparr>m_joins := without s (m_joins tm),
    m_fjoins := fj, m_instance := fold (\<lambda>g m. snd (leave_fun h g m)) (emptied_by s (m_joins tm)) (m_instance tm)\<rparr>" by blast
  have "groups (tm\<lparr>m_joins := without s (m_joins tm)\<rparr>) \<subseteq> groups tm"
    unfolding groups_members [OF tm(1)] groups_members [OF members_without(2) [OF tm(1)]] members_without(1) [OF tm(1)] by auto
  then have "in_step jg tm'"
    using tm(3) by (auto simp: tm' in_step_def leave_fold [OF h] set_emptied_by [OF tm(1)])
  moreover have "named_by f tm'" using tm(2) by (simp add: tm')
  ultimately show ?thesis by (simp add: served_def sbind_def d)
qed

lemma send_served:
  assumes h: "keeps_groups h jg" "maps_by h f" and tm: "joins_ok tm" "named_by f tm" "in_step jg tm"
    and u: "m_receiver j \<noteq> default_uri"
  shows "served h jg f (send_job_t j) tm"
proof -
  from worker_lookup_total [OF assms] obtain tm1 where l: "worker_lookup h (m_receiver j) tm = (Inr (f (m_receiver j)), tm1)"
    and n1: "named_by f tm1" "in_step jg tm1" by blast
  obtain rc m where s: "sendto_fun h (msg_content (m_msg j)) (msg_content_size (m_msg j)) (job_ttl j) (f (m_receiver j)) (m_instance tm1) = (rc, m)"
    by force
  have "jg m = jg (m_instance tm1)" using h(1) s unfolding keeps_groups_def by (metis snd_conv)
  with n1 show ?thesis by (simp add: served_def sbind_def l call_module_def s in_step_def)
qed

lemma msg_served:
  assumes h: "keeps_groups h jg" "maps_by h f" and tm: "joins_ok tm" "named_by f tm" "in_step jg tm" and m: "msg \<noteq> kill_t" "addressed msg"
  shows "served h jg f msg tm"
proof (cases msg)
  case (mapping_lookup_t u)
  from worker_lookup_total [OF h tm, of u] m show ?thesis by (auto simp: mapping_lookup_t served_def sbind_def)
next
  case kill_t
  with m show ?thesis by simp
qed (use m in \<open>simp_all add: send_served [OF h tm] join_served [OF h tm] leave_served [OF h tm] leave_all_served [OF h(1) tm]\<close>)

lemma worker_loop_total:
  assumes h: "keeps_groups h jg" "maps_by h f" and tm: "joins_ok tm" "named_by f tm" "in_step jg tm" and q: "kill_t \<notin> set q \<and> list_all addressed q"
  shows "\<exists>rs tm'. worker_loop h 0 q tm = (Inr rs, tm') \<and> joins_ok tm' \<and> named_by f tm' \<and> in_step jg tm'"
  using tm q
proof (induction q arbitrary: tm)
  case Nil
  then show ?case by simp
next
  case (Cons msg q)
  from Cons.prems(4) have ne: "msg \<noteq> kill_t" and ad: "addressed msg" by auto
  from msg_served [OF h Cons.prems(1-3) this] obtain r tm1 where w: "worker_msg h 0 msg tm = (Inr r, tm1)"
    and n1: "named_by f tm1" "in_step jg tm1" by (auto simp: served_def)
  have "joins_ok tm1" using worker_refines [OF Cons.prems(1) w] by (simp add: refines_step_def)
  from Cons.IH [OF this n1] Cons.prems(4) obtain rs tm' where "worker_loop h 0 q tm1 = (Inr rs, tm')"
    "joins_ok tm'" "named_by f tm'" "in_step jg tm'" by auto
  with w ne show ?case by (simp add: sbind_def)
qed

section \<open>A concrete module\<close>

text \<open>A module whose state is the set of its groups and that keeps the names of the groups.\<close>

definition set_module :: "uri set hc_module_handle" where
  "set_module =
     \<lparr>map_fun = (\<lambda>u m. (create_uri_result u, m)), sendto_fun = (\<lambda>_ _ _ _ m. (0, m)),
      leave_fun = (\<lambda>g m. (HC_SUCCESS, m - {g})), join_fun = (\<lambda>g m. (HC_SUCCESS, insert g m)),
      group_set_fun = (\<lambda>m. ([], m)), neighbor_set_fun = (\<lambda>m. ([], m)),
      children_set_fun = (\<lambda>_ m. ([], m)), parent_set_fun = (\<lambda>_ m. ([], m)),
      designated_host_fun = (\<lambda>_ m. (0, m)), delete_instance_fun = id\<rparr>"

lemma keeps_groups_set_module: "keeps_groups set_module id"
  by (simp add: keeps_groups_def set_module_def)

lemma maps_by_set_module: "maps_by set_module id"
  by (simp add: maps_by_def set_module_def tm_mapping_helper_def create_uri_result_def default_uri_iff)

lemma new_module_served: "named_by f (new_tech_module iid {} sd sz)" "in_step id (new_tech_module iid {} sd sz)"
  by (simp_all add: named_by_def in_step_def mapped_def groups_def new_tech_module_def new_uri_mappings_def)

lemma example_uri: "uri_of ''ham:ip:239.0.0.1'' \<noteq> default_uri"
proof -
  have "\<not> uri_is_empty (uri_of ''ham:ip:239.0.0.1'')" unfolding uri_is_empty_def str_def uri_d_uri_of by code_simp
  then show ?thesis by (simp add: default_uri_iff)
qed

section \<open>Properties\<close>



text \<open>C7: The join tables refine a set of pairs of group and socket: serving a queue without a
  kill request changes the set as the abstract operations do and gives their answers (a join
  is answered with whether the socket was new, a leave with whether it was joined).\<close>

theorem worker_refines_groups:
  assumes "joins_ok tm" "worker_loop h freed q tm = (Inr rs, tm')" "kill_t \<notin> set q"
  shows "joins_ok tm' \<and> members tm' = fold (member_spec (mapped tm')) q (members tm)
    \<and> rs = replies_spec (mapped tm') q (members tm) \<and> (\<forall>msg \<in> set q. names msg \<subseteq> dom (mapped tm'))"
  using worker_loop_refines [OF assms] by blast

theorem worker_refines_groups_witness:
  "\<exists>g rs tm'. worker_loop set_module 0 [join_t g 7, join_t g 8, join_t g 7, leave_t g 7] (new_tech_module 1 {} [] 1500) = (Inr rs, tm')
     \<and> members tm' = {(g, 8)} \<and> rs = [f_bool True, f_bool True, f_bool False, f_bool True]"
proof -
  obtain g :: uri where g: "g \<noteq> default_uri" using example_uri by blast
  let ?q = "[join_t g 7, join_t g 8, join_t g 7, leave_t g 7]" and ?tm = "new_tech_module 1 {} [] 1500 :: uri set tech_module"
  have q: "kill_t \<notin> set ?q" "list_all addressed ?q" by (simp_all add: g)
  from worker_loop_total [OF keeps_groups_set_module maps_by_set_module joins_ok_new new_module_served conjI [OF q], of 1 "[]" 1500]
  obtain rs tm' where w: "worker_loop set_module 0 ?q ?tm = (Inr rs, tm')" and n: "named_by id tm'" by (elim exE conjE)
  note r = worker_refines_groups [OF joins_ok_new w q(1)]
  then have "g \<in> dom (mapped tm')" by (simp add: names_def)
  with n have m: "mapped tm' g = Some g" by (auto simp: named_by_def)
  have f: "fold (member_spec (mapped tm')) ?q {} = {(g, 8)}" by (simp add: m insert_Diff_if)
  have p: "replies_spec (mapped tm') ?q {} = [f_bool True, f_bool True, f_bool False, f_bool True]" by (simp add: m)
  from r f p have "members tm' = {(g, 8)}" and "rs = [f_bool True, f_bool True, f_bool False, f_bool True]"
    by (simp_all only: members_new)
  with w show ?thesis by (intro exI conjI)
qed

text \<open>C37: When the value read from the erased list is not 0, the last socket leaves a group
  without a call of \<open>leave_fun\<close>: the request is answered with success and the tables forget the
  group, but the state of the module is untouched.\<close>

theorem leave_after_free:
  assumes "joins_ok tm" "mapped tm u = Some g" "{s'. (g, s') \<in> members tm} = {s}" "freed \<noteq> 0"
  shows "\<exists>tm'. worker_msg h freed (leave_t u s) tm = (Inr (f_bool True), tm')
    \<and> m_instance tm' = m_instance tm \<and> (\<forall>s'. (g, s') \<notin> members tm')"
proof -
  have l: "worker_lookup h u tm = (Inr g, tm)"
    using assms(2) by (simp add: worker_lookup_def forward_lookup_with_def mapped_def split: prod.splits)
  from assms(1) obtain res tm2 where d: "del freed s g u tm = (Inr res, tm2)" and p: "del_post freed s g tm res tm2"
    by (rule del_members)
  have s: "(g, s') \<in> members tm \<longleftrightarrow> s' = s" for s' using assms(3) by blast
  have M: "(g, s') \<notin> members tm2" for s' using p s by (auto simp: del_post_def)
  then have "g \<notin> groups tm2" using p by (auto simp: del_post_def groups_members)
  then have r: "fst res" "snd res = freed" using p s by (auto simp: del_post_def)
  have "m_instance tm2 = m_instance tm" using p by (simp add: del_post_def same_rest_def)
  with r M assms(4) show ?thesis by (simp add: sbind_def l d)
qed

theorem leave_after_free_witness:
  "\<exists>u tm :: uri set tech_module. m_instance tm = {u} \<and> members tm = {(u, 5)}
     \<and> (\<exists>tm'. worker_msg set_module 1 (leave_t u 5) tm = (Inr (f_bool True), tm') \<and> m_instance tm' = {u})"
proof -
  let ?g = "uri_of ''ham:ip:239.0.0.1''"
  let ?tm = "\<lparr>m_id = 1, m_instance = {?g}, m_atomic_msg_size = 1500, m_service_discovery_results = [], m_queue = [],
    m_joins = [(?g, ?g, [5])], m_fjoins = [(?g, ?g)],
    worker_mappings = \<lparr>m_forward_map = [(?g, ?g)], m_reverse_map = [(?g, ?g)]\<rparr>\<rparr>"
  have ok: "joins_ok ?tm" by (auto simp: joins_ok_def list_ok_def sm_ok_def um_ok_def example_uri split: if_splits)
  have m: "members ?tm = {(?g, 5)}" by (auto simp: members_def split: if_splits)
  have "\<exists>tm'. worker_msg set_module 1 (leave_t ?g 5) ?tm = (Inr (f_bool True), tm') \<and> m_instance tm' = m_instance ?tm
      \<and> (\<forall>s'. (?g, s') \<notin> members tm')"
    by (rule leave_after_free [OF ok]) (simp_all add: m mapped_def)
  with m show ?thesis by (intro exI [of _ ?g] exI [of _ ?tm]) (auto simp del: worker_msg.simps)
qed

text \<open>C38: Two groups that a module maps to the same name end the process: when \<open>v\<close> is in use and
  the module maps \<open>u\<close> to the name of \<open>v\<close>, the requirement of the mapping table fails in the
  worker thread, where a join does not catch it.\<close>

theorem alias_join_terminates:
  assumes "joins_ok tm" "m_queue tm = []" "mapped tm v = Some g" "mapped tm u = None"
    "tm_mapping_helper (fst (map_fun h u (m_instance tm))) = g"
  shows "\<exists>tm'. tm_join h freed u s tm = (Inl (Terminated (Requirement_failed ''m_reverse_map.count(mapped) == 0'')), tm')"
proof -
  have um: "um_ok (worker_mappings tm)" using assms(1) by (simp add: joins_ok_def)
  have v: "map_of (m_forward_map (worker_mappings tm)) v = Some g" using assms(3) by (simp add: mapped_def)
  then have g: "\<not> uri_is_empty g" using um by (auto simp: um_ok_def default_uri_iff)
  have r: "map_of (m_reverse_map (worker_mappings tm)) g = Some v" using um v by (simp add: um_ok_def)
  obtain res m where c: "map_fun h u (m_instance tm) = (res, m)" by force
  have "worker_lookup h u tm = (Inl (Requirement_failed ''m_reverse_map.count(mapped) == 0''), tm\<lparr>m_instance := m\<rparr>)"
    using assms(4,5) g r by (simp add: worker_lookup_def c forward_lookup_with_def mapped_def)
  then show ?thesis by (simp add: tm_join_def tm_request_def assms(2) sbind_def)
qed

theorem alias_join_terminates_witness:
  "\<exists>u tm tm'. tm_join (set_module\<lparr>map_fun := \<lambda>_ m. (create_uri_result (uri_of ''ham:ip:239.0.0.1''), m)\<rparr>) 0 u 5 tm
    = (Inl (Terminated (Requirement_failed ''m_reverse_map.count(mapped) == 0'')), tm')"
proof -
  let ?g = "uri_of ''ham:ip:239.0.0.1''" and ?u = "uri_of ''ham:ip:239.0.0.2''"
  let ?h = "set_module\<lparr>map_fun := \<lambda>_ m. (create_uri_result ?g, m)\<rparr>"
  let ?tm = "(new_tech_module 1 {} [] 1500)\<lparr>worker_mappings := \<lparr>m_forward_map = [(?g, ?g)], m_reverse_map = [(?g, ?g)]\<rparr>\<rparr>"
  have "str ?g \<noteq> str ?u" unfolding str_def uri_d_uri_of by code_simp
  then have u: "?u \<noteq> ?g" by metis
  have "\<exists>tm'. tm_join ?h 0 ?u 5 ?tm = (Inl (Terminated (Requirement_failed ''m_reverse_map.count(mapped) == 0'')), tm')"
  proof (rule alias_join_terminates)
    show "joins_ok ?tm" by (auto simp: joins_ok_def new_tech_module_def sm_ok_def um_ok_def example_uri split: if_splits)
    show "m_queue ?tm = []" by (simp add: new_tech_module_def)
    show "mapped ?tm ?g = Some ?g" "mapped ?tm ?u = None" using u by (simp_all add: mapped_def)
    show "tm_mapping_helper (fst (map_fun ?h ?u (m_instance ?tm))) = ?g"
      using example_uri by (simp add: tm_mapping_helper_def create_uri_result_def default_uri_iff)
  qed
  then show ?thesis by - (rule exI [of _ ?u], rule exI [of _ ?tm], assumption)
qed

end
