(* ===== verification/Socket_Proxy.thy ===== *)
theory Socket_Proxy
  imports Tech_Module
begin

text \<open>
  The middleware's side of a multicast socket (\<open>middleware/socket_proxy.cpp\<close>,
  \<open>middleware/send_job.cpp\<close>): flow control of the packets a client sends, the joined groups
  and the assigned interfaces. A socket calls the technology modules it is assigned to, so its
  operations act on the socket and on the modules. What the socket writes to the client is
  the list of IPC messages an operation returns (\<open>serialize_as_message\<close> without content; the
  wire format is that of \<open>Message\<close>).

  The lemmas show that packets are accepted exactly once and in the order of their sequence
  numbers, that the bytes in flight never exceed the send buffer, that a socket is a member of
  exactly its joined groups on exactly its interfaces, and that a received packet reaches
  exactly the joined sockets with room.
\<close>

section \<open>The modules around a socket\<close>

text \<open>
  The module instances by address, the table of their ids, and the messages in the queues of
  the sessions, each with the session it was pushed to.
\<close>

record 'm modules =
  tms :: "nat \<Rightarrow> 'm tech_module"
  by_id :: instances_by_id
  pushed :: "(nat \<times> session_msg) list"

text \<open>
  A job is shared by the queues of its modules. Its destructor runs when the last queue drops
  it and reports the message to the session.
\<close>

definition queued_jobs :: "tm_msg list \<Rightarrow> send_job list" where
  "queued_jobs q = [j. send_job_t j \<leftarrow> q]"

definition job_referenced :: "'m modules \<Rightarrow> nat \<Rightarrow> bool" where
  "job_referenced ms a \<longleftrightarrow>
     list_ex (\<lambda>i. list_ex (\<lambda>j. job_addr j = a) (queued_jobs (m_queue (tms ms i)))) (instances (by_id ms))"

definition destroy_jobs :: "send_job list \<Rightarrow> 'm modules \<Rightarrow> 'm modules" where
  "destroy_jobs js ms =
     ms\<lparr>pushed := pushed ms @ map (\<lambda>j. (m_client j, async_send_job_done_t (m_msg j)))
                                    (filter (\<lambda>j. \<not> job_referenced ms (job_addr j)) (remdups js))\<rparr>"

text \<open>A request to the module at address \<open>i\<close>; it drains the queue of the module first.\<close>

definition request_at ::
  "(nat \<Rightarrow> 'm hc_module_handle) \<Rightarrow> nat \<Rightarrow> tm_msg \<Rightarrow> nat \<Rightarrow> ('m modules, tm_reply) op" where
  "request_at h freed msg i ms =
     (case tm_request (h i) freed msg (tms ms i) of
        (r, tm) \<Rightarrow> (r, destroy_jobs (queued_jobs (m_queue (tms ms i))) (ms\<lparr>tms := (tms ms)(i := tm)\<rparr>)))"

text \<open>One iteration of the worker of module \<open>i\<close> on its own.\<close>

definition worker_step :: "(nat \<Rightarrow> 'm hc_module_handle) \<Rightarrow> nat \<Rightarrow> nat \<Rightarrow> ('m modules, unit) op" where
  "worker_step h freed i ms =
     (case m_queue (tms ms i) of
        [] \<Rightarrow> (Inr (), ms)
      | msg # q \<Rightarrow>
          (case worker_msg (h i) freed msg ((tms ms i)\<lparr>m_queue := q\<rparr>) of
             (Inl e, tm) \<Rightarrow> (Inl (Terminated e), ms\<lparr>tms := (tms ms)(i := tm)\<rparr>)
           | (Inr r, tm) \<Rightarrow> (Inr (), destroy_jobs (queued_jobs [msg]) (ms\<lparr>tms := (tms ms)(i := tm)\<rparr>))))"

fun each :: "('a \<Rightarrow> ('s, 'b) op) \<Rightarrow> 'a list \<Rightarrow> ('s, unit) op" where
  "each f [] s = (Inr (), s)"
| "each f (x # xs) s = sbind (f x) (\<lambda>_. each f xs) s"

section \<open>The socket\<close>

record socket_proxy =
  sck_id :: u32
  m_parent_session :: nat
  last_acknowledged :: u32
  next_expected_seq_nr :: u32
  ack_counter :: int
  m_ttl :: u8
  m_interfaces :: "nat list"
  m_joined_groups :: "(uri, unit) smap"
  m_streams :: "(u16, uri) smap"
  m_stream_ids :: u16
  m_send_buf :: int
  m_receive_buf :: int

type_synonym 'm sock_state = "socket_proxy \<times> 'm modules"

abbreviation max_buf :: int where
  "max_buf \<equiv> int default_max_buffer_size"

definition new_socket_proxy :: "u32 \<Rightarrow> nat \<Rightarrow> 'm modules \<Rightarrow> socket_proxy res" where
  "new_socket_proxy sid parent_session ms =
     (let possibilities = instances (by_id ms) in
      rbind (hc_require (possibilities \<noteq> []) ''!possibilities.empty()'') (\<lambda>_.
        Inr \<lparr>sck_id = sid, m_parent_session = parent_session, last_acknowledged = 0,
             next_expected_seq_nr = 0, ack_counter = 0, m_ttl = 1,
             m_interfaces = [hd possibilities], m_joined_groups = [], m_streams = [],
             m_stream_ids = 0, m_send_buf = max_buf, m_receive_buf = max_buf\<rparr>))"

definition set_ttl :: "u8 \<Rightarrow> socket_proxy \<Rightarrow> socket_proxy" where
  "set_ttl new_ttl sp = sp\<lparr>m_ttl := new_ttl\<rparr>"

definition acquire_bytes :: "nat \<Rightarrow> socket_proxy \<Rightarrow> bool \<times> socket_proxy" where
  "acquire_bytes num sp =
     (case try_acquire (int num) (m_receive_buf sp) of (b, av) \<Rightarrow> (b, sp\<lparr>m_receive_buf := av\<rparr>))"

definition delivered :: "nat \<Rightarrow> socket_proxy \<Rightarrow> socket_proxy" where
  "delivered num_bytes sp = sp\<lparr>m_receive_buf := nb_release (int num_bytes) (m_receive_buf sp)\<rparr>"

definition add_stream :: "uri \<Rightarrow> socket_proxy \<Rightarrow> u16 \<times> socket_proxy" where
  "add_stream grp sp =
     (case next_id (m_stream_ids sp) of
        (result, ids) \<Rightarrow>
          (result, sp\<lparr>m_streams := sm_insert result grp (m_streams sp), m_stream_ids := ids\<rparr>))"

section \<open>Sending\<close>

text \<open>The views of an \<open>async_send\<close> message.\<close>

abbreviation stm_id :: "message \<Rightarrow> u16" where
  "stm_id asv \<equiv> msg_field1 asv"

abbreviation view_sck_id :: "message \<Rightarrow> u32" where
  "view_sck_id asv \<equiv> msg_field2 asv"

abbreviation seq_nr :: "message \<Rightarrow> u32" where
  "seq_nr asv \<equiv> msg_field3 asv"

text \<open>The size as the signed parameter of the semaphore.\<close>

abbreviation asv_bytes :: "message \<Rightarrow> int" where
  "asv_bytes asv \<equiv> sint (msg_content_size asv)"

definition control_msg :: "message_type \<Rightarrow> u16 \<Rightarrow> u32 \<Rightarrow> u32 \<Rightarrow> message" where
  "control_msg mtype field1 field2 field3 =
     \<lparr>msg_type = message_type_code mtype, msg_field1 = field1, msg_field2 = field2, msg_field3 = field3,
      msg_content_size = 0, msg_content = None\<rparr>"

text \<open>\<open>addr\<close> is the address at which the job is allocated.\<close>

definition handle_async_send :: "nat \<Rightarrow> message \<Rightarrow> nat \<Rightarrow> ('m sock_state, message list) op" where
  "handle_async_send addr asv sptr = (\<lambda>(sp, ms).
     (case map_of (m_streams sp) (stm_id asv) of
        None \<Rightarrow> (Inr [], sp, ms)
      | Some outgoing_group \<Rightarrow>
          if next_expected_seq_nr sp = seq_nr asv then
            (case try_acquire (asv_bytes asv) (m_send_buf sp) of
               (True, av) \<Rightarrow>
                 (let sp1 = sp\<lparr>m_send_buf := av\<rparr> in
                  case new_send_job addr asv outgoing_group (m_ttl sp) sptr of
                    Inl e \<Rightarrow> (Inl e, sp1, ms)
                  | Inr sj \<Rightarrow>
                      (let ms1 = ms\<lparr>tms := fold (\<lambda>t f. f(t := add_job sj (f t))) (m_interfaces sp) (tms ms)\<rparr>
                       in (Inr [], sp1\<lparr>next_expected_seq_nr := next_expected_seq_nr sp + 1\<rparr>,
                           destroy_jobs [sj] ms1)))
             | (False, _) \<Rightarrow>
                 (Inr [control_msg retransmit (stm_id asv) (view_sck_id asv) (seq_nr asv)], sp, ms))
          else (Inr [], sp, ms)))"

definition async_job_done :: "message \<Rightarrow> socket_proxy \<Rightarrow> message list \<times> socket_proxy" where
  "async_job_done asv sp =
     (case map_of (m_streams sp) (stm_id asv) of
        None \<Rightarrow> ([], sp)
      | Some _ \<Rightarrow>
          (let ac = (ack_counter sp + 1) mod int max_ack_block_size;
               (out, sp1) =
                 (if ac = 0 \<or> (max_buf - m_send_buf sp) * 2 \<ge> max_buf
                  then ([control_msg cumulative_ack (stm_id asv) (sck_id sp) (seq_nr asv)],
                        sp\<lparr>last_acknowledged := seq_nr asv\<rparr>)
                  else ([], sp))
           in (out, sp1\<lparr>m_send_buf := nb_release (asv_bytes asv) (m_send_buf sp1), ack_counter := ac\<rparr>)))"

fun force_acks_loop :: "(u16, uri) smap \<Rightarrow> socket_proxy \<Rightarrow> (bool \<times> message list) \<times> socket_proxy" where
  "force_acks_loop [] sp = ((False, []), sp)"
| "force_acks_loop ((i, _) # streams) sp =
     (if 0 < ack_counter sp then
        (let sqnr = last_acknowledged sp + of_int (ack_counter sp);
             ((_, out), sp') = force_acks_loop streams (sp\<lparr>last_acknowledged := sqnr, ack_counter := 0\<rparr>)
         in ((True, control_msg cumulative_ack i (sck_id sp) sqnr # out), sp'))
      else force_acks_loop streams sp)"

definition force_acks :: "socket_proxy \<Rightarrow> (bool \<times> message list) \<times> socket_proxy" where
  "force_acks sp = force_acks_loop (m_streams sp) sp"

section \<open>Groups and interfaces\<close>

text \<open>\<open>self\<close> is the address of the socket.\<close>

definition sock_join ::
  "(nat \<Rightarrow> 'm hc_module_handle) \<Rightarrow> nat \<Rightarrow> nat \<Rightarrow> uri \<Rightarrow> ('m sock_state, unit) op" where
  "sock_join h freed self what = (\<lambda>(sp, ms).
     (if m_interfaces sp = [] then (Inl (Requirement_failed ''!m_interfaces.empty()''), sp, ms)
      else if map_of (m_joined_groups sp) what = None then
        (case each (request_at h freed (join_t what self)) (m_interfaces sp) ms of
           (r, ms') \<Rightarrow> (r, sp\<lparr>m_joined_groups := sm_insert what () (m_joined_groups sp)\<rparr>, ms'))
      else (Inr (), sp, ms)))"

definition sock_leave ::
  "(nat \<Rightarrow> 'm hc_module_handle) \<Rightarrow> nat \<Rightarrow> nat \<Rightarrow> uri \<Rightarrow> ('m sock_state, unit) op" where
  "sock_leave h freed self what = (\<lambda>(sp, ms).
     (if m_interfaces sp = [] then (Inl (Requirement_failed ''!m_interfaces.empty()''), sp, ms)
      else if map_of (m_joined_groups sp) what \<noteq> None then
        (case each (request_at h freed (leave_t what self)) (m_interfaces sp) ms of
           (r, ms') \<Rightarrow> (r, sp\<lparr>m_joined_groups := sm_erase what (m_joined_groups sp)\<rparr>, ms'))
      else (Inr (), sp, ms)))"

definition sock_leave_all ::
  "(nat \<Rightarrow> 'm hc_module_handle) \<Rightarrow> nat \<Rightarrow> nat \<Rightarrow> bool \<Rightarrow> ('m sock_state, unit) op" where
  "sock_leave_all h freed self clear_joined_groups = (\<lambda>(sp, ms).
     (if m_interfaces sp = [] then (Inr (), sp, ms)
      else (case each (request_at h freed (leave_all_t self)) (m_interfaces sp) ms of
              (Inl e, ms') \<Rightarrow> (Inl e, sp, ms')
            | (Inr _, ms') \<Rightarrow>
                (Inr (), (if clear_joined_groups then sp\<lparr>m_joined_groups := []\<rparr> else sp), ms'))))"

text \<open>\<open>std::set_intersection\<close> of two sorted ranges.\<close>

fun set_intersection :: "nat list \<Rightarrow> nat list \<Rightarrow> nat list" where
  "set_intersection [] ys = []"
| "set_intersection xs [] = []"
| "set_intersection (x # xs) (y # ys) =
     (if x < y then set_intersection xs (y # ys)
      else if y < x then set_intersection (x # xs) ys
      else x # set_intersection xs ys)"

definition find_and_erase :: "nat list \<Rightarrow> nat \<Rightarrow> nat list" where
  "find_and_erase vec ptr = remove1 ptr vec"

definition set_interfaces ::
  "(nat \<Rightarrow> 'm hc_module_handle) \<Rightarrow> nat \<Rightarrow> nat \<Rightarrow> nat list \<Rightarrow> ('m sock_state, unit) op" where
  "set_interfaces h freed self const_tms = (\<lambda>(sp, ms).
     (let tms0 = sort const_tms;
          ifs0 = sort (m_interfaces sp);
          intersection = set_intersection tms0 ifs0;
          ifs = fold (\<lambda>i v. find_and_erase v i) intersection ifs0;
          new_tms = fold (\<lambda>i v. find_and_erase v i) intersection tms0
      in sbind (\<lambda>st. if ifs \<noteq> [] then sock_leave_all h freed self False st else (Inr (), st)) (\<lambda>_ st.
           (case each (\<lambda>(g, _). each (request_at h freed (join_t g self)) new_tms)
                  (m_joined_groups (fst st)) (snd st) of
              (Inl e, ms') \<Rightarrow> (Inl e, fst st, ms')
            | (Inr _, ms') \<Rightarrow> (Inr (), (fst st)\<lparr>m_interfaces := intersection @ new_tms\<rparr>, ms')))
         (sp\<lparr>m_interfaces := ifs\<rparr>, ms)))"

section \<open>Flow control\<close>

text \<open>
  The life of a socket as far as sending is concerned. \<open>inflight\<close> are the packets handed to
  the modules and not yet reported as done, \<open>accepted\<close> all packets handed to the modules so
  far, in order; the code does not store them. A packet is accepted when the expected
  sequence number moves on. The modules may change at any time.
\<close>

record 'm flow =
  fl_sp :: socket_proxy
  fl_ms :: "'m modules"
  fl_inflight :: "message list"
  fl_accepted :: "message list"

inductive flow_step :: "'m flow \<Rightarrow> 'm flow \<Rightarrow> bool" where
  fl_stream: "add_stream g (fl_sp s) = (i, sp) \<Longrightarrow> flow_step s (s\<lparr>fl_sp := sp\<rparr>)"
| fl_accept: "handle_async_send addr asv sptr (fl_sp s, fl_ms s) = (Inr out, sp, ms) \<Longrightarrow>
     next_expected_seq_nr sp \<noteq> next_expected_seq_nr (fl_sp s) \<Longrightarrow> 0 \<le> asv_bytes asv \<Longrightarrow>
     flow_step s \<lparr>fl_sp = sp, fl_ms = ms, fl_inflight = asv # fl_inflight s, fl_accepted = fl_accepted s @ [asv]\<rparr>"
| fl_refuse: "handle_async_send addr asv sptr (fl_sp s, fl_ms s) = (Inr out, sp, ms) \<Longrightarrow>
     next_expected_seq_nr sp = next_expected_seq_nr (fl_sp s) \<Longrightarrow> flow_step s (s\<lparr>fl_sp := sp, fl_ms := ms\<rparr>)"
| fl_done: "asv \<in> set (fl_inflight s) \<Longrightarrow> async_job_done asv (fl_sp s) = (out, sp) \<Longrightarrow>
     flow_step s (s\<lparr>fl_sp := sp, fl_inflight := remove1 asv (fl_inflight s)\<rparr>)"
| fl_force: "force_acks (fl_sp s) = (r, sp) \<Longrightarrow> flow_step s (s\<lparr>fl_sp := sp\<rparr>)"
| fl_modules: "flow_step s (s\<lparr>fl_ms := ms\<rparr>)"

definition flow_ok :: "'m flow \<Rightarrow> bool" where
  "flow_ok s \<longleftrightarrow>
     sm_ok (m_streams (fl_sp s))
   \<and> (\<forall>asv \<in> set (fl_inflight s). map_of (m_streams (fl_sp s)) (stm_id asv) \<noteq> None \<and> 0 \<le> asv_bytes asv)
   \<and> m_send_buf (fl_sp s) = max_buf - sum_list (map asv_bytes (fl_inflight s))
   \<and> 0 \<le> m_send_buf (fl_sp s)
   \<and> map seq_nr (fl_accepted s) = map of_nat [0..<length (fl_accepted s)]
   \<and> next_expected_seq_nr (fl_sp s) = of_nat (length (fl_accepted s))"

lemma force_acks_loop_frame:
  "force_acks_loop streams sp = (r, sp') \<Longrightarrow> \<exists>a c. sp' = sp\<lparr>last_acknowledged := a, ack_counter := c\<rparr>"
proof (induction streams arbitrary: sp r sp')
  case Nil
  then show ?case by (intro exI [of _ "last_acknowledged sp"] exI [of _ "ack_counter sp"]) simp
next
  case (Cons p streams)
  obtain i g where p: "p = (i, g)" by (cases p)
  show ?case
  proof (cases "0 < ack_counter sp")
    case True
    let ?sp = "sp\<lparr>last_acknowledged := last_acknowledged sp + of_int (ack_counter sp), ack_counter := 0\<rparr>"
    obtain r1 sp1 where l: "force_acks_loop streams ?sp = (r1, sp1)" by (cases "force_acks_loop streams ?sp")
    from Cons.IH [OF l] obtain a c where "sp1 = ?sp\<lparr>last_acknowledged := a, ack_counter := c\<rparr>" by blast
    moreover have "sp' = sp1" using Cons.prems True by (cases r1) (simp add: p l)
    ultimately show ?thesis by (cases sp) auto
  next
    case False
    with Cons show ?thesis by (simp add: p)
  qed
qed

lemma handle_async_send_cases:
  assumes "handle_async_send addr asv sptr (sp, ms) = (Inr out, sp', ms')"
  obtains (ignored) "sp' = sp" "ms' = ms"
  | (accepted) sj g where "map_of (m_streams sp) (stm_id asv) = Some g" "seq_nr asv = next_expected_seq_nr sp"
      "asv_bytes asv \<le> m_send_buf sp" "new_send_job addr asv g (m_ttl sp) sptr = Inr sj" "out = []"
      "sp' = sp\<lparr>m_send_buf := m_send_buf sp - asv_bytes asv, next_expected_seq_nr := next_expected_seq_nr sp + 1\<rparr>"
proof (cases "map_of (m_streams sp) (stm_id asv)")
  case None
  with assms show ?thesis by (intro ignored) (simp_all add: handle_async_send_def)
next
  case (Some g)
  show ?thesis
  proof (cases "next_expected_seq_nr sp = seq_nr asv \<and> asv_bytes asv \<le> m_send_buf sp")
    case False
    with Some assms show ?thesis
      by (intro ignored) (auto simp: handle_async_send_def try_acquire_def Let_def split: if_splits)
  next
    case True
    then have t: "try_acquire (asv_bytes asv) (m_send_buf sp) = (True, m_send_buf sp - asv_bytes asv)"
      by (simp add: try_acquire_def Let_def)
    show ?thesis
    proof (cases "new_send_job addr asv g (m_ttl sp) sptr")
      case (Inl e)
      with Some True t assms show ?thesis by (simp add: handle_async_send_def Let_def)
    next
      case (Inr sj)
      with Some True t assms show ?thesis
        by (intro accepted [of g sj]) (simp_all add: handle_async_send_def Let_def)
    qed
  qed
qed

lemma async_job_done_frame:
  assumes "async_job_done asv sp = (out, sp')" "map_of (m_streams sp) (stm_id asv) \<noteq> None"
  shows "m_send_buf sp' = m_send_buf sp + asv_bytes asv" "m_streams sp' = m_streams sp"
    "next_expected_seq_nr sp' = next_expected_seq_nr sp"
  using assms by (auto simp: async_job_done_def nb_release_def Let_def split: if_splits)

lemma add_stream_frame:
  assumes "add_stream g sp = (i, sp')"
  shows "m_streams sp' = sm_insert (m_stream_ids sp) g (m_streams sp)" "m_send_buf sp' = m_send_buf sp"
    "next_expected_seq_nr sp' = next_expected_seq_nr sp"
  using assms by (auto simp: add_stream_def next_id_def)

lemma word_Suc_neq: "of_nat n + 1 \<noteq> (of_nat n :: u32)"
  by simp

lemma flow_ok_step: "flow_step s s' \<Longrightarrow> flow_ok s \<Longrightarrow> flow_ok s'"
proof (induction rule: flow_step.induct)
  case (fl_stream g s i sp)
  then show ?case using add_stream_frame [OF fl_stream.hyps] by (auto simp: flow_ok_def)
next
  case (fl_accept addr asv sptr s out sp ms)
  from fl_accept.hyps(1) show ?case
  proof (cases rule: handle_async_send_cases)
    case ignored
    with fl_accept show ?thesis by simp
  next
    case (accepted sj g)
    with fl_accept show ?thesis by (simp add: flow_ok_def)
  qed
next
  case (fl_refuse addr asv sptr s out sp ms)
  from fl_refuse.hyps(1) show ?case
  proof (cases rule: handle_async_send_cases)
    case ignored
    with fl_refuse show ?thesis by simp
  next
    case (accepted sj g)
    with fl_refuse show ?thesis by simp
  qed
next
  case (fl_done asv s out sp)
  then have "map_of (m_streams (fl_sp s)) (stm_id asv) \<noteq> None" "0 \<le> asv_bytes asv" by (auto simp: flow_ok_def)
  note f = async_job_done_frame [OF fl_done.hyps(2) this(1)] this(2)
  have "sum_list (map asv_bytes (fl_inflight s)) = asv_bytes asv + sum_list (map asv_bytes (remove1 asv (fl_inflight s)))"
    using fl_done.hyps(1) by (rule sum_list_map_remove1)
  with fl_done.prems f show ?case by (auto simp: flow_ok_def dest: notin_set_remove1)
next
  case (fl_force s r sp)
  from force_acks_loop_frame [OF fl_force.hyps [unfolded force_acks_def]] fl_force.prems show ?case
    by (auto simp: flow_ok_def)
next
  case (fl_modules s ms)
  then show ?case by (simp add: flow_ok_def)
qed

lemma async_job_done_quiet:
  assumes "map_of (m_streams sp) (stm_id asv) \<noteq> None" "max_buf < 2 * m_send_buf sp" "0 \<le> ack_counter sp"
    "ack_counter sp + 1 < int max_ack_block_size"
  shows "async_job_done asv sp =
    ([], sp\<lparr>m_send_buf := m_send_buf sp + asv_bytes asv, ack_counter := ack_counter sp + 1\<rparr>)"
proof -
  have "(ack_counter sp + 1) mod int max_ack_block_size = ack_counter sp + 1" using assms(3,4) by simp
  then show ?thesis using assms by (auto simp: async_job_done_def nb_release_def Let_def)
qed

lemma jobs_done_quiet:
  assumes "\<forall>asv \<in> set asvs. map_of (m_streams sp) (stm_id asv) \<noteq> None \<and> 0 \<le> asv_bytes asv"
    "max_buf < 2 * m_send_buf sp" "0 \<le> ack_counter sp" "ack_counter sp + int (length asvs) < int max_ack_block_size"
  shows "\<exists>b. fold (\<lambda>asv sp. snd (async_job_done asv sp)) asvs sp =
    sp\<lparr>m_send_buf := b, ack_counter := ack_counter sp + int (length asvs)\<rparr>"
  using assms
proof (induction asvs arbitrary: sp)
  case Nil
  then show ?case by (intro exI [of _ "m_send_buf sp"]) simp
next
  case (Cons asv asvs)
  let ?sp = "sp\<lparr>m_send_buf := m_send_buf sp + asv_bytes asv, ack_counter := ack_counter sp + 1\<rparr>"
  have d: "async_job_done asv sp = ([], ?sp)" by (rule async_job_done_quiet) (use Cons.prems in auto)
  from Cons.IH [of ?sp] Cons.prems obtain b where
    "fold (\<lambda>asv sp. snd (async_job_done asv sp)) asvs ?sp = ?sp\<lparr>m_send_buf := b, ack_counter := ack_counter ?sp + int (length asvs)\<rparr>"
    by (auto simp: algebra_simps)
  then show ?case by (intro exI [of _ b]) (simp add: d algebra_simps)
qed

section \<open>Properties of sending\<close>


text \<open>C36: Forced acknowledgements are one packet ahead at the start of a socket: after the
  first \<open>k < 64\<close> packets of a stream (numbers 0 to \<open>k - 1\<close>) are sent, with the buffer less than
  half full, the forced acknowledgement has the number \<open>k\<close>, the next one the socket waits for.\<close>

theorem forced_ack_early:
  assumes "m_streams sp = [(i, g)]" "last_acknowledged sp = 0" "ack_counter sp = 0" "max_buf < 2 * m_send_buf sp"
    "\<forall>asv \<in> set asvs. stm_id asv = i \<and> 0 \<le> asv_bytes asv"
    "0 < length asvs" "length asvs < 64" "next_expected_seq_nr sp = of_nat (length asvs)"
  shows "fst (force_acks (fold (\<lambda>asv sp. snd (async_job_done asv sp)) asvs sp)) =
    (True, [control_msg cumulative_ack i (sck_id sp) (next_expected_seq_nr sp)])"
proof -
  have "\<exists>b. fold (\<lambda>asv sp. snd (async_job_done asv sp)) asvs sp = sp\<lparr>m_send_buf := b, ack_counter := ack_counter sp + int (length asvs)\<rparr>"
    by (rule jobs_done_quiet) (use assms in \<open>simp_all add: max_ack_block_size_def\<close>)
  then obtain b where f: "fold (\<lambda>asv sp. snd (async_job_done asv sp)) asvs sp = sp\<lparr>m_send_buf := b, ack_counter := int (length asvs)\<rparr>"
    using assms(3) by auto
  show ?thesis unfolding f using assms(1,2,6,8) by (simp add: force_acks_def Let_def)
qed

definition example_modules :: "uri set modules" where
  "example_modules = \<lparr>tms = (\<lambda>_. new_tech_module 1 {} [] 1500), by_id = [(1, 0)], pushed = []\<rparr>"

definition example_socket :: socket_proxy where
  "example_socket =
     \<lparr>sck_id = 3, m_parent_session = 9, last_acknowledged = 0, next_expected_seq_nr = 0, ack_counter = 0,
      m_ttl = 1, m_interfaces = [0], m_joined_groups = [], m_streams = [], m_stream_ids = 0,
      m_send_buf = max_buf, m_receive_buf = max_buf\<rparr>"

definition example_send :: message where
  "example_send = \<lparr>msg_type = message_type_code async_send, msg_field1 = 0, msg_field2 = 3, msg_field3 = 0,
     msg_content_size = 2, msg_content = Some ''hi''\<rparr>"

lemma example_new_socket: "new_socket_proxy 3 9 example_modules = Inr example_socket"
  by (simp add: new_socket_proxy_def example_modules_def example_socket_def instances_def)


theorem forced_ack_early_witness:
  "fst (force_acks (snd (async_job_done example_send
     (example_socket\<lparr>m_streams := [(0, default_uri)], next_expected_seq_nr := 1, m_send_buf := max_buf - 2\<rparr>))))
   = (True, [control_msg cumulative_ack 0 3 1])"
  using forced_ack_early [of "example_socket\<lparr>m_streams := [(0, default_uri)], next_expected_seq_nr := 1, m_send_buf := max_buf - 2\<rparr>"
    0 default_uri "[example_send]"]
  by (simp add: example_socket_def example_send_def default_max_buffer_size_def)

section \<open>Groups of a socket at its modules\<close>

definition concerns :: "nat \<Rightarrow> tm_msg \<Rightarrow> bool" where
  "concerns a msg \<longleftrightarrow> (case msg of join_t u s \<Rightarrow> s = a | leave_t u s \<Rightarrow> s = a | leave_all_t s \<Rightarrow> s = a | _ \<Rightarrow> False)"

definition quiet :: "nat \<Rightarrow> 'm tech_module \<Rightarrow> bool" where
  "quiet a tm \<longleftrightarrow> (\<forall>msg \<in> set (m_queue tm). \<not> concerns a msg \<and> msg \<noteq> kill_t)"

text \<open>At the module \<open>tm\<close> the socket \<open>a\<close> is a member of exactly the groups \<open>J\<close>.\<close>

definition holds :: "'m tech_module \<Rightarrow> nat \<Rightarrow> uri set \<Rightarrow> bool" where
  "holds tm a J \<longleftrightarrow> joins_ok tm \<and> quiet a tm \<and> J \<subseteq> dom (mapped tm)
     \<and> (\<forall>g. (g, a) \<in> members tm \<longleftrightarrow> (\<exists>u \<in> J. mapped tm u = Some g))"

fun groups_after :: "tm_msg \<Rightarrow> uri set \<Rightarrow> uri set" where
  "groups_after (join_t u s) J = insert u J"
| "groups_after (leave_t u s) J = J - {u}"
| "groups_after (leave_all_t s) J = {}"
| "groups_after _ J = J"

lemma member_spec_other: "\<not> concerns a msg \<Longrightarrow> (g, a) \<in> member_spec mp msg M \<longleftrightarrow> (g, a) \<in> M"
  by (cases msg) (auto simp: concerns_def split: option.splits)

lemma fold_member_spec_other:
  "\<forall>msg \<in> set q. \<not> concerns a msg \<Longrightarrow> (g, a) \<in> fold (member_spec mp) q M \<longleftrightarrow> (g, a) \<in> M"
  by (induction q arbitrary: M) (simp_all add: member_spec_other)

lemma mapped_inj:
  assumes "joins_ok tm" "mapped tm u = Some g" "mapped tm v = Some g"
  shows "u = v"
proof -
  have "map_of (m_reverse_map (worker_mappings tm)) g = Some u" "map_of (m_reverse_map (worker_mappings tm)) g = Some v"
    using assms by (simp_all add: joins_ok_def um_ok_def mapped_def)
  then show ?thesis by simp
qed

lemma member_spec_holds:
  assumes ok: "joins_ok tm'" and le: "mapped tm \<subseteq>\<^sub>m mapped tm'" and J: "J \<subseteq> dom (mapped tm)"
    and M: "\<forall>g. (g, a) \<in> M \<longleftrightarrow> (\<exists>u \<in> J. mapped tm u = Some g)"
    and n: "names msg \<subseteq> dom (mapped tm')" and c: "concerns a msg"
  shows "groups_after msg J \<subseteq> dom (mapped tm')
    \<and> (\<forall>g. (g, a) \<in> member_spec (mapped tm') msg M \<longleftrightarrow> (\<exists>u \<in> groups_after msg J. mapped tm' u = Some g))"
proof -
  have J': "J \<subseteq> dom (mapped tm')" using J map_le_implies_dom_le [OF le] by blast
  have le': "mapped tm' u = mapped tm u" if "u \<in> J" for u using le J that unfolding map_le_def by (metis subsetD)
  have M': "(g, a) \<in> M \<longleftrightarrow> (\<exists>u \<in> J. mapped tm' u = Some g)" for g using M le' by (metis (no_types))
  show ?thesis
  proof (cases msg)
    case (join_t u s)
    then obtain n where "mapped tm' u = Some n" "s = a" using n c by (auto simp: names_def concerns_def)
    then show ?thesis using J' by (simp add: join_t M' domIff) (metis option.inject)
  next
    case (leave_t u s)
    then obtain n where u: "mapped tm' u = Some n" "s = a" using n c by (auto simp: names_def concerns_def)
    have "(g, a) \<in> M \<and> g \<noteq> n \<longleftrightarrow> (\<exists>v \<in> J - {u}. mapped tm' v = Some g)" for g
      unfolding M' using u(1) mapped_inj [OF ok u(1)] by (metis Diff_iff option.inject singletonD singletonI)
    with J' u show ?thesis by (auto simp: leave_t)
  next
    case (leave_all_t s)
    with c show ?thesis by (simp add: concerns_def)
  qed (use c in \<open>simp_all add: concerns_def\<close>)
qed

lemma worker_msgs_hold:
  assumes H: "holds tm a J" and r: "worker_loop h freed (m_queue tm @ [msg]) tm = (Inr rs, tm')"
    and k: "msg \<noteq> kill_t"
  shows "holds (tm'\<lparr>m_queue := []\<rparr>) a (if concerns a msg then groups_after msg J else J)"
proof -
  let ?q = "m_queue tm @ [msg]"
  have ok: "joins_ok tm" and Q: "\<forall>m \<in> set (m_queue tm). \<not> concerns a m" "kill_t \<notin> set ?q" and J: "J \<subseteq> dom (mapped tm)"
    and M: "\<forall>g. (g, a) \<in> members tm \<longleftrightarrow> (\<exists>u \<in> J. mapped tm u = Some g)"
    using H k by (auto simp: holds_def quiet_def)
  let ?M = "fold (member_spec (mapped tm')) (m_queue tm) (members tm)"
  from worker_loop_refines [OF ok r Q(2)] have ok': "joins_ok tm'" and le: "mapped tm \<subseteq>\<^sub>m mapped tm'"
    and m': "members tm' = member_spec (mapped tm') msg ?M" and n: "names msg \<subseteq> dom (mapped tm')" by simp_all
  have MM: "(g, a) \<in> ?M \<longleftrightarrow> (g, a) \<in> members tm" for g by (rule fold_member_spec_other [OF Q(1)])
  with M have M': "\<forall>g. (g, a) \<in> ?M \<longleftrightarrow> (\<exists>u \<in> J. mapped tm u = Some g)" by simp
  show ?thesis
  proof (cases "concerns a msg")
    case True
    from member_spec_holds [OF ok' le J M' n True] ok' True show ?thesis by (simp add: holds_def quiet_def m')
  next
    case False
    have "mapped tm' u = mapped tm u" if "u \<in> J" for u using le J that unfolding map_le_def by (metis subsetD)
    with M' have "\<forall>g. (g, a) \<in> members tm' \<longleftrightarrow> (\<exists>u \<in> J. mapped tm' u = Some g)"
      by (simp add: m' member_spec_other [OF False])
    moreover have "J \<subseteq> dom (mapped tm')" using J map_le_implies_dom_le [OF le] by blast
    ultimately show ?thesis using ok' False by (simp add: holds_def quiet_def)
  qed
qed

lemma tm_request_holds:
  assumes "holds tm a J" "tm_request h freed msg tm = (Inr r, tm')" "msg \<noteq> kill_t"
  shows "holds tm' a (if concerns a msg then groups_after msg J else J)"
proof -
  from assms(2) obtain rs tm1 where "worker_loop h freed (m_queue tm @ [msg]) tm = (Inr rs, tm1)" "tm' = tm1\<lparr>m_queue := []\<rparr>"
    by (auto simp: tm_request_def split: prod.splits sum.splits)
  with worker_msgs_hold [OF assms(1) _ assms(3)] show ?thesis by blast
qed

lemma request_at_holds:
  assumes "holds (tms ms i) a J" "request_at h freed msg i ms = (Inr r, ms')" "msg \<noteq> kill_t"
  shows "holds (tms ms' i) a (if concerns a msg then groups_after msg J else J)" "\<And>j. j \<noteq> i \<Longrightarrow> tms ms' j = tms ms j" "by_id ms' = by_id ms"
proof -
  from assms(2) obtain tm where t: "tm_request (h i) freed msg (tms ms i) = (Inr r, tm)"
    and m: "ms' = destroy_jobs (queued_jobs (m_queue (tms ms i))) (ms\<lparr>tms := (tms ms)(i := tm)\<rparr>)"
    by (auto simp: request_at_def split: prod.splits)
  from tm_request_holds [OF assms(1) t assms(3)] show "holds (tms ms' i) a (if concerns a msg then groups_after msg J else J)"
    by (simp add: m destroy_jobs_def)
  show "\<And>j. j \<noteq> i \<Longrightarrow> tms ms' j = tms ms j" "by_id ms' = by_id ms" by (simp_all add: m destroy_jobs_def)
qed

text \<open>Requests to several modules in turn.\<close>

lemma each_request_holds:
  assumes "\<forall>i. holds (tms ms i) a (J i)" "each (request_at h freed msg) is ms = (Inr (), ms')" "concerns a msg"
    "distinct is"
  shows "\<forall>i. holds (tms ms' i) a (if i \<in> set is then groups_after msg (J i) else J i)"
  using assms(1,2,4)
proof (induction "is" arbitrary: ms J)
  case Nil
  then show ?case by simp
next
  case (Cons i "is")
  then obtain r ms1 where 1: "request_at h freed msg i ms = (Inr r, ms1)" and 2: "each (request_at h freed msg) is ms1 = (Inr (), ms')"
    by (auto elim: sbind_InrE)
  have k: "msg \<noteq> kill_t" using assms(3) by (auto simp: concerns_def)
  note h1 = request_at_holds [OF Cons.prems(1) [rule_format] 1 k]
  have "\<forall>j. holds (tms ms1 j) a ((J(i := groups_after msg (J i))) j)"
    using h1(1,2) Cons.prems(1) assms(3) by auto
  from Cons.IH [OF this 2] Cons.prems(3) show ?case by (auto split: if_splits)
qed

lemma set_intersection_props:
  assumes "sorted xs" "distinct xs" "sorted ys" "distinct ys"
  shows "set (set_intersection xs ys) = set xs \<inter> set ys \<and> distinct (set_intersection xs ys)"
  using assms
proof (induction xs ys rule: set_intersection.induct)
  case (3 x xs y ys)
  consider "x < y" | "y < x" | "x = y" by linarith
  then show ?case
  proof cases
    case 1
    with 3 have "x \<notin> set (y # ys)" by auto
    with 1 3 show ?thesis by auto
  next
    case 2
    with 3 have "y \<notin> set (x # xs)" by auto
    with 2 3 show ?thesis by auto
  next
    case 3
    with "3.IH"(3) "3.prems" show ?thesis by auto
  qed
qed simp_all

lemma fold_find_and_erase:
  "distinct xs \<Longrightarrow> set (fold (\<lambda>i v. find_and_erase v i) is xs) = set xs - set is
     \<and> distinct (fold (\<lambda>i v. find_and_erase v i) is xs)"
  by (induction "is" arbitrary: xs) (auto simp: find_and_erase_def)

definition joined_set :: "socket_proxy \<Rightarrow> uri set" where
  "joined_set sp = dom (map_of (m_joined_groups sp))"

text \<open>The socket at address \<open>a\<close> is a member of its groups at its interfaces and of no group elsewhere.\<close>

definition coherent :: "nat \<Rightarrow> 'm sock_state \<Rightarrow> bool" where
  "coherent a st \<longleftrightarrow> distinct (m_interfaces (fst st)) \<and> m_interfaces (fst st) \<noteq> [] \<and> sm_ok (m_joined_groups (fst st))
     \<and> (\<forall>i. holds (tms (snd st) i) a (if i \<in> set (m_interfaces (fst st)) then joined_set (fst st) else {}))"

lemma joined_set_keys: "sm_ok (m_joined_groups sp) \<Longrightarrow> joined_set sp = fst ` set (m_joined_groups sp)"
  by (simp add: joined_set_def dom_map_of_conv_image_fst)

lemma concerns_simps [simp]: "concerns a (join_t u s) \<longleftrightarrow> s = a" "concerns a (leave_t u s) \<longleftrightarrow> s = a"
  "concerns a (leave_all_t s) \<longleftrightarrow> s = a"
  by (simp_all add: concerns_def)

lemma sock_join_coherent:
  assumes c: "coherent a st" and r: "sock_join h freed a u st = (Inr (), st')"
  shows "coherent a st' \<and> joined_set (fst st') = insert u (joined_set (fst st))"
proof (cases "map_of (m_joined_groups (fst st)) u")
  case None
  let ?sp = "fst st"
  have ne: "m_interfaces ?sp \<noteq> []" using c by (simp add: coherent_def)
  from r None ne obtain ms' where e: "each (request_at h freed (join_t u a)) (m_interfaces ?sp) (snd st) = (Inr (), ms')"
    and st': "st' = (?sp\<lparr>m_joined_groups := sm_insert u () (m_joined_groups ?sp)\<rparr>, ms')"
    by (auto simp: sock_join_def split_def prod_eq_iff)
  have j: "joined_set (fst st') = insert u (joined_set ?sp)"
    using c None by (auto simp: st' joined_set_def coherent_def domIff)
  have "\<forall>i. holds (tms (snd st) i) a (if i \<in> set (m_interfaces ?sp) then joined_set ?sp else {})" "distinct (m_interfaces ?sp)"
    using c by (simp_all add: coherent_def)
  from each_request_holds [OF this(1) e _ this(2)] j c ne show ?thesis
    by (auto simp: coherent_def st' split: if_splits)
next
  case (Some x)
  with r c have "st' = st" by (auto simp: sock_join_def split_def coherent_def prod_eq_iff)
  with Some c show ?thesis by (auto simp: joined_set_def)
qed

lemma sock_leave_coherent:
  assumes c: "coherent a st" and r: "sock_leave h freed a u st = (Inr (), st')"
  shows "coherent a st' \<and> joined_set (fst st') = joined_set (fst st) - {u}"
proof (cases "map_of (m_joined_groups (fst st)) u")
  case (Some x)
  let ?sp = "fst st"
  have ne: "m_interfaces ?sp \<noteq> []" using c by (simp add: coherent_def)
  from r Some ne obtain ms' where e: "each (request_at h freed (leave_t u a)) (m_interfaces ?sp) (snd st) = (Inr (), ms')"
    and st': "st' = (?sp\<lparr>m_joined_groups := sm_erase u (m_joined_groups ?sp)\<rparr>, ms')"
    by (auto simp: sock_leave_def split_def prod_eq_iff)
  have j: "joined_set (fst st') = joined_set ?sp - {u}"
    by (auto simp: st' joined_set_def domIff)
  have "\<forall>i. holds (tms (snd st) i) a (if i \<in> set (m_interfaces ?sp) then joined_set ?sp else {})" "distinct (m_interfaces ?sp)"
    using c by (simp_all add: coherent_def)
  from each_request_holds [OF this(1) e _ this(2)] j c ne show ?thesis
    by (auto simp: coherent_def st' split: if_splits)
next
  case None
  with r c have "st' = st" by (auto simp: sock_leave_def split_def coherent_def prod_eq_iff)
  with None c show ?thesis by (auto simp: joined_set_def domIff)
qed

lemma sock_leave_all_holds:
  assumes H: "\<forall>i. holds (tms (snd st) i) a (J i)" and d: "distinct (m_interfaces (fst st))"
    and r: "sock_leave_all h freed a b st = (Inr (), st')"
  shows "\<forall>i. holds (tms (snd st') i) a (if i \<in> set (m_interfaces (fst st)) then {} else J i)"
    "m_interfaces (fst st') = m_interfaces (fst st)"
    "m_joined_groups (fst st') = (if b \<and> m_interfaces (fst st) \<noteq> [] then [] else m_joined_groups (fst st))"
proof -
  have "(m_interfaces (fst st) = [] \<and> st' = st) \<or>
      (\<exists>ms'. each (request_at h freed (leave_all_t a)) (m_interfaces (fst st)) (snd st) = (Inr (), ms') \<and> m_interfaces (fst st) \<noteq> []
        \<and> st' = ((if b then (fst st)\<lparr>m_joined_groups := []\<rparr> else fst st), ms'))"
    using r by (auto simp: sock_leave_all_def split_def prod_eq_iff split: if_splits sum.splits)
  then consider "m_interfaces (fst st) = []" "st' = st"
    | ms' where "each (request_at h freed (leave_all_t a)) (m_interfaces (fst st)) (snd st) = (Inr (), ms')" "m_interfaces (fst st) \<noteq> []"
      "st' = ((if b then (fst st)\<lparr>m_joined_groups := []\<rparr> else fst st), ms')" by blast
  then have "(\<forall>i. holds (tms (snd st') i) a (if i \<in> set (m_interfaces (fst st)) then {} else J i))
    \<and> m_interfaces (fst st') = m_interfaces (fst st)
    \<and> m_joined_groups (fst st') = (if b \<and> m_interfaces (fst st) \<noteq> [] then [] else m_joined_groups (fst st))"
  proof cases
    case 1
    with H show ?thesis by simp
  next
    case (2 ms')
    have h: "\<forall>i. holds (tms ms' i) a (if i \<in> set (m_interfaces (fst st)) then {} else J i)"
      using each_request_holds [OF H 2(1) _ d] unfolding groups_after.simps concerns_simps by blast
    with 2(2,3) show ?thesis by (cases b) (simp_all del: if_split)
  qed
  then show "\<forall>i. holds (tms (snd st') i) a (if i \<in> set (m_interfaces (fst st)) then {} else J i)"
    "m_interfaces (fst st') = m_interfaces (fst st)"
    "m_joined_groups (fst st') = (if b \<and> m_interfaces (fst st) \<noteq> [] then [] else m_joined_groups (fst st))" by blast+
qed

lemma each_groups_hold:
  assumes "\<forall>i. holds (tms ms i) a (J i)" "distinct is"
    "each (\<lambda>(g, _). each (request_at h freed (join_t g a)) is) gs ms = (Inr (), ms')"
  shows "\<forall>i. holds (tms ms' i) a (if i \<in> set is then fst ` set gs \<union> J i else J i)"
  using assms(1,3)
proof (induction gs arbitrary: ms J)
  case Nil
  then show ?case by simp
next
  case (Cons p gs)
  obtain g x where p: "p = (g, x)" by (cases p)
  with Cons.prems obtain ms1 where 1: "each (request_at h freed (join_t g a)) is ms = (Inr (), ms1)"
    and 2: "each (\<lambda>(g, _). each (request_at h freed (join_t g a)) is) gs ms1 = (Inr (), ms')"
    by (auto elim: sbind_InrE)
  have "\<forall>i. holds (tms ms1 i) a (if i \<in> set is then insert g (J i) else J i)"
    using each_request_holds [OF Cons.prems(1) 1 _ assms(2)] unfolding groups_after.simps concerns_simps by blast
  from Cons.IH [OF this 2] have ih: "holds (tms ms' i) a (if i \<in> set is then fst ` set gs \<union> (if i \<in> set is then insert g (J i) else J i)
    else if i \<in> set is then insert g (J i) else J i)" for i by blast
  show ?case
  proof
    fix i
    show "holds (tms ms' i) a (if i \<in> set is then fst ` set (p # gs) \<union> J i else J i)"
      using ih [of i] by (cases "i \<in> set is") (simp_all add: p)
  qed
qed

lemma set_interfaces_coherent:
  assumes c: "coherent a st" and l: "distinct l" "l \<noteq> []" and r: "set_interfaces h freed a l st = (Inr (), st')"
  shows "coherent a st' \<and> joined_set (fst st') = joined_set (fst st) \<and> set (m_interfaces (fst st')) = set l"
proof -
  let ?sp = "fst st" and ?J = "joined_set (fst st)"
  define I where "I = set_intersection (sort l) (sort (m_interfaces ?sp))"
  define ifs where "ifs = fold (\<lambda>i v. find_and_erase v i) I (sort (m_interfaces ?sp))"
  define new where "new = fold (\<lambda>i v. find_and_erase v i) I (sort l)"
  have d: "distinct (m_interfaces ?sp)" "sm_ok (m_joined_groups ?sp)"
    and H: "\<forall>i. holds (tms (snd st) i) a (if i \<in> set (m_interfaces ?sp) then ?J else {})"
    using c by (simp_all add: coherent_def)
  have I: "set I = set l \<inter> set (m_interfaces ?sp)" "distinct I"
    using set_intersection_props [of "sort l" "sort (m_interfaces ?sp)"] d l by (simp_all add: I_def)
  have ifs: "set ifs = set (m_interfaces ?sp) - set l" "distinct ifs"
    and new: "set new = set l - set (m_interfaces ?sp)" "distinct new"
    using fold_find_and_erase [of "sort (m_interfaces ?sp)" I] fold_find_and_erase [of "sort l" I] d l I
    by (auto simp: ifs_def new_def)
  let ?st0 = "(?sp\<lparr>m_interfaces := ifs\<rparr>, snd st)"
  let ?K = "\<lambda>i. if i \<in> set ifs then {} else if i \<in> set (m_interfaces ?sp) then ?J else {}"
  obtain st1 where 1: "(if ifs \<noteq> [] then sock_leave_all h freed a False ?st0 else (Inr (), ?st0)) = (Inr (), st1)"
    and 2: "(case each (\<lambda>(g, _). each (request_at h freed (join_t g a)) new) (m_joined_groups (fst st1)) (snd st1) of
        (Inl e, ms') \<Rightarrow> (Inl e, fst st1, ms')
      | (Inr _, ms') \<Rightarrow> (Inr (), (fst st1)\<lparr>m_interfaces := I @ new\<rparr>, ms')) = (Inr (), st')"
    using r unfolding set_interfaces_def Let_def split_def I_def [symmetric] ifs_def [symmetric] new_def [symmetric]
    by (elim sbind_InrE) auto
  have "(\<forall>i. holds (tms (snd st1) i) a (?K i)) \<and> m_joined_groups (fst st1) = m_joined_groups ?sp"
  proof (cases "ifs = []")
    case True
    with 1 H show ?thesis by (auto split: if_splits)
  next
    case False
    with 1 have s: "sock_leave_all h freed a False ?st0 = (Inr (), st1)" by simp
    have "\<forall>i. holds (tms (snd ?st0) i) a (if i \<in> set (m_interfaces ?sp) then ?J else {})" using H by simp
    from sock_leave_all_holds [OF this _ s] ifs(2) show ?thesis by simp
  qed
  then have K: "\<forall>i. holds (tms (snd st1) i) a (?K i)" and j1: "m_joined_groups (fst st1) = m_joined_groups ?sp" by blast+
  from 2 obtain ms' where e: "each (\<lambda>(g, _). each (request_at h freed (join_t g a)) new) (m_joined_groups ?sp) (snd st1) = (Inr (), ms')"
    and st': "st' = ((fst st1)\<lparr>m_interfaces := I @ new\<rparr>, ms')" by (auto simp: j1 split: prod.splits sum.splits)
  have J: "fst ` set (m_joined_groups ?sp) = ?J" using joined_set_keys [OF d(2)] by simp
  from each_groups_hold [OF K new(2) e] have h: "holds (tms ms' i) a (if i \<in> set new then ?J \<union> ?K i else ?K i)" for i
    unfolding J by blast
  have "holds (tms ms' i) a (if i \<in> set (I @ new) then ?J else {})" for i
  proof -
    have "(if i \<in> set new then ?J \<union> ?K i else ?K i) = (if i \<in> set (I @ new) then ?J else {})"
      using I(1) ifs(1) new(1) by auto
    with h [of i] show ?thesis by simp
  qed
  moreover have s: "set (I @ new) = set l" using I(1) new(1) by auto
  moreover have "I @ new \<noteq> []" using s l(2) by (metis set_empty)
  moreover have "distinct (I @ new)" using I new by auto
  moreover have m: "m_interfaces (fst st') = I @ new" "m_joined_groups (fst st') = m_joined_groups ?sp" "snd st' = ms'"
    "joined_set (fst st') = ?J" by (simp_all add: st' j1 joined_set_def)
  ultimately show ?thesis unfolding coherent_def m using d(2) by blast
qed

text \<open>
  What happens to a socket and the modules: the requests of its client, and whatever the
  modules do for others meanwhile (a request or job that does not concern the socket, a job
  that is queued, a received packet that changes a module's own state).
\<close>

inductive sock_step ::
  "(nat \<Rightarrow> 'm hc_module_handle) \<Rightarrow> nat \<Rightarrow> nat \<Rightarrow> 'm sock_state \<Rightarrow> 'm sock_state \<Rightarrow> bool" for h freed a where
  sk_join: "sock_join h freed a u st = (Inr (), st') \<Longrightarrow> sock_step h freed a st st'"
| sk_leave: "sock_leave h freed a u st = (Inr (), st') \<Longrightarrow> sock_step h freed a st st'"
| sk_interfaces: "set_interfaces h freed a l st = (Inr (), st') \<Longrightarrow> distinct l \<Longrightarrow> l \<noteq> [] \<Longrightarrow> sock_step h freed a st st'"
| sk_other: "request_at h freed msg i (snd st) = (Inr r, ms) \<Longrightarrow> \<not> concerns a msg \<Longrightarrow> msg \<noteq> kill_t \<Longrightarrow>
     sock_step h freed a st (fst st, ms)"
| sk_send: "handle_async_send addr asv sptr st = (Inr out, st') \<Longrightarrow> sock_step h freed a st st'"
| sk_instance: "sock_step h freed a st (fst st, (snd st)\<lparr>tms := (tms (snd st))(i := (tms (snd st) i)\<lparr>m_instance := m\<rparr>)\<rparr>)"

lemma holds_instance: "holds (tm\<lparr>m_instance := m\<rparr>) a J = holds tm a J"
  by (simp add: holds_def quiet_def)

lemma add_job_holds: "holds tm a J \<Longrightarrow> holds (add_job j tm) a J"
  by (auto simp: add_job_def holds_def quiet_def concerns_def)

lemma add_jobs_hold:
  "\<forall>i. holds (f i) a (J i) \<Longrightarrow> \<forall>i. holds (fold (\<lambda>t f. f(t := add_job sj (f t))) is f i) a (J i)"
  by (induction "is" arbitrary: f) (simp_all add: add_job_holds)

lemma handle_async_send_modules:
  assumes "handle_async_send addr asv sptr (sp, ms) = (Inr out, sp', ms')"
  shows "m_interfaces sp' = m_interfaces sp \<and> m_joined_groups sp' = m_joined_groups sp
    \<and> (tms ms' = tms ms \<or> (\<exists>sj. tms ms' = fold (\<lambda>t f. f(t := add_job sj (f t))) (m_interfaces sp) (tms ms)))"
proof (cases "map_of (m_streams sp) (stm_id asv)")
  case None
  with assms show ?thesis by (simp add: handle_async_send_def)
next
  case (Some g)
  show ?thesis
  proof (cases "next_expected_seq_nr sp = seq_nr asv \<and> asv_bytes asv \<le> m_send_buf sp")
    case False
    with Some assms show ?thesis by (auto simp: handle_async_send_def try_acquire_def Let_def split: if_splits)
  next
    case True
    then have t: "try_acquire (asv_bytes asv) (m_send_buf sp) = (True, m_send_buf sp - asv_bytes asv)"
      by (simp add: try_acquire_def Let_def)
    show ?thesis
    proof (cases "new_send_job addr asv g (m_ttl sp) sptr")
      case (Inl e)
      with Some True t assms show ?thesis by (simp add: handle_async_send_def Let_def)
    next
      case (Inr sj)
      with Some True t assms show ?thesis by (auto simp: handle_async_send_def Let_def destroy_jobs_def)
    qed
  qed
qed

lemma sock_step_coherent: "sock_step h freed a st st' \<Longrightarrow> coherent a st \<Longrightarrow> coherent a st'"
proof (induction rule: sock_step.induct)
  case (sk_join u st st')
  then show ?case using sock_join_coherent by blast
next
  case (sk_leave u st st')
  then show ?case using sock_leave_coherent by blast
next
  case (sk_interfaces l st st')
  then show ?case using set_interfaces_coherent by blast
next
  case (sk_other msg i st r ms)
  have H: "holds (tms (snd st) j) a (if j \<in> set (m_interfaces (fst st)) then joined_set (fst st) else {})" for j
    using sk_other.prems by (simp add: coherent_def)
  note q = request_at_holds [OF H sk_other.hyps(1,3)]
  have "holds (tms ms j) a (if j \<in> set (m_interfaces (fst st)) then joined_set (fst st) else {})" for j
    using q(1) q(2) [of j] H [of j] sk_other.hyps(2) by (cases "j = i") (simp_all del: if_split)
  with sk_other.prems show ?case unfolding coherent_def fst_conv snd_conv by blast
next
  case (sk_send addr asv sptr st out st')
  obtain sp ms sp' ms' where s: "st = (sp, ms)" "st' = (sp', ms')" by (cases st, cases st')
  note h = handle_async_send_modules [OF sk_send.hyps [unfolded s]]
  then have e: "m_interfaces sp' = m_interfaces sp" "m_joined_groups sp' = m_joined_groups sp" "joined_set sp' = joined_set sp"
    by (simp_all add: joined_set_def)
  have H: "\<forall>i. holds (tms ms i) a (if i \<in> set (m_interfaces sp) then joined_set sp else {})"
    using sk_send.prems unfolding coherent_def s fst_conv snd_conv by blast
  from h consider "tms ms' = tms ms" | sj where "tms ms' = fold (\<lambda>t f. f(t := add_job sj (f t))) (m_interfaces sp) (tms ms)" by blast
  then have "\<forall>i. holds (tms ms' i) a (if i \<in> set (m_interfaces sp) then joined_set sp else {})"
  proof cases
    case 1
    show ?thesis unfolding 1 by (rule H)
  next
    case (2 sj)
    show ?thesis unfolding 2 by (rule add_jobs_hold [OF H])
  qed
  with sk_send.prems show ?case unfolding coherent_def s fst_conv snd_conv e by blast
next
  case (sk_instance st i m)
  have "holds (((tms (snd st))(i := (tms (snd st) i)\<lparr>m_instance := m\<rparr>)) j) a J = holds (tms (snd st) j) a J" for j J
    by (simp add: holds_instance)
  with sk_instance show ?case unfolding coherent_def fst_conv snd_conv by simp
qed

section \<open>Properties of groups and interfaces\<close>

text \<open>C8: A socket is a member of exactly its groups on exactly its interfaces: from its
  creation on, after any sequence of joins, leaves, changes of the interfaces (without
  repetitions in the new list) and sends, and whatever other sockets request in between, the
  module \<open>i\<close> lists the socket under a group iff \<open>i\<close> is an interface of the socket and the
  group is the module's name of one of its joined groups.\<close>

theorem socket_groups_coherent:
  assumes "new_socket_proxy sid parent ms = Inr sp"
    "\<forall>i. joins_ok (tms ms i) \<and> quiet a (tms ms i) \<and> (\<forall>g. (g, a) \<notin> members (tms ms i))"
    "(sock_step h freed a)\<^sup>*\<^sup>* (sp, ms) (sp', ms')"
  shows "(g, a) \<in> members (tms ms' i) \<longleftrightarrow>
    i \<in> set (m_interfaces sp') \<and> (\<exists>u \<in> joined_set sp'. mapped (tms ms' i) u = Some g)"
proof -
  have sp: "m_joined_groups sp = []" "\<exists>x. m_interfaces sp = [x]"
    using assms(1) by (auto simp: new_socket_proxy_def Let_def rbind_def hc_require_def split: if_splits)
  then have "joined_set sp = {}" by (simp add: joined_set_def)
  moreover have "\<forall>i. holds (tms ms i) a {}" using assms(2) by (simp add: holds_def)
  ultimately have "coherent a (sp, ms)" using sp by (auto simp: coherent_def)
  with assms(3) have "coherent a (sp', ms')"
    by (induction rule: rtranclp_induct) (auto intro: sock_step_coherent)
  then have "holds (tms ms' i) a (if i \<in> set (m_interfaces sp') then joined_set sp' else {})"
    unfolding coherent_def fst_conv snd_conv by blast
  then show ?thesis by (cases "i \<in> set (m_interfaces sp')") (simp_all add: holds_def)
qed

lemma set_module_request:
  assumes "joins_ok tm" "named_by id tm" "in_step id tm" "m_queue tm = []" "addressed msg" "msg \<noteq> kill_t"
  obtains r tm' where "tm_request set_module 0 msg tm = (Inr r, tm')"
proof -
  have "kill_t \<notin> set [msg] \<and> list_all addressed [msg]" using assms by simp
  from worker_loop_total [OF keeps_groups_set_module maps_by_set_module assms(1-3) this] obtain rs tm1
    where "worker_loop set_module 0 [msg] tm = (Inr rs, tm1)" by blast
  then show ?thesis using assms(4) by (intro that [of "last rs" "tm1\<lparr>m_queue := []\<rparr>"]) (simp add: tm_request_def del: worker_loop.simps)
qed

theorem socket_groups_coherent_witness:
  "\<exists>u sp ms. (sock_step (\<lambda>_. set_module) 0 5)\<^sup>*\<^sup>* (example_socket, example_modules) (sp, ms)
     \<and> joined_set sp = {u} \<and> (\<forall>g. (g, 5) \<in> members (tms ms 0) \<longleftrightarrow> mapped (tms ms 0) u = Some g)"
proof -
  obtain u :: uri where u: "u \<noteq> default_uri" using example_uri by blast
  let ?tm = "new_tech_module 1 {} [] 1500 :: uri set tech_module"
  obtain r tm' where t: "tm_request set_module 0 (join_t u 5) ?tm = (Inr r, tm')"
    by (rule set_module_request [of ?tm "join_t u 5"]) (simp_all add: new_module_served u, simp add: new_tech_module_def)
  then obtain ms where j: "sock_join (\<lambda>_. set_module) 0 5 u (example_socket, example_modules) =
      (Inr (), example_socket\<lparr>m_joined_groups := [(u, ())]\<rparr>, ms)"
    by (simp add: sock_join_def example_socket_def sbind_def request_at_def example_modules_def)
  then have "(sock_step (\<lambda>_. set_module) 0 5)\<^sup>*\<^sup>* (example_socket, example_modules) (example_socket\<lparr>m_joined_groups := [(u, ())]\<rparr>, ms)"
    by (intro r_into_rtranclp sk_join)
  moreover have "\<forall>i. joins_ok (tms example_modules i) \<and> quiet 5 (tms example_modules i) \<and> (\<forall>g. (g, 5) \<notin> members (tms example_modules i))"
    by (simp add: example_modules_def quiet_def) (simp add: new_tech_module_def)
  ultimately show ?thesis
    using socket_groups_coherent [OF example_new_socket, of 5 "\<lambda>_. set_module" 0 "example_socket\<lparr>m_joined_groups := [(u, ())]\<rparr>" ms _ 0]
    by (intro exI [of _ u] exI [of _ "example_socket\<lparr>m_joined_groups := [(u, ())]\<rparr>"] exI [of _ ms])
      (simp add: joined_set_def example_socket_def)
qed

text \<open>C35: An interface given twice loses the groups of a socket: when the list of interfaces of
  a socket contains the module \<open>i\<close> twice and the client then selects \<open>i\<close> alone, the socket
  stays on \<open>i\<close> with all its joined groups, but the module is asked to leave them all.\<close>

theorem set_interfaces_twice:
  assumes "m_interfaces sp = [i, i]" "holds (tms ms i) a (joined_set sp)"
    "set_interfaces h freed a [i] (sp, ms) = (Inr (), sp', ms')"
  shows "m_interfaces sp' = [i] \<and> joined_set sp' = joined_set sp \<and> (\<forall>g. (g, a) \<notin> members (tms ms' i))"
proof -
  have I: "set_intersection (sort [i]) (sort [i, i]) = [i]"
    and N: "fold (\<lambda>i v. find_and_erase v i) [i] (sort [i]) = []"
    and F: "fold (\<lambda>i v. find_and_erase v i) [i] (sort [i, i]) = [i]" by (simp_all add: find_and_erase_def)
  have l: "sbind (sock_leave_all h freed a False) (\<lambda>_ st.
      (case each (\<lambda>(g, _). each (request_at h freed (join_t g a)) []) (m_joined_groups (fst st)) (snd st) of
         (Inl e, ms') \<Rightarrow> (Inl e, fst st, ms') | (Inr _, ms') \<Rightarrow> (Inr (), (fst st)\<lparr>m_interfaces := [i]\<rparr>, ms')))
      (sp\<lparr>m_interfaces := [i]\<rparr>, ms) = (Inr (), sp', ms')"
    using assms(3) unfolding set_interfaces_def split_conv Let_def assms(1) I N F append_Nil2 by simp
  have n: "each (\<lambda>(g, _). each (request_at h freed (join_t g a)) []) gs ms = (Inr (), ms)" for gs :: "(uri \<times> unit) list" and ms
    by (induction gs) (auto simp: sbind_def)
  from l obtain st1 where s: "sock_leave_all h freed a False (sp\<lparr>m_interfaces := [i]\<rparr>, ms) = (Inr (), st1)"
    and f: "sp' = (fst st1)\<lparr>m_interfaces := [i]\<rparr>" "ms' = snd st1"
    by (elim sbind_InrE) (auto simp: n)
  from s obtain r where q: "request_at h freed (leave_all_t a) i ms = (Inr r, snd st1)" and sp1: "fst st1 = sp\<lparr>m_interfaces := [i]\<rparr>"
    by (auto simp: sock_leave_all_def sbind_def split: prod.splits sum.splits)
  from request_at_holds(1) [OF assms(2) q] have "\<forall>g. (g, a) \<notin> members (tms (snd st1) i)" by (simp add: holds_def)
  then show ?thesis by (simp add: f sp1 joined_set_def)
qed

definition joined_module :: "uri \<Rightarrow> nat \<Rightarrow> uri set tech_module" where
  "joined_module g s =
     \<lparr>m_id = 1, m_instance = {g}, m_atomic_msg_size = 1500, m_service_discovery_results = [], m_queue = [],
      m_joins = [(g, g, [s])], m_fjoins = [(g, g)],
      worker_mappings = \<lparr>m_forward_map = [(g, g)], m_reverse_map = [(g, g)]\<rparr>\<rparr>"

lemma joined_module_ok:
  assumes "g \<noteq> default_uri"
  shows "joins_ok (joined_module g s)" "named_by id (joined_module g s)" "in_step id (joined_module g s)"
    "m_queue (joined_module g s) = []" "holds (joined_module g s) s {g}"
proof -
  show ok: "joins_ok (joined_module g s)" using assms
    by (auto simp: joined_module_def joins_ok_def list_ok_def sm_ok_def um_ok_def split: if_splits)
  show "named_by id (joined_module g s)" using assms by (auto simp: joined_module_def named_by_def mapped_def split: if_splits)
  show "in_step id (joined_module g s)" by (simp add: joined_module_def in_step_def groups_def)
  show "m_queue (joined_module g s) = []" by (simp add: joined_module_def)
  show "holds (joined_module g s) s {g}" using ok by (auto simp: holds_def quiet_def joined_module_def mapped_def members_def split: if_splits)
qed

theorem set_interfaces_twice_witness:
  "\<exists>g sp ms sp' ms'. joined_set sp = {g} \<and> m_interfaces sp = [0, 0]
     \<and> set_interfaces (\<lambda>_. set_module) 0 5 [0] (sp, ms) = (Inr (), sp', ms') \<and> m_interfaces sp' = [0]
     \<and> joined_set sp' = {g} \<and> (\<forall>g. (g, 5) \<notin> members (tms ms' 0))"
proof -
  obtain g :: uri where g: "g \<noteq> default_uri" using example_uri by blast
  let ?sp = "example_socket\<lparr>m_interfaces := [0, 0], m_joined_groups := [(g, ())]\<rparr>"
  let ?ms = "example_modules\<lparr>tms := (tms example_modules)(0 := joined_module g 5)\<rparr>"
  note ok = joined_module_ok [OF g, of 5]
  obtain r tm' where t: "tm_request set_module 0 (leave_all_t 5) (joined_module g 5) = (Inr r, tm')"
    by (rule set_module_request [OF ok(1-4), of "leave_all_t 5"]) simp_all
  then obtain ms' where s: "set_interfaces (\<lambda>_. set_module) 0 5 [0] (?sp, ?ms) = (Inr (), ?sp\<lparr>m_interfaces := [0]\<rparr>, ms')"
    by (simp add: set_interfaces_def find_and_erase_def sock_leave_all_def sbind_def request_at_def Let_def)
  have j: "joined_set ?sp = {g}" by (simp add: joined_set_def)
  from set_interfaces_twice [OF _ _ s] ok(5) j have "m_interfaces (?sp\<lparr>m_interfaces := [0]\<rparr>) = [0]
      \<and> joined_set (?sp\<lparr>m_interfaces := [0]\<rparr>) = {g} \<and> (\<forall>g. (g, 5) \<notin> members (tms ms' 0))" by simp
  with s j show ?thesis by (intro exI [of _ g] exI [of _ ?sp] exI [of _ ?ms] exI [of _ "?sp\<lparr>m_interfaces := [0]\<rparr>"] exI [of _ ms']) simp
qed

section \<open>Delivery of received packets\<close>

text \<open>
  The interface \<open>abstract_socket\<close> as the module sees it: \<open>room\<close> is what a socket can still take.
\<close>

locale abstract_socket =
  fixes acquire :: "nat \<Rightarrow> nat \<Rightarrow> 's \<Rightarrow> bool \<times> 's" and room :: "'s \<Rightarrow> nat \<Rightarrow> int"
  assumes acquire_yes: "int n \<le> room h s \<Longrightarrow> \<exists>h'. acquire s n h = (True, h') \<and> room h' = (room h)(s := room h s - int n)"
    and acquire_no: "room h s < int n \<Longrightarrow> \<exists>h'. acquire s n h = (False, h') \<and> room h' = room h"
begin

lemma packet_fits: "len \<le> 65536 \<Longrightarrow> nat len \<le> packet_class len"
  by (simp add: packet_class_def nat_le_iff)

lemma deliver_exact:
  assumes "0 \<le> len" "len \<le> 65536" "nat len \<le> length data" "distinct socks"
  shows "\<exists>h'. deliver acquire sid parent data len source socks h =
      (Inr (map (\<lambda>s. (parent s, outgoing_mcast_pckt_t (packet_class len) (sid s) source (take (nat len) data)))
             (filter (\<lambda>s. len \<le> room h s) socks)), h')
    \<and> room h' = (\<lambda>s. if s \<in> set socks \<and> len \<le> room h s then room h s - len else room h s)"
  using assms(4)
proof (induction socks arbitrary: h)
  case Nil
  then show ?case by simp
next
  case (Cons s socks)
  have m: "new_mcast_packet_msg (packet_class len) data len source (sid s) =
      Inr (outgoing_mcast_pckt_t (packet_class len) (sid s) source (take (nat len) data))"
    using packet_fits [OF assms(2)] assms(3) by (simp add: new_mcast_packet_msg_def)
  show ?case
  proof (cases "len \<le> room h s")
    case True
    then obtain h1 where a: "acquire s (nat len) h = (True, h1)" and r: "room h1 = (room h)(s := room h s - len)"
      using acquire_yes [of "nat len" h s] assms(1) by auto
    from Cons.IH [of h1] Cons.prems obtain h' where d: "deliver acquire sid parent data len source socks h1 =
        (Inr (map (\<lambda>s. (parent s, outgoing_mcast_pckt_t (packet_class len) (sid s) source (take (nat len) data)))
             (filter (\<lambda>s. len \<le> room h1 s) socks)), h')"
      and r': "room h' = (\<lambda>s. if s \<in> set socks \<and> len \<le> room h1 s then room h1 s - len else room h1 s)" by auto
    have "filter (\<lambda>s. len \<le> room h1 s) socks = filter (\<lambda>s. len \<le> room h s) socks"
      using Cons.prems by (intro filter_cong) (auto simp: r)
    then show ?thesis using True Cons.prems by (auto simp: a m sbind_def d r' r fun_eq_iff)
  next
    case False
    then obtain h1 where a: "acquire s (nat len) h = (False, h1)" and r: "room h1 = room h"
      using acquire_no [of h s "nat len"] assms(1) by auto
    from Cons.IH [of h1] Cons.prems show ?thesis using False by (auto simp: a r fun_eq_iff)
  qed
qed

end

text \<open>The sockets of the middleware by address.\<close>

definition acquire_at :: "nat \<Rightarrow> nat \<Rightarrow> (nat \<Rightarrow> socket_proxy) \<Rightarrow> bool \<times> (nat \<Rightarrow> socket_proxy)" where
  "acquire_at s n socks = (case acquire_bytes n (socks s) of (b, sp) \<Rightarrow> (b, socks(s := sp)))"

lemma acquire_at_yes:
  "int n \<le> m_receive_buf (h s) \<Longrightarrow> acquire_at s n h = (True, h(s := (h s)\<lparr>m_receive_buf := m_receive_buf (h s) - int n\<rparr>))"
  by (simp add: acquire_at_def acquire_bytes_def try_acquire_def Let_def)

lemma acquire_at_no: "m_receive_buf (h s) < int n \<Longrightarrow> acquire_at s n h = (False, h)"
  by (simp add: acquire_at_def acquire_bytes_def try_acquire_def Let_def)

interpretation socks: abstract_socket acquire_at "\<lambda>socks s. m_receive_buf (socks s)"
proof unfold_locales
  show "\<exists>h'. acquire_at s n h = (True, h') \<and> (\<lambda>s. m_receive_buf (h' s)) = (\<lambda>s. m_receive_buf (h s))(s := m_receive_buf (h s) - int n)"
    if "int n \<le> m_receive_buf (h s)" for n h s
    unfolding acquire_at_yes [of n h s, OF that] by (rule exI, rule conjI, rule refl) (simp add: fun_eq_iff)
  show "\<exists>h'. acquire_at s n h = (False, h') \<and> (\<lambda>s. m_receive_buf (h' s)) = (\<lambda>s. m_receive_buf (h s))"
    if "m_receive_buf (h s) < int n" for h s n
    using acquire_at_no [of h s n, OF that] by simp
qed

lemma handle_receive_exact:
  assumes "joins_ok tm" "length data = nat len" "0 \<le> len" "len \<le> 65536"
  shows "\<exists>ss socks'. handle_receive acquire_at sid parent tm (Some data) len source socks =
      (Inr (map (\<lambda>s. (parent s, outgoing_mcast_pckt_t (packet_class len) (sid s) source data)) ss), socks')
    \<and> distinct ss \<and> set ss = {s. (source, s) \<in> members tm \<and> len \<le> m_receive_buf (socks s)}
    \<and> (\<forall>s. m_receive_buf (socks' s) = m_receive_buf (socks s) - (if s \<in> set ss then len else 0))"
proof (cases "map_of (m_joins tm) source")
  case None
  with assms show ?thesis by (intro exI [of _ "[]"] exI [of _ socks]) (simp add: handle_receive_def not_mem_members)
next
  case (Some e)
  with assms(1) obtain l where e: "e = (source, l)" "distinct l" by (rule joins_ok_entry)
  let ?ss = "filter (\<lambda>s. len \<le> m_receive_buf (socks s)) l"
  from socks.deliver_exact [OF assms(3,4) _ e(2), of data sid parent source socks] assms(2) obtain socks' where
    d: "deliver acquire_at sid parent data len source l socks =
      (Inr (map (\<lambda>s. (parent s, outgoing_mcast_pckt_t (packet_class len) (sid s) source data)) ?ss), socks')"
    and r: "(\<lambda>s. m_receive_buf (socks' s)) = (\<lambda>s. if s \<in> set l \<and> len \<le> m_receive_buf (socks s) then m_receive_buf (socks s) - len
        else m_receive_buf (socks s))" by auto
  have "m_receive_buf (socks' s) = m_receive_buf (socks s) - (if s \<in> set ?ss then len else 0)" for s
    using fun_cong [OF r, of s] by simp
  moreover have "set ?ss = {s. (source, s) \<in> members tm \<and> len \<le> m_receive_buf (socks s)}"
    using mem_members [OF Some] e by auto
  moreover have "handle_receive acquire_at sid parent tm (Some data) len source socks =
      (Inr (map (\<lambda>s. (parent s, outgoing_mcast_pckt_t (packet_class len) (sid s) source data)) ?ss), socks')"
    using assms Some e d by (simp add: handle_receive_def)
  ultimately show ?thesis using e(2) by (intro exI [of _ ?ss] exI [of _ socks']) (simp del: set_filter)
qed



end
