(* ===== verification/Sync_Function.thy ===== *)
theory Sync_Function
  imports Message
begin

text \<open>
  Synchronous IPC calls (\<open>libhamcast/hamcast/ipc/sync_function.hpp\<close>): the client serializes the
  arguments, the middleware deserializes them, runs a callback and serializes its result or
  the message of its exception, and the client decodes the response. A locale states what a
  type must promise to travel this way; for all such types a remote call behaves as a local
  call of the callback.
\<close>

section \<open>The two sides of a call\<close>

abbreviation wr_buf :: "bytes \<Rightarrow> (write_buffer, unit) op" where
  "wr_buf \<equiv> wb_write default_block_size default_max_write_buffer_size"

type_synonym 'a reader = "(read_buffer \<times> uri_cache, 'a) op"

text \<open>\<open>util::unit\<close> has no bytes.\<close>

definition ser_unit :: "unit \<Rightarrow> (write_buffer, unit) op" where
  "ser_unit x = sret ()"

definition des_unit :: "unit reader" where
  "des_unit = sret ()"

text \<open>The arguments as the content of the request.\<close>

definition request_content :: "('a \<Rightarrow> (write_buffer, unit) op) \<Rightarrow> 'a \<Rightarrow> bytes res" where
  "request_content ser args =
     (case ser args new_write_buffer of
        (Inl e, _) \<Rightarrow> Inl e
      | (Inr _, wb) \<Rightarrow> Inr (wb_content wb))"

text \<open>A deserializer over the content of a message.\<close>

definition from_content :: "'a reader \<Rightarrow> bytes option \<Rightarrow> u32 \<Rightarrow> 'a res" where
  "from_content des ct ct_size =
     fst (des (new_read_buffer (case ct of None \<Rightarrow> [] | Some c \<Rightarrow> take (unat ct_size) c), []))"

text \<open>
  \<open>reply\<close>. The arguments are read before the \<open>try\<close> block, so an exception there is not part of
  the response. The two kinds of exception that are caught are sent as their text.
\<close>

definition response :: "exception_id \<Rightarrow> u32 \<Rightarrow> write_buffer \<Rightarrow> message res" where
  "response eid req_id wb =
     message_create_pair (message_type_code sync_response) (exception_id_code eid) req_id 0 (fst (wb_take wb))"

definition error_response :: "exception_id \<Rightarrow> u32 \<Rightarrow> string \<Rightarrow> write_buffer \<Rightarrow> message res" where
  "error_response eid req_id what wb =
     (case ser_string wr_buf what wb of
        (Inl e, _) \<Rightarrow> Inl e
      | (Inr _, wb') \<Rightarrow> response eid req_id wb')"

definition reply ::
  "'a reader \<Rightarrow> ('a \<Rightarrow> ('s, 'r) op) \<Rightarrow> ('r \<Rightarrow> (write_buffer, unit) op) \<Rightarrow> u32 \<Rightarrow> bytes option \<Rightarrow> u32 \<Rightarrow> ('s, message) op" where
  "reply des cb ser req_id ct ct_size s =
     (case from_content des ct ct_size of
        Inl e \<Rightarrow> (Inl e, s)
      | Inr args \<Rightarrow>
          (case cb args s of (res, s') \<Rightarrow>
             (let (res', wb) = (case res of Inl e \<Rightarrow> (Inl e, new_write_buffer) | Inr r \<Rightarrow> ser r new_write_buffer)
              in (case res' of
                    Inr _ \<Rightarrow> response eid_none req_id wb
                  | Inl (Requirement_failed what) \<Rightarrow> error_response eid_requirement_failed req_id what wb
                  | Inl (Internal_interface_error what) \<Rightarrow> error_response eid_internal_interface_error req_id what wb
                  | Inl e \<Rightarrow> Inl e, s'))))"

text \<open>The end of \<open>invoke\<close>: the response as a result or as an exception.\<close>

definition decode_response :: "'r reader \<Rightarrow> message \<Rightarrow> 'r res" where
  "decode_response des srm =
     (if msg_field1 srm = exception_id_code eid_none
      then from_content des (msg_content srm) (msg_content_size srm)
      else if msg_field1 srm = exception_id_code eid_internal_interface_error
      then rbind (from_content (des_string rb_read) (msg_content srm) (msg_content_size srm))
             (\<lambda>err_msg. Inl (Internal_interface_error err_msg))
      else if msg_field1 srm = exception_id_code eid_requirement_failed
      then rbind (from_content (des_string rb_read) (msg_content srm) (msg_content_size srm))
             (\<lambda>err_msg. Inl (Requirement_failed err_msg))
      else Inl (Logic_error ''Unknown exception ID''))"

section \<open>Types that travel\<close>

abbreviation buf_encodes :: "(write_buffer, unit) op \<Rightarrow> bytes \<Rightarrow> bool" where
  "buf_encodes \<equiv> encodes (wb_ok default_block_size default_max_write_buffer_size) wb_content
     (\<lambda>wb. default_max_write_buffer_size - wb_wr_pos wb)"

abbreviation buf_decodes :: "'a reader \<Rightarrow> 'a \<Rightarrow> bytes \<Rightarrow> bool" where
  "buf_decodes \<equiv> decodes (\<lambda>_. True) rb_stream"

locale wire_type =
  fixes ser :: "'a \<Rightarrow> (write_buffer, unit) op" and des :: "'a reader" and enc :: "'a \<Rightarrow> bytes" and valid :: "'a \<Rightarrow> bool"
  assumes ser_enc: "valid x \<Longrightarrow> buf_encodes (ser x) (enc x)"
    and des_enc: "valid x \<Longrightarrow> buf_decodes des x (enc x)"
    and ser_empty: "valid x \<Longrightarrow> enc x = [] \<Longrightarrow> ser x = sret ()"
begin

lemma serialized:
  assumes "valid x" "length (enc x) \<le> default_max_write_buffer_size"
  obtains wb where "ser x new_write_buffer = (Inr (), wb)" "wb_ok default_block_size default_max_write_buffer_size wb"
    "wb_content wb = enc x" "wb_wr_pos wb = 0 \<Longrightarrow> wb_data wb = None"
proof -
  have "length (enc x) \<le> default_max_write_buffer_size - wb_wr_pos new_write_buffer"
    using assms(2) by (simp add: new_write_buffer_def)
  from encodesD [OF ser_enc [OF assms(1)] wb_ok_new this] obtain wb where w: "ser x new_write_buffer = (Inr (), wb)"
    "wb_ok default_block_size default_max_write_buffer_size wb" "wb_content wb = enc x"
    unfolding wb_content_new append_Nil by blast
  have "wb_data wb = None" if pos: "wb_wr_pos wb = 0"
  proof -
    from pos length_wb_content [OF w(2)] w(3) have "enc x = []" by simp
    then have "ser x = sret ()" by (rule ser_empty [OF assms(1)])
    with w(1) have "wb = new_write_buffer" by simp
    then show ?thesis by (simp add: new_write_buffer_def)
  qed
  then show ?thesis by (rule that [OF w])
qed

lemma deserialized: "valid x \<Longrightarrow> fst (des (new_read_buffer (enc x), [])) = Inr x"
proof -
  assume v: "valid x"
  have "cache_ok []" by (simp add: cache_ok_def)
  moreover have "rb_stream (new_read_buffer (enc x)) = enc x @ []" by (simp add: rb_stream_def new_read_buffer_def)
  ultimately obtain s' c' where "des (new_read_buffer (enc x), []) = (Inr x, (s', c'))"
    using decodesD [OF des_enc [OF v], where s = "new_read_buffer (enc x)" and c = "[]" and rest = "[]"] by blast
  then show ?thesis by simp
qed

lemma request_content_enc:
  "valid x \<Longrightarrow> length (enc x) \<le> default_max_write_buffer_size \<Longrightarrow> request_content ser x = Inr (enc x)"
  by (erule (1) serialized) (simp add: request_content_def)

lemma from_content_enc:
  assumes "valid x" "length (enc x) < 2 ^ 32"
  shows "from_content des (Some (enc x @ rest)) (of_nat (length (enc x))) = Inr x"
proof -
  have u: "unat (of_nat (length (enc x)) :: u32) = length (enc x)" using assms(2) by (simp add: unat_of_nat)
  show ?thesis unfolding from_content_def option.case u using deserialized [OF assms(1)] by simp
qed

end

lemma response_decodes:
  assumes "wb_ok default_block_size default_max_write_buffer_size wb"
    "wb_wr_pos wb = 0 \<Longrightarrow> wb_data wb = None"
  shows "\<exists>m. response eid rid wb = Inr m \<and> msg_field1 m = exception_id_code eid \<and> msg_field2 m = rid
    \<and> msg_type m = message_type_code sync_response
    \<and> (\<forall>des :: 'a reader. from_content des (msg_content m) (msg_content_size m) = fst (des (new_read_buffer (wb_content wb), [])))"
proof -
  have le: "wb_wr_pos wb \<le> default_max_write_buffer_size" using assms(1) by (simp add: wb_ok_def)
  then have u: "unat (of_nat (wb_wr_pos wb) :: u32) = wb_wr_pos wb"
    by (simp add: unat_of_nat default_max_write_buffer_size_def)
  have pos: "0 < (of_nat (wb_wr_pos wb) :: u32) \<longleftrightarrow> 0 < wb_wr_pos wb" using u by (simp add: word_less_nat_alt)
  show ?thesis
  proof (cases "wb_data wb")
    case None
    with assms(1) have "wb_wr_pos wb = 0" by (simp add: wb_ok_def)
    with None show ?thesis
      by (simp add: response_def message_create_pair_def message_create_def wb_take_def from_content_def wb_content_def)
  next
    case (Some d)
    with assms(2) have "0 < wb_wr_pos wb" by (cases "wb_wr_pos wb = 0") auto
    with Some le show ?thesis
      by (simp add: response_def message_create_pair_def message_create_def wb_take_def from_content_def wb_content_def u pos
          default_max_write_buffer_size_def)
  qed
qed

section \<open>The types of the interface\<close>

lemma wire_pair:
  assumes "wire_type s d e v" "wire_type s' d' e' v'" "\<And>x. e x \<noteq> []"
  shows "wire_type (ser_pair s s') (des_pair d d') (\<lambda>(x, y). e x @ e' y) (\<lambda>(x, y). v x \<and> v' y)"
proof (intro wire_type.intro)
  fix x assume x: "case x of (x, y) \<Rightarrow> v x \<and> v' y"
  obtain a b where ab: "x = (a, b)" "v a" "v' b" using x by (cases x) auto
  show "buf_encodes (ser_pair s s' x) (case x of (x, y) \<Rightarrow> e x @ e' y)"
    using wire_type.ser_enc [OF assms(1) ab(2)] wire_type.ser_enc [OF assms(2) ab(3)] by (simp add: ab encodes_ser_pair)
  show "buf_decodes (des_pair d d') x (case x of (x, y) \<Rightarrow> e x @ e' y)"
    using wire_type.des_enc [OF assms(1) ab(2)] wire_type.des_enc [OF assms(2) ab(3)] by (simp add: ab decodes_des_pair)
  show "ser_pair s s' x = sret ()" if "(case x of (x, y) \<Rightarrow> e x @ e' y) = []"
    using that assms(3) by (simp add: ab)
qed

lemma wire_vector:
  assumes "wire_type s d e v"
  shows "wire_type (serialize_container wr_buf s) (des_vector rb_read d) (enc_list e) (\<lambda>xs. length xs < 2 ^ 32 \<and> (\<forall>x \<in> set xs. v x))"
proof (intro wire_type.intro)
  fix xs assume xs: "length xs < 2 ^ 32 \<and> (\<forall>x \<in> set xs. v x)"
  show "buf_encodes (serialize_container wr_buf s xs) (enc_list e xs)"
    using xs wire_type.ser_enc [OF assms] by (intro wbuf.encodes_container) auto
  show "buf_decodes (des_vector rb_read d) xs (enc_list e xs)"
    using xs wire_type.des_enc [OF assms] by (intro rbuf.decodes_vector [of 4]) auto
  show "serialize_container wr_buf s xs = sret ()" if "enc_list e xs = []"
    using that length_le_enc [of 4 "length xs"] by (auto simp: enc_list_def)
qed

lemma le_enc_ne: "0 < k \<Longrightarrow> le_enc k x \<noteq> []"
  by (cases k) simp_all

lemma enc_ne: "enc_string s \<noteq> []" "enc_uri u \<noteq> []" "enc_interface_property ip \<noteq> []"
  by (simp_all add: enc_string_def enc_uri_def enc_interface_property_def le_enc_ne)

interpretation wunit: wire_type ser_unit des_unit "\<lambda>_. []" "\<lambda>_. True"
  by unfold_locales (simp_all add: ser_unit_def des_unit_def encodes_sret decodes_sret)

interpretation wu8: wire_type "ser_u8 wr_buf" "des_u8 rb_read" "\<lambda>w. le_enc 1 (unat w)" "\<lambda>_. True"
  by unfold_locales (rule wbuf.encodes_u8, rule rbuf.decodes_u8 [OF order_refl], simp_all)

interpretation wu16: wire_type "ser_u16 wr_buf" "des_u16 rb_read" "\<lambda>w. le_enc 2 (unat w)" "\<lambda>_. True"
  by unfold_locales (rule wbuf.encodes_u16, rule rbuf.decodes_u16 [OF order_refl], simp_all add: le_enc_ne)

interpretation wu32: wire_type "ser_u32 wr_buf" "des_u32 rb_read" "\<lambda>w. le_enc 4 (unat w)" "\<lambda>_. True"
  by unfold_locales (rule wbuf.encodes_u32, rule rbuf.decodes_u32 [OF order_refl], simp_all add: le_enc_ne)

interpretation wbool: wire_type "ser_bool wr_buf" "des_bool rb_read" "\<lambda>b. le_enc 1 (of_bool b)" "\<lambda>_. True"
  by unfold_locales (rule wbuf.encodes_bool, rule rbuf.decodes_bool [OF order_refl], simp_all)

interpretation wstring: wire_type "ser_string wr_buf" "des_string rb_read" enc_string string_ok
  by unfold_locales (rule wbuf.encodes_string, simp add: string_ok_def, rule rbuf.decodes_string [OF order_refl], simp_all add: enc_ne)

definition uri_ok :: "uri \<Rightarrow> bool" where
  "uri_ok u \<longleftrightarrow> string_ok (str u)"

interpretation wuri: wire_type "ser_uri wr_buf" "des_uri rb_read" enc_uri uri_ok
  by unfold_locales (rule wbuf.encodes_uri, simp add: uri_ok_def string_ok_def, rule rbuf.decodes_uri [OF order_refl], simp_all add: enc_ne uri_ok_def)

interpretation wprop: wire_type "ser_interface_property wr_buf" "des_interface_property rb_read" enc_interface_property property_ok
  by unfold_locales (erule wbuf.encodes_interface_property, erule rbuf.decodes_interface_property [OF order_refl], simp_all add: enc_ne)

section \<open>A remote call is a local call\<close>

locale sync_function =
  arg: wire_type ser_arg des_arg enc_arg valid_arg + res: wire_type ser_res des_res enc_res valid_res
  for ser_arg :: "'a \<Rightarrow> (write_buffer, unit) op" and des_arg :: "'a reader" and enc_arg :: "'a \<Rightarrow> bytes" and valid_arg :: "'a \<Rightarrow> bool"
    and ser_res :: "'r \<Rightarrow> (write_buffer, unit) op" and des_res :: "'r reader" and enc_res :: "'r \<Rightarrow> bytes" and valid_res :: "'r \<Rightarrow> bool"
begin

text \<open>The results and exceptions that fit a response.\<close>

definition sendable :: "'r res \<Rightarrow> bool" where
  "sendable r \<longleftrightarrow> (case r of
       Inr x \<Rightarrow> valid_res x \<and> length (enc_res x) \<le> default_max_write_buffer_size
     | Inl (Requirement_failed what) \<Rightarrow> string_ok what \<and> length (enc_string what) \<le> default_max_write_buffer_size
     | Inl (Internal_interface_error what) \<Rightarrow> string_ok what \<and> length (enc_string what) \<le> default_max_write_buffer_size
     | Inl _ \<Rightarrow> False)"

lemma error_response_decodes:
  assumes "string_ok what" "length (enc_string what) \<le> default_max_write_buffer_size"
  obtains m where "error_response eid rid what new_write_buffer = Inr m" "msg_field1 m = exception_id_code eid" "msg_field2 m = rid"
    "from_content (des_string rb_read) (msg_content m) (msg_content_size m) = Inr what"
proof -
  from wstring.serialized [OF assms] obtain wb where w: "ser_string wr_buf what new_write_buffer = (Inr (), wb)"
    "wb_ok default_block_size default_max_write_buffer_size wb" "wb_content wb = enc_string what"
    "wb_wr_pos wb = 0 \<Longrightarrow> wb_data wb = None" by blast
  from response_decodes [OF w(2,4), where ?'a = string, of eid rid] w(1,3) wstring.deserialized [OF assms(1)] that show ?thesis
    by (auto simp: error_response_def)
qed

lemma call_transparent:
  assumes "valid_arg a" "length (enc_arg a) \<le> default_max_write_buffer_size" "cb a s = (r, s')" "sendable r"
  shows "\<exists>m. request_content ser_arg a = Inr (enc_arg a)
    \<and> reply des_arg cb ser_res rid (Some (enc_arg a)) (of_nat (length (enc_arg a))) s = (Inr m, s')
    \<and> msg_field2 m = rid \<and> decode_response des_res m = r"
proof -
  have a: "from_content des_arg (Some (enc_arg a)) (of_nat (length (enc_arg a))) = Inr a"
    using arg.from_content_enc [OF assms(1), of "[]"] assms(2) by (simp add: default_max_write_buffer_size_def)
  have q: "request_content ser_arg a = Inr (enc_arg a)" by (rule arg.request_content_enc [OF assms(1,2)])
  have "\<exists>m. fst (reply des_arg cb ser_res rid (Some (enc_arg a)) (of_nat (length (enc_arg a))) s) = Inr m
    \<and> msg_field2 m = rid \<and> decode_response des_res m = r"
  proof (cases r)
    case (Inl e)
    with assms(4) obtain eid what where e: "(e, eid) \<in> {(Requirement_failed what, eid_requirement_failed), (Internal_interface_error what, eid_internal_interface_error)}"
      "string_ok what" "length (enc_string what) \<le> default_max_write_buffer_size" by (cases e) (auto simp: sendable_def)
    from error_response_decodes [OF e(2,3), of eid rid] obtain m where
      m: "error_response eid rid what new_write_buffer = Inr m" "msg_field1 m = exception_id_code eid"
      "msg_field2 m = rid" "from_content (des_string rb_read) (msg_content m) (msg_content_size m) = Inr what" by blast
    from e(1) m(1) have "fst (reply des_arg cb ser_res rid (Some (enc_arg a)) (of_nat (length (enc_arg a))) s) = Inr m"
      unfolding reply_def a sum.case assms(3) prod.case Inl Let_def by auto
    moreover from e(1) m(2,4) have "decode_response des_res m = r" by (auto simp: decode_response_def Inl)
    ultimately show ?thesis using m(3) by blast
  next
    case (Inr x)
    with assms(4) have x: "valid_res x" "length (enc_res x) \<le> default_max_write_buffer_size" by (simp_all add: sendable_def)
    from res.serialized [OF this] obtain wb where w: "ser_res x new_write_buffer = (Inr (), wb)"
      "wb_ok default_block_size default_max_write_buffer_size wb" "wb_content wb = enc_res x"
      "wb_wr_pos wb = 0 \<Longrightarrow> wb_data wb = None" by blast
    from response_decodes [OF w(2,4), where ?'a = 'r, of eid_none rid] obtain m where m: "response eid_none rid wb = Inr m"
      "msg_field1 m = exception_id_code eid_none" "msg_field2 m = rid" "from_content des_res (msg_content m) (msg_content_size m) = Inr x"
      unfolding w(3) using res.deserialized [OF x(1)] by auto
    have "fst (reply des_arg cb ser_res rid (Some (enc_arg a)) (of_nat (length (enc_arg a))) s) = Inr m"
      unfolding reply_def a sum.case assms(3) prod.case Inr Let_def w(1) m(1) by simp
    moreover have "decode_response des_res m = r" by (simp add: decode_response_def Inr m)
    ultimately show ?thesis using m(3) by blast
  qed
  moreover have "snd (reply des_arg cb ser_res rid (Some (enc_arg a)) (of_nat (length (enc_arg a))) s) = s'"
    unfolding reply_def a sum.case assms(3) prod.case by (simp add: case_prod_beta Let_def)
  ultimately show ?thesis unfolding prod_eq_iff fst_conv snd_conv using q by blast
qed

end

end
