(* ===== verification/Session.thy ===== *)
theory Session
  imports Socket_Proxy Sync_Function
begin

text \<open>
  A client session of the middleware (\<open>middleware/session.cpp\<close>) on top of the IPC channel loop
  (\<open>libhamcast/src/channel.cpp\<close>) and the dispatcher of synchronous functions
  (\<open>libhamcast/hamcast/ipc/api.hpp\<close>): the callbacks of the 21 functions, the handling of
  messages of the client and of the session's own queue, the forced acknowledgements and the
  end of a session.

  The lemmas show that every remote call returns to the client what its callback returned or
  threw, that a session keeps its sockets well-formed and coherent with the modules under any
  traffic, and that no module keeps a pointer to a socket that is gone.
\<close>

section \<open>The state\<close>

text \<open>What a session passes to its serializer; \<open>serialize_out\<close> is how it is written.\<close>

datatype wire_out =
    Wire_message message
  | Wire_data u32 uri bytes
  | Wire_event membership_event

fun serialize_out :: "(bytes \<Rightarrow> ('s, unit) op) \<Rightarrow> wire_out \<Rightarrow> ('s, unit) op" where
  "serialize_out wr (Wire_message m) = message_serialize wr m"
| "serialize_out wr (Wire_data sid source data) = serialize_data_message wr sid source data"
| "serialize_out wr (Wire_event ev) = serialize_event_message wr ev"

text \<open>
  The first five fields are shared by all sessions: the modules (with the queues of the
  sessions, \<open>pushed\<close>), the sockets by address, the next address to allocate, the subscribers
  of events and the flag \<open>s_is_img\<close>. The others belong to the session at address
  \<open>self_addr\<close>. \<open>ipc_out\<close> is what was written to the serializer so far and \<open>flushed\<close> how much of
  it was written when the serializer was last flushed.
\<close>

record 'm session =
  mods :: "'m modules"
  sockets_mem :: "nat \<Rightarrow> socket_proxy"
  next_addr :: nat
  subscribers :: event_subscribers
  s_is_img :: bool
  self_addr :: nat
  m_subscribed_events :: bool
  m_sockets :: "(u32, nat) smap"
  m_socket_id_generator :: u32
  m_loop_done :: bool
  ipc_out :: "wire_out list"
  flushed :: nat

text \<open>Numbers in error messages.\<close>

fun dec_digits :: "nat \<Rightarrow> string" where
  "dec_digits n = (if n < 10 then [char_of (48 + n)] else dec_digits (n div 10) @ [char_of (48 + n mod 10)])"

declare dec_digits.simps [simp del]

definition write_out :: "wire_out list \<Rightarrow> 'm session \<Rightarrow> 'm session" where
  "write_out os s = s\<lparr>ipc_out := ipc_out s @ os\<rparr>"

definition flush_out :: "'m session \<Rightarrow> 'm session" where
  "flush_out s = s\<lparr>flushed := length (ipc_out s)\<rparr>"

section \<open>Sockets\<close>

definition new_session :: "nat \<Rightarrow> 'm modules \<Rightarrow> (nat \<Rightarrow> socket_proxy) \<Rightarrow> nat \<Rightarrow> event_subscribers \<Rightarrow> bool \<Rightarrow> 'm session" where
  "new_session self ms mem addr subs img =
     \<lparr>mods = ms, sockets_mem = mem, next_addr = addr, subscribers = subs, s_is_img = img, self_addr = self,
      m_subscribed_events = False, m_sockets = [], m_socket_id_generator = 0, m_loop_done = False,
      ipc_out = [], flushed = 0\<rparr>"

definition add_new_socket :: "('m session, u32) op" where
  "add_new_socket s =
     (case next_id (m_socket_id_generator s) of
        (new_sid, gen) \<Rightarrow>
          (let s1 = s\<lparr>m_socket_id_generator := gen\<rparr> in
           case new_socket_proxy new_sid (self_addr s) (mods s) of
             Inl e \<Rightarrow> (Inl e, s1)
           | Inr sp \<Rightarrow>
               (Inr new_sid, s1\<lparr>sockets_mem := (sockets_mem s)(next_addr s := sp), next_addr := next_addr s + 1,
                                m_sockets := sm_insert new_sid (next_addr s) (m_sockets s)\<rparr>)))"

definition session_socket :: "u32 \<Rightarrow> ('m session, nat) op" where
  "session_socket sid s =
     (case map_of (m_sockets s) sid of
        Some a \<Rightarrow> (Inr a, s)
      | None \<Rightarrow> (Inl (Requirement_failed (''No such socket (socket id = '' @ dec_digits (unat sid) @ '')'')), s))"

text \<open>An operation of the socket at address \<open>a\<close>, and of the socket with the id \<open>sid\<close>.\<close>

definition at_socket :: "nat \<Rightarrow> ('m sock_state, 'a) op \<Rightarrow> ('m session, 'a) op" where
  "at_socket a f s =
     (case f (sockets_mem s a, mods s) of
        (r, sp, ms) \<Rightarrow> (r, s\<lparr>sockets_mem := (sockets_mem s)(a := sp), mods := ms\<rparr>))"

definition on_socket :: "u32 \<Rightarrow> (nat \<Rightarrow> ('m sock_state, 'a) op) \<Rightarrow> ('m session, 'a) op" where
  "on_socket sid f = sbind (session_socket sid) (\<lambda>a. at_socket a (f a))"

definition remove_socket ::
  "(nat \<Rightarrow> 'm hc_module_handle) \<Rightarrow> nat \<Rightarrow> u32 \<Rightarrow> ('m session, unit) op" where
  "remove_socket h freed sid s =
     (case map_of (m_sockets s) sid of
        None \<Rightarrow> (Inr (), s)
      | Some a \<Rightarrow> sbind (at_socket a (sock_leave_all h freed a True))
                    (\<lambda>_ s'. (Inr (), s'\<lparr>m_sockets := sm_erase sid (m_sockets s')\<rparr>)) s)"

definition enable_events :: "'m session \<Rightarrow> 'm session" where
  "enable_events s =
     (if m_subscribed_events s then s
      else s\<lparr>subscribers := subscribe_events (self_addr s) (subscribers s), m_subscribed_events := True\<rparr>)"

definition disable_events :: "'m session \<Rightarrow> 'm session" where
  "disable_events s =
     (if m_subscribed_events s
      then s\<lparr>subscribers := unsubscribe_events (self_addr s) (subscribers s), m_subscribed_events := False\<rparr>
      else s)"

definition on_exit :: "(nat \<Rightarrow> 'm hc_module_handle) \<Rightarrow> nat \<Rightarrow> ('m session, unit) op" where
  "on_exit h freed s =
     (let s1 = disable_events s in
      sbind (each (\<lambda>(_, a). at_socket a (sock_leave_all h freed a True)) (m_sockets s1))
        (\<lambda>_ s'. (Inr (), s'\<lparr>m_sockets := []\<rparr>)) s1)"

section \<open>The callbacks\<close>

text \<open>
  The functions of the interface on a module: \<open>instance_by_iid\<close>, the requirement that it
  exists, and the query.
\<close>

definition on_module :: "u32 \<Rightarrow> (nat \<Rightarrow> ('m tech_module, 'a) op) \<Rightarrow> ('m session, 'a) op" where
  "on_module iid f s =
     (case instance_by_iid iid (by_id (mods s)) of
        None \<Rightarrow> (Inl (Requirement_failed (''No such interface (id = '' @ dec_digits (unat iid) @ '')'')), s)
      | Some i \<Rightarrow>
          (case f i (tms (mods s) i) of
             (r, tm) \<Rightarrow> (r, s\<lparr>mods := (mods s)\<lparr>tms := (tms (mods s))(i := tm)\<rparr>\<rparr>)))"

definition require_group :: "uri \<Rightarrow> ('m session, 'a) op \<Rightarrow> ('m session, 'a) op" where
  "require_group grp f = sbind (srequire (\<not> uri_is_empty grp) ''!group.empty()'') (\<lambda>_. f)"

definition cb_set_is_img :: "bool \<Rightarrow> ('m session, unit) op" where
  "cb_set_is_img val s = (Inr (), s\<lparr>s_is_img := val\<rparr>)"

definition cb_get_is_img :: "('m session, bool) op" where
  "cb_get_is_img s = (Inr (s_is_img s), s)"

definition cb_cr_sock_stream :: "u32 \<Rightarrow> uri \<Rightarrow> ('m session, u16) op" where
  "cb_cr_sock_stream sid grp =
     require_group grp (on_socket sid (\<lambda>_ (sp, ms). case add_stream grp sp of (i, sp') \<Rightarrow> (Inr i, sp', ms)))"

definition cb_get_sock_ifs :: "u32 \<Rightarrow> ('m session, u32 list) op" where
  "cb_get_sock_ifs sid =
     on_socket sid (\<lambda>_ (sp, ms).
       if m_interfaces sp = [] then (Inl (Requirement_failed ''!iv.empty()''), sp, ms)
       else (Inr (map (\<lambda>i. m_id (tms ms i)) (m_interfaces sp)), sp, ms))"

definition cb_designated_host :: "(nat \<Rightarrow> 'm hc_module_handle) \<Rightarrow> u32 \<Rightarrow> uri \<Rightarrow> ('m session, bool) op" where
  "cb_designated_host h iid grp = on_module iid (\<lambda>i. designated_host (h i) grp)"

fun find_modules :: "u32 list \<Rightarrow> instances_by_id \<Rightarrow> nat list res" where
  "find_modules [] ids = Inr []"
| "find_modules (iid # ifs) ids =
     (case instance_by_iid iid ids of
        None \<Rightarrow> Inl (Requirement_failed ''tm.get() != 0'')
      | Some i \<Rightarrow> rbind (find_modules ifs ids) (\<lambda>is. Inr (i # is)))"

definition cb_set_sock_ifs ::
  "(nat \<Rightarrow> 'm hc_module_handle) \<Rightarrow> nat \<Rightarrow> u32 \<Rightarrow> u32 list \<Rightarrow> ('m session, unit) op" where
  "cb_set_sock_ifs h freed sid ifs s =
     (if ifs = [] then (Inl (Requirement_failed ''!ifs.empty()''), s)
      else (case find_modules ifs (by_id (mods s)) of
              Inl e \<Rightarrow> (Inl e, s)
            | Inr is \<Rightarrow> on_socket sid (\<lambda>a. set_interfaces h freed a is) s))"

definition cb_add_sock_if ::
  "(nat \<Rightarrow> 'm hc_module_handle) \<Rightarrow> nat \<Rightarrow> u32 \<Rightarrow> u32 \<Rightarrow> ('m session, unit) op" where
  "cb_add_sock_if h freed sid iid =
     sbind (cb_get_sock_ifs sid) (\<lambda>ifs.
       if iid \<notin> set ifs then cb_set_sock_ifs h freed sid (ifs @ [iid]) else sret ())"

definition cb_rm_sock_if ::
  "(nat \<Rightarrow> 'm hc_module_handle) \<Rightarrow> nat \<Rightarrow> u32 \<Rightarrow> u32 \<Rightarrow> ('m session, unit) op" where
  "cb_rm_sock_if h freed sid iid =
     sbind (cb_get_sock_ifs sid) (\<lambda>ifs.
       if iid \<in> set ifs then cb_set_sock_ifs h freed sid (remove1 iid ifs) else sret ())"

definition cb_neighbor_set :: "(nat \<Rightarrow> 'm hc_module_handle) \<Rightarrow> u32 \<Rightarrow> ('m session, uri list) op" where
  "cb_neighbor_set h iid = on_module iid (\<lambda>i. neighbor_set (h i) [])"

definition cb_children_set :: "(nat \<Rightarrow> 'm hc_module_handle) \<Rightarrow> u32 \<Rightarrow> uri \<Rightarrow> ('m session, uri list) op" where
  "cb_children_set h iid grp = require_group grp (on_module iid (\<lambda>i. children_set (h i) [] grp))"

definition cb_parent_set :: "(nat \<Rightarrow> 'm hc_module_handle) \<Rightarrow> u32 \<Rightarrow> uri \<Rightarrow> ('m session, uri list) op" where
  "cb_parent_set h iid grp = require_group grp (on_module iid (\<lambda>i. parent_set (h i) [] grp))"

definition cb_group_set :: "(nat \<Rightarrow> 'm hc_module_handle) \<Rightarrow> u32 \<Rightarrow> ('m session, (uri \<times> u32) list) op" where
  "cb_group_set h iid = on_module iid (\<lambda>i. group_set (h i) [])"

definition set_from_map :: "('k::linorder, 'v) smap \<Rightarrow> 'k \<Rightarrow> 'v \<Rightarrow> 'v" where
  "set_from_map container key storage = (case map_of container key of Some v \<Rightarrow> v | None \<Rightarrow> storage)"

definition cb_get_ifs :: "('m session, interface_property list) op" where
  "cb_get_ifs s =
     (Inr (map (\<lambda>i. let tm = tms (mods s) i; sd = m_service_discovery_results tm in
              \<lparr>ip_id = m_id tm, ip_name = set_from_map sd ''if_name'' '''',
               ip_address = set_from_map sd ''if_addr'' '''', ip_technology = set_from_map sd ''if_tech'' ''''\<rparr>)
            (instances (by_id (mods s)))), s)"

definition cb_set_ttl :: "u32 \<Rightarrow> u8 \<Rightarrow> ('m session, unit) op" where
  "cb_set_ttl sid ttl_value = on_socket sid (\<lambda>_ (sp, ms). (Inr (), set_ttl ttl_value sp, ms))"

definition cb_leave :: "(nat \<Rightarrow> 'm hc_module_handle) \<Rightarrow> nat \<Rightarrow> u32 \<Rightarrow> uri \<Rightarrow> ('m session, unit) op" where
  "cb_leave h freed sid grp = require_group grp (on_socket sid (\<lambda>a. sock_leave h freed a grp))"

definition cb_join :: "(nat \<Rightarrow> 'm hc_module_handle) \<Rightarrow> nat \<Rightarrow> u32 \<Rightarrow> uri \<Rightarrow> ('m session, unit) op" where
  "cb_join h freed sid grp = require_group grp (on_socket sid (\<lambda>a. sock_join h freed a grp))"

definition cb_enable_events :: "('m session, unit) op" where
  "cb_enable_events s = (Inr (), enable_events s)"

definition cb_disable_events :: "('m session, unit) op" where
  "cb_disable_events s = (Inr (), disable_events s)"

definition cb_get_atomic_msg_size :: "u32 \<Rightarrow> ('m session, u32) op" where
  "cb_get_atomic_msg_size iid = on_module iid (\<lambda>_ tm. (Inr (m_atomic_msg_size tm), tm))"

section \<open>The dispatcher\<close>

definition function_id_of :: "u16 \<Rightarrow> function_id option" where
  "function_id_of w =
     find (\<lambda>f. function_id_code f = w)
       [fid_create_socket, fid_delete_socket, fid_create_send_stream, fid_join, fid_leave,
        fid_set_ttl, fid_get_sock_interfaces, fid_add_sock_interface, fid_del_sock_interface,
        fid_set_sock_interfaces, fid_get_interfaces, fid_group_set, fid_neighbor_set,
        fid_children_set, fid_parent_set, fid_designated_host, fid_enable_events,
        fid_disable_events, fid_get_atomic_msg_size, fid_set_is_img_flag, fid_get_is_img_flag]"

text \<open>The readers and writers of the argument and result types.\<close>

abbreviation "d_u32 \<equiv> des_u32 rb_read"
abbreviation "d_uri \<equiv> des_uri rb_read"
abbreviation "d_sid_uri \<equiv> des_pair d_u32 d_uri"
abbreviation "d_sid_iid \<equiv> des_pair d_u32 d_u32"
abbreviation "s_uris \<equiv> serialize_container wr_buf (ser_uri wr_buf)"

fun invoke :: "(nat \<Rightarrow> 'm hc_module_handle) \<Rightarrow> nat \<Rightarrow> function_id \<Rightarrow> u32 \<Rightarrow> bytes option \<Rightarrow> u32 \<Rightarrow> ('m session, message) op" where
  "invoke h freed fid_get_is_img_flag rid = reply des_unit (\<lambda>_. cb_get_is_img) (ser_bool wr_buf) rid"
| "invoke h freed fid_set_is_img_flag rid = reply (des_bool rb_read) cb_set_is_img ser_unit rid"
| "invoke h freed fid_create_socket rid = reply des_unit (\<lambda>_. add_new_socket) (ser_u32 wr_buf) rid"
| "invoke h freed fid_delete_socket rid = reply d_u32 (remove_socket h freed) ser_unit rid"
| "invoke h freed fid_create_send_stream rid = reply d_sid_uri (\<lambda>(sid, g). cb_cr_sock_stream sid g) (ser_u16 wr_buf) rid"
| "invoke h freed fid_join rid = reply d_sid_uri (\<lambda>(sid, g). cb_join h freed sid g) ser_unit rid"
| "invoke h freed fid_leave rid = reply d_sid_uri (\<lambda>(sid, g). cb_leave h freed sid g) ser_unit rid"
| "invoke h freed fid_set_ttl rid = reply (des_pair d_u32 (des_u8 rb_read)) (\<lambda>(sid, t). cb_set_ttl sid t) ser_unit rid"
| "invoke h freed fid_get_sock_interfaces rid = reply d_u32 cb_get_sock_ifs (serialize_container wr_buf (ser_u32 wr_buf)) rid"
| "invoke h freed fid_add_sock_interface rid = reply d_sid_iid (\<lambda>(sid, i). cb_add_sock_if h freed sid i) ser_unit rid"
| "invoke h freed fid_del_sock_interface rid = reply d_sid_iid (\<lambda>(sid, i). cb_rm_sock_if h freed sid i) ser_unit rid"
| "invoke h freed fid_set_sock_interfaces rid =
     reply (des_pair d_u32 (des_vector rb_read d_u32)) (\<lambda>(sid, l). cb_set_sock_ifs h freed sid l) ser_unit rid"
| "invoke h freed fid_get_interfaces rid = reply des_unit (\<lambda>_. cb_get_ifs) (serialize_container wr_buf (ser_interface_property wr_buf)) rid"
| "invoke h freed fid_group_set rid =
     reply d_u32 (cb_group_set h) (serialize_container wr_buf (ser_pair (ser_uri wr_buf) (ser_u32 wr_buf))) rid"
| "invoke h freed fid_neighbor_set rid = reply d_u32 (cb_neighbor_set h) s_uris rid"
| "invoke h freed fid_children_set rid = reply d_sid_uri (\<lambda>(iid, g). cb_children_set h iid g) s_uris rid"
| "invoke h freed fid_parent_set rid = reply d_sid_uri (\<lambda>(iid, g). cb_parent_set h iid g) s_uris rid"
| "invoke h freed fid_designated_host rid = reply d_sid_uri (\<lambda>(iid, g). cb_designated_host h iid g) (ser_bool wr_buf) rid"
| "invoke h freed fid_enable_events rid = reply des_unit (\<lambda>_. cb_enable_events) ser_unit rid"
| "invoke h freed fid_disable_events rid = reply des_unit (\<lambda>_. cb_disable_events) ser_unit rid"
| "invoke h freed fid_get_atomic_msg_size rid = reply d_u32 cb_get_atomic_msg_size (ser_u32 wr_buf) rid"

definition dispatch :: "(nat \<Rightarrow> 'm hc_module_handle) \<Rightarrow> nat \<Rightarrow> message \<Rightarrow> ('m session, unit) op" where
  "dispatch h freed msg s =
     (if msg_type msg \<noteq> message_type_code sync_request
      then (Inl (Requirement_failed ''msg && msg->type() == sync_request''), s)
      else (case function_id_of (msg_field1 msg) of
              None \<Rightarrow> (Inl (Requirement_failed ''Invalid function ID''), s)
            | Some fid \<Rightarrow>
                (case invoke h freed fid (msg_field2 msg) (msg_content msg) (msg_content_size msg) s of
                   (Inl e, s') \<Rightarrow> (Inl e, s')
                 | (Inr m, s') \<Rightarrow> (Inr (), write_out [Wire_message m] s'))))"

section \<open>Messages of the queue and of the client\<close>

text \<open>\<open>m_queue\<close> of the session, as part of the messages pushed to all sessions.\<close>

fun pop_for :: "nat \<Rightarrow> (nat \<times> session_msg) list \<Rightarrow> (session_msg \<times> (nat \<times> session_msg) list) option" where
  "pop_for a [] = None"
| "pop_for a ((b, m) # q) =
     (if b = a then Some (m, q)
      else (case pop_for a q of None \<Rightarrow> None | Some (m', q') \<Rightarrow> Some (m', (b, m) # q')))"

definition push_self :: "session_msg \<Rightarrow> 'm session \<Rightarrow> 'm session" where
  "push_self m s = s\<lparr>mods := (mods s)\<lparr>pushed := pushed (mods s) @ [(self_addr s, m)]\<rparr>\<rparr>"

definition flush_if_needed :: "'m session \<Rightarrow> 'm session" where
  "flush_if_needed s = (if pop_for (self_addr s) (pushed (mods s)) = None then flush_out s else s)"

fun force_acks_all :: "(u32, nat) smap \<Rightarrow> 'm session \<Rightarrow> bool \<times> 'm session" where
  "force_acks_all [] s = (False, s)"
| "force_acks_all ((_, a) # socks) s =
     (case force_acks (sockets_mem s a) of
        ((forced, out), sp) \<Rightarrow>
          (case force_acks_all socks (write_out (map Wire_message out) (s\<lparr>sockets_mem := (sockets_mem s)(a := sp)\<rparr>)) of
             (ack_forced, s') \<Rightarrow> (forced \<or> ack_forced, s')))"

definition handle_poll_timeout :: "'m session \<Rightarrow> 'm session" where
  "handle_poll_timeout s =
     (case force_acks_all (m_sockets s) s of
        (ack_forced, s') \<Rightarrow> if ack_forced then flush_out s' else flush_if_needed s')"

text \<open>One message of the queue; the result tells whether \<open>poll_messages\<close> returns at once.\<close>

fun poll_message :: "(nat \<Rightarrow> 'm hc_module_handle) \<Rightarrow> nat \<Rightarrow> session_msg \<Rightarrow> ('m session, bool) op" where
  "poll_message h freed receive_loop_killed_t s = (Inr True, s\<lparr>m_loop_done := True\<rparr>)"
| "poll_message h freed (outgoing_ipc_msg_t m) s = (Inr False, flush_if_needed (write_out [Wire_message m] s))"
| "poll_message h freed (outgoing_mcast_pckt_t sz sid source data) s =
     (Inr False,
      (case map_of (m_sockets s) sid of
         None \<Rightarrow> s
       | Some a \<Rightarrow>
           flush_if_needed (write_out [Wire_data sid source data]
             (s\<lparr>sockets_mem := (sockets_mem s)(a := delivered (length data) (sockets_mem s a))\<rparr>))))"
| "poll_message h freed (incoming_sync_request_t m) s =
     sbind (dispatch h freed m) (\<lambda>_ s'. (Inr False, flush_out s')) s"
| "poll_message h freed (async_send_job_done_t m) s =
     (Inr False,
      flush_if_needed
        (case map_of (m_sockets s) (view_sck_id m) of
           None \<Rightarrow> s
         | Some a \<Rightarrow>
             (case async_job_done m (sockets_mem s a) of
                (out, sp) \<Rightarrow> write_out (map Wire_message out) (s\<lparr>sockets_mem := (sockets_mem s)(a := sp)\<rparr>))))"
| "poll_message h freed (membership_event_t ev) s = (Inr False, flush_if_needed (write_out [Wire_event ev] s))"

fun poll_messages :: "(nat \<Rightarrow> 'm hc_module_handle) \<Rightarrow> nat \<Rightarrow> nat \<Rightarrow> ('m session, unit) op" where
  "poll_messages h freed 0 s = (Inr (), s)"
| "poll_messages h freed (Suc num) s =
     (case pop_for (self_addr s) (pushed (mods s)) of
        None \<Rightarrow> (Inl (Requirement_failed ''sm != NULL''), s)
      | Some (sm, q) \<Rightarrow>
          sbind (poll_message h freed sm) (\<lambda>quit. if quit then sret () else poll_messages h freed num)
            (s\<lparr>mods := (mods s)\<lparr>pushed := q\<rparr>\<rparr>))"

text \<open>A message of the client. A send job gets the next address.\<close>

definition handle_client_message :: "(nat \<Rightarrow> 'm hc_module_handle) \<Rightarrow> nat \<Rightarrow> message \<Rightarrow> ('m session, unit) op" where
  "handle_client_message h freed msg s =
     (if msg_type msg = message_type_code sync_request
      then sbind (dispatch h freed msg) (\<lambda>_ s'. (Inr (), flush_out s')) s
      else if msg_type msg = message_type_code async_send
      then (case map_of (m_sockets s) (view_sck_id msg) of
              None \<Rightarrow> (Inr (), s)
            | Some a \<Rightarrow>
                sbind (at_socket a (handle_async_send (next_addr s) msg (self_addr s)))
                  (\<lambda>out s'. (Inr (), write_out (map Wire_message out) s')) (s\<lparr>next_addr := next_addr s + 1\<rparr>))
      else (Inl (Runtime_error (''Client sendet illegal message type: '' @ dec_digits (unat (msg_type msg)))), s))"

text \<open>
  \<open>ipc_read\<close> over the results of the deserializer: one for the first message and one for each
  further message while the source has buffered data.
\<close>

fun read_messages :: "(nat \<Rightarrow> 'm hc_module_handle) \<Rightarrow> nat \<Rightarrow> message res list \<Rightarrow> ('m session, unit) op" where
  "read_messages h freed [] s = (Inr (), s)"
| "read_messages h freed (Inl e # ms) s = (Inl e, s)"
| "read_messages h freed (Inr msg # ms) s =
     sbind (handle_client_message h freed msg) (\<lambda>_. read_messages h freed ms) s"

definition ipc_read :: "(nat \<Rightarrow> 'm hc_module_handle) \<Rightarrow> nat \<Rightarrow> message res list \<Rightarrow> ('m session, unit) op" where
  "ipc_read h freed ms s =
     (case read_messages h freed ms s of
        (Inr _, s') \<Rightarrow> (Inr (), s')
      | (Inl e, s') \<Rightarrow> (Inl e, push_self receive_loop_killed_t s'))"

section \<open>The channel loop\<close>

text \<open>
  What \<open>poll\<close> reports: an interruption, a timeout, or the file descriptors that are ready, in
  the order of \<open>fds\<close>. A readable pipe comes with the number of bytes read from it.
\<close>

datatype fd_event = Fd_lost | Pipe_in nat | Ipc_in "message res list"

datatype poll_result = Poll_interrupted | Poll_timeout | Poll_ready "fd_event list"

fun handle_fds :: "(nat \<Rightarrow> 'm hc_module_handle) \<Rightarrow> nat \<Rightarrow> fd_event list \<Rightarrow> ('m session, bool) op" where
  "handle_fds h freed [] s = (Inr False, s)"
| "handle_fds h freed (Fd_lost # es) s = (Inr True, s)"
| "handle_fds h freed (Ipc_in ms # es) s = sbind (ipc_read h freed ms) (\<lambda>_. handle_fds h freed es) s"
| "handle_fds h freed (Pipe_in num # es) s = sbind (poll_messages h freed num) (\<lambda>_. handle_fds h freed es) s"

fun channel_loop :: "(nat \<Rightarrow> 'm hc_module_handle) \<Rightarrow> nat \<Rightarrow> poll_result list \<Rightarrow> ('m session, bool) op" where
  "channel_loop h freed ps s =
     (if m_loop_done s then (Inr True, s)
      else (case ps of
              [] \<Rightarrow> (Inr False, s)
            | Poll_interrupted # ps' \<Rightarrow> channel_loop h freed ps' s
            | Poll_timeout # ps' \<Rightarrow> channel_loop h freed ps' (handle_poll_timeout s)
            | Poll_ready es # ps' \<Rightarrow>
                sbind (handle_fds h freed es) (\<lambda>quit. if quit then sret True else channel_loop h freed ps') s))"

text \<open>
  \<open>run_loop\<close>: the result tells whether the session has ended. Every C++ exception ends the
  session; the end of the process is not an exception.
\<close>

definition run_loop :: "(nat \<Rightarrow> 'm hc_module_handle) \<Rightarrow> nat \<Rightarrow> poll_result list \<Rightarrow> ('m session, bool) op" where
  "run_loop h freed ps s =
     (case channel_loop h freed ps (s\<lparr>m_loop_done := False\<rparr>) of
        (Inr False, s') \<Rightarrow> (Inr False, s')
      | (Inr True, s') \<Rightarrow> sbind (on_exit h freed) (\<lambda>_. sret True) s'
      | (Inl (Terminated e), s') \<Rightarrow> (Inl (Terminated e), s')
      | (Inl e, s') \<Rightarrow> sbind (on_exit h freed) (\<lambda>_. sret True) s')"

end
