(* ===== verification/Remote_Calls.thy ===== *)
theory Remote_Calls
  imports Session
begin

text \<open>
  The client's side of the synchronous functions (\<open>libhamcast/hamcast/ipc/api.hpp\<close>) and how it
  meets the session's: a datatype of all calls, the request each of them becomes, the meaning
  of the response, and the function it stands for. The argument and result types are
  interpretations of \<open>wire_type\<close>, the functions of \<open>sync_function\<close>. Calling through the session
  is the same as calling the function, with one exception.
\<close>

section \<open>The functions of the interface\<close>

text \<open>
  The functors of \<open>api.hpp\<close> with their arguments, and the results of all of them. \<open>call_fid\<close> is
  the function id in the typedef of the functor.
\<close>

datatype hc_call =
    Call_set_is_img_flag bool | Call_get_is_img_flag | Call_create_socket | Call_delete_socket u32
  | Call_create_send_stream u32 uri | Call_join u32 uri | Call_leave u32 uri | Call_set_ttl u32 u8
  | Call_get_sock_interfaces u32 | Call_add_sock_interface u32 u32 | Call_del_sock_interface u32 u32
  | Call_get_interfaces | Call_group_set u32 | Call_neighbor_set u32 | Call_children_set u32 uri
  | Call_parent_set u32 uri | Call_designated_host u32 uri | Call_set_sock_interfaces u32 "u32 list"
  | Call_enable_events | Call_disable_events | Call_get_atomic_msg_size u32

datatype hc_result =
    Res_unit unit | Res_bool bool | Res_u16 u16 | Res_u32 u32 | Res_ids "u32 list" | Res_uris "uri list"
  | Res_groups "(uri \<times> u32) list" | Res_properties "interface_property list"

fun call_fid :: "hc_call \<Rightarrow> function_id" where
  "call_fid (Call_set_is_img_flag b) = fid_set_is_img_flag"
| "call_fid Call_get_is_img_flag = fid_get_is_img_flag"
| "call_fid Call_create_socket = fid_create_socket"
| "call_fid (Call_delete_socket sid) = fid_delete_socket"
| "call_fid (Call_create_send_stream sid g) = fid_create_send_stream"
| "call_fid (Call_join sid g) = fid_join"
| "call_fid (Call_leave sid g) = fid_leave"
| "call_fid (Call_set_ttl sid t) = fid_set_ttl"
| "call_fid (Call_get_sock_interfaces sid) = fid_get_sock_interfaces"
| "call_fid (Call_add_sock_interface sid i) = fid_add_sock_interface"
| "call_fid (Call_del_sock_interface sid i) = fid_del_sock_interface"
| "call_fid Call_get_interfaces = fid_get_interfaces"
| "call_fid (Call_group_set i) = fid_group_set"
| "call_fid (Call_neighbor_set i) = fid_neighbor_set"
| "call_fid (Call_children_set i g) = fid_children_set"
| "call_fid (Call_parent_set i g) = fid_parent_set"
| "call_fid (Call_designated_host i g) = fid_designated_host"
| "call_fid (Call_set_sock_interfaces sid l) = fid_set_sock_interfaces"
| "call_fid Call_enable_events = fid_enable_events"
| "call_fid Call_disable_events = fid_enable_events"
| "call_fid (Call_get_atomic_msg_size i) = fid_get_atomic_msg_size"

text \<open>The arguments as the client serializes them.\<close>

abbreviation "s_sid_uri \<equiv> ser_pair (ser_u32 wr_buf) (ser_uri wr_buf)"
abbreviation "s_sid_iid \<equiv> ser_pair (ser_u32 wr_buf) (ser_u32 wr_buf)"

fun call_content :: "hc_call \<Rightarrow> bytes res" where
  "call_content (Call_set_is_img_flag b) = request_content (ser_bool wr_buf) b"
| "call_content Call_get_is_img_flag = request_content ser_unit ()"
| "call_content Call_create_socket = request_content ser_unit ()"
| "call_content (Call_delete_socket sid) = request_content (ser_u32 wr_buf) sid"
| "call_content (Call_create_send_stream sid g) = request_content s_sid_uri (sid, g)"
| "call_content (Call_join sid g) = request_content s_sid_uri (sid, g)"
| "call_content (Call_leave sid g) = request_content s_sid_uri (sid, g)"
| "call_content (Call_set_ttl sid t) = request_content (ser_pair (ser_u32 wr_buf) (ser_u8 wr_buf)) (sid, t)"
| "call_content (Call_get_sock_interfaces sid) = request_content (ser_u32 wr_buf) sid"
| "call_content (Call_add_sock_interface sid i) = request_content s_sid_iid (sid, i)"
| "call_content (Call_del_sock_interface sid i) = request_content s_sid_iid (sid, i)"
| "call_content Call_get_interfaces = request_content ser_unit ()"
| "call_content (Call_group_set i) = request_content (ser_u32 wr_buf) i"
| "call_content (Call_neighbor_set i) = request_content (ser_u32 wr_buf) i"
| "call_content (Call_children_set i g) = request_content s_sid_uri (i, g)"
| "call_content (Call_parent_set i g) = request_content s_sid_uri (i, g)"
| "call_content (Call_designated_host i g) = request_content s_sid_uri (i, g)"
| "call_content (Call_set_sock_interfaces sid l) =
     request_content (ser_pair (ser_u32 wr_buf) (serialize_container wr_buf (ser_u32 wr_buf))) (sid, l)"
| "call_content Call_enable_events = request_content ser_unit ()"
| "call_content Call_disable_events = request_content ser_unit ()"
| "call_content (Call_get_atomic_msg_size i) = request_content (ser_u32 wr_buf) i"

text \<open>What the response means to the client.\<close>

abbreviation "res_as f r \<equiv> map_sum id f r"

fun call_result :: "hc_call \<Rightarrow> message \<Rightarrow> hc_result res" where
  "call_result Call_get_is_img_flag m = res_as Res_bool (decode_response (des_bool rb_read) m)"
| "call_result Call_create_socket m = res_as Res_u32 (decode_response d_u32 m)"
| "call_result (Call_create_send_stream sid g) m = res_as Res_u16 (decode_response (des_u16 rb_read) m)"
| "call_result (Call_get_sock_interfaces sid) m = res_as Res_ids (decode_response (des_vector rb_read d_u32) m)"
| "call_result Call_get_interfaces m = res_as Res_properties (decode_response (des_vector rb_read (des_interface_property rb_read)) m)"
| "call_result (Call_group_set i) m = res_as Res_groups (decode_response (des_vector rb_read (des_pair d_uri d_u32)) m)"
| "call_result (Call_neighbor_set i) m = res_as Res_uris (decode_response (des_vector rb_read d_uri) m)"
| "call_result (Call_children_set i g) m = res_as Res_uris (decode_response (des_vector rb_read d_uri) m)"
| "call_result (Call_parent_set i g) m = res_as Res_uris (decode_response (des_vector rb_read d_uri) m)"
| "call_result (Call_designated_host i g) m = res_as Res_bool (decode_response (des_bool rb_read) m)"
| "call_result (Call_get_atomic_msg_size i) m = res_as Res_u32 (decode_response d_u32 m)"
| "call_result c m = res_as Res_unit (decode_response des_unit m)"

text \<open>The function a call stands for, run in the middleware itself.\<close>

definition op_as :: "('a \<Rightarrow> 'b) \<Rightarrow> ('s, 'a) op \<Rightarrow> ('s, 'b) op" where
  "op_as f m s = (case m s of (r, s') \<Rightarrow> (res_as f r, s'))"

fun local_call :: "(nat \<Rightarrow> 'm hc_module_handle) \<Rightarrow> nat \<Rightarrow> hc_call \<Rightarrow> ('m session, hc_result) op" where
  "local_call h freed (Call_set_is_img_flag b) = op_as Res_unit (cb_set_is_img b)"
| "local_call h freed Call_get_is_img_flag = op_as Res_bool cb_get_is_img"
| "local_call h freed Call_create_socket = op_as Res_u32 add_new_socket"
| "local_call h freed (Call_delete_socket sid) = op_as Res_unit (remove_socket h freed sid)"
| "local_call h freed (Call_create_send_stream sid g) = op_as Res_u16 (cb_cr_sock_stream sid g)"
| "local_call h freed (Call_join sid g) = op_as Res_unit (cb_join h freed sid g)"
| "local_call h freed (Call_leave sid g) = op_as Res_unit (cb_leave h freed sid g)"
| "local_call h freed (Call_set_ttl sid t) = op_as Res_unit (cb_set_ttl sid t)"
| "local_call h freed (Call_get_sock_interfaces sid) = op_as Res_ids (cb_get_sock_ifs sid)"
| "local_call h freed (Call_add_sock_interface sid i) = op_as Res_unit (cb_add_sock_if h freed sid i)"
| "local_call h freed (Call_del_sock_interface sid i) = op_as Res_unit (cb_rm_sock_if h freed sid i)"
| "local_call h freed Call_get_interfaces = op_as Res_properties cb_get_ifs"
| "local_call h freed (Call_group_set i) = op_as Res_groups (cb_group_set h i)"
| "local_call h freed (Call_neighbor_set i) = op_as Res_uris (cb_neighbor_set h i)"
| "local_call h freed (Call_children_set i g) = op_as Res_uris (cb_children_set h i g)"
| "local_call h freed (Call_parent_set i g) = op_as Res_uris (cb_parent_set h i g)"
| "local_call h freed (Call_designated_host i g) = op_as Res_bool (cb_designated_host h i g)"
| "local_call h freed (Call_set_sock_interfaces sid l) = op_as Res_unit (cb_set_sock_ifs h freed sid l)"
| "local_call h freed Call_enable_events = op_as Res_unit cb_enable_events"
| "local_call h freed Call_disable_events = op_as Res_unit cb_disable_events"
| "local_call h freed (Call_get_atomic_msg_size i) = op_as Res_u32 (cb_get_atomic_msg_size i)"

text \<open>The request as it arrives at the session.\<close>

definition request_of :: "hc_call \<Rightarrow> u32 \<Rightarrow> message res" where
  "request_of c rid = rbind (call_content c) (\<lambda>ct. Inr (message_with sync_request (function_id_code (call_fid c)) rid 0 ct))"

section \<open>Calls and results that fit a message\<close>

fun call_enc :: "hc_call \<Rightarrow> bytes" where
  "call_enc (Call_set_is_img_flag b) = le_enc 1 (of_bool b)"
| "call_enc (Call_delete_socket sid) = le_enc 4 (unat sid)"
| "call_enc (Call_create_send_stream sid g) = le_enc 4 (unat sid) @ enc_uri g"
| "call_enc (Call_join sid g) = le_enc 4 (unat sid) @ enc_uri g"
| "call_enc (Call_leave sid g) = le_enc 4 (unat sid) @ enc_uri g"
| "call_enc (Call_set_ttl sid t) = le_enc 4 (unat sid) @ le_enc 1 (unat t)"
| "call_enc (Call_get_sock_interfaces sid) = le_enc 4 (unat sid)"
| "call_enc (Call_add_sock_interface sid i) = le_enc 4 (unat sid) @ le_enc 4 (unat i)"
| "call_enc (Call_del_sock_interface sid i) = le_enc 4 (unat sid) @ le_enc 4 (unat i)"
| "call_enc (Call_group_set i) = le_enc 4 (unat i)"
| "call_enc (Call_neighbor_set i) = le_enc 4 (unat i)"
| "call_enc (Call_children_set i g) = le_enc 4 (unat i) @ enc_uri g"
| "call_enc (Call_parent_set i g) = le_enc 4 (unat i) @ enc_uri g"
| "call_enc (Call_designated_host i g) = le_enc 4 (unat i) @ enc_uri g"
| "call_enc (Call_set_sock_interfaces sid l) = le_enc 4 (unat sid) @ enc_list (\<lambda>w. le_enc 4 (unat w)) l"
| "call_enc (Call_get_atomic_msg_size i) = le_enc 4 (unat i)"
| "call_enc c = []"

fun call_valid :: "hc_call \<Rightarrow> bool" where
  "call_valid (Call_create_send_stream sid g) = uri_ok g"
| "call_valid (Call_join sid g) = uri_ok g"
| "call_valid (Call_leave sid g) = uri_ok g"
| "call_valid (Call_children_set i g) = uri_ok g"
| "call_valid (Call_parent_set i g) = uri_ok g"
| "call_valid (Call_designated_host i g) = uri_ok g"
| "call_valid (Call_set_sock_interfaces sid l) = (length l < 2 ^ 32)"
| "call_valid c = True"

fun res_enc :: "hc_result \<Rightarrow> bytes" where
  "res_enc (Res_unit u) = []"
| "res_enc (Res_bool b) = le_enc 1 (of_bool b)"
| "res_enc (Res_u16 w) = le_enc 2 (unat w)"
| "res_enc (Res_u32 w) = le_enc 4 (unat w)"
| "res_enc (Res_ids l) = enc_list (\<lambda>w. le_enc 4 (unat w)) l"
| "res_enc (Res_uris l) = enc_list enc_uri l"
| "res_enc (Res_groups l) = enc_list (\<lambda>(u, t). enc_uri u @ le_enc 4 (unat t)) l"
| "res_enc (Res_properties l) = enc_list enc_interface_property l"

fun res_valid :: "hc_result \<Rightarrow> bool" where
  "res_valid (Res_ids l) = (length l < 2 ^ 32)"
| "res_valid (Res_uris l) = (length l < 2 ^ 32 \<and> (\<forall>u \<in> set l. uri_ok u))"
| "res_valid (Res_groups l) = (length l < 2 ^ 32 \<and> (\<forall>(u, t) \<in> set l. uri_ok u))"
| "res_valid (Res_properties l) = (length l < 2 ^ 32 \<and> (\<forall>p \<in> set l. property_ok p))"
| "res_valid r = True"

definition call_fits :: "hc_call \<Rightarrow> bool" where
  "call_fits c \<longleftrightarrow> call_valid c \<and> length (call_enc c) \<le> default_max_write_buffer_size"

fun result_fits :: "hc_result res \<Rightarrow> bool" where
  "result_fits (Inr x) = (res_valid x \<and> length (res_enc x) \<le> default_max_write_buffer_size)"
| "result_fits (Inl (Requirement_failed what)) = (string_ok what \<and> length (enc_string what) \<le> default_max_write_buffer_size)"
| "result_fits (Inl (Internal_interface_error what)) = (string_ok what \<and> length (enc_string what) \<le> default_max_write_buffer_size)"
| "result_fits (Inl e) = False"

section \<open>Remote calls\<close>

text \<open>The argument and result types of the interface, and its functions.\<close>

abbreviation "e_u32 w \<equiv> le_enc 4 (unat (w :: u32))"
abbreviation "e_pair e e' \<equiv> \<lambda>(x, y). e x @ e' y"
abbreviation "v_pair v v' \<equiv> \<lambda>(x, y). v x \<and> v' y"
abbreviation "v_list v \<equiv> \<lambda>l. length l < 2 ^ 32 \<and> (\<forall>x \<in> set l. v x)"
abbreviation "v_any \<equiv> \<lambda>_. True"

interpretation w_sid_uri: wire_type s_sid_uri d_sid_uri "e_pair e_u32 enc_uri" "v_pair v_any uri_ok"
  by (rule wire_pair [OF wu32.wire_type_axioms wuri.wire_type_axioms]) (simp add: le_enc_ne)

interpretation w_sid_iid: wire_type s_sid_iid d_sid_iid "e_pair e_u32 e_u32" "v_pair v_any v_any"
  by (rule wire_pair [OF wu32.wire_type_axioms wu32.wire_type_axioms]) (simp add: le_enc_ne)

interpretation w_sid_ttl: wire_type "ser_pair (ser_u32 wr_buf) (ser_u8 wr_buf)" "des_pair d_u32 (des_u8 rb_read)"
    "e_pair e_u32 (\<lambda>w. le_enc 1 (unat w))" "v_pair v_any v_any"
  by (rule wire_pair [OF wu32.wire_type_axioms wu8.wire_type_axioms]) (simp add: le_enc_ne)

interpretation w_ids: wire_type "serialize_container wr_buf (ser_u32 wr_buf)" "des_vector rb_read d_u32" "enc_list e_u32" "v_list v_any"
  by (rule wire_vector [OF wu32.wire_type_axioms])

interpretation w_sid_ids: wire_type "ser_pair (ser_u32 wr_buf) (serialize_container wr_buf (ser_u32 wr_buf))"
    "des_pair d_u32 (des_vector rb_read d_u32)" "e_pair e_u32 (enc_list e_u32)" "v_pair v_any (v_list v_any)"
  by (rule wire_pair [OF wu32.wire_type_axioms w_ids.wire_type_axioms]) (simp add: le_enc_ne)

interpretation w_uris: wire_type s_uris "des_vector rb_read d_uri" "enc_list enc_uri" "v_list uri_ok"
  by (rule wire_vector [OF wuri.wire_type_axioms])

interpretation w_groups: wire_type "serialize_container wr_buf (ser_pair (ser_uri wr_buf) (ser_u32 wr_buf))"
    "des_vector rb_read (des_pair d_uri d_u32)" "enc_list (e_pair enc_uri e_u32)" "v_list (v_pair uri_ok v_any)"
  by (rule wire_vector, rule wire_pair [OF wuri.wire_type_axioms wu32.wire_type_axioms]) (simp add: enc_ne)

interpretation w_props: wire_type "serialize_container wr_buf (ser_interface_property wr_buf)"
    "des_vector rb_read (des_interface_property rb_read)" "enc_list enc_interface_property" "v_list property_ok"
  by (rule wire_vector [OF wprop.wire_type_axioms])

interpretation f_socket_group: sync_function s_sid_uri d_sid_uri "e_pair e_u32 enc_uri" "v_pair v_any uri_ok" ser_unit des_unit "\<lambda>_. []" v_any
  by (rule sync_function.intro [OF w_sid_uri.wire_type_axioms wunit.wire_type_axioms])

interpretation f_create_socket: sync_function ser_unit des_unit "\<lambda>_. []" v_any "ser_u32 wr_buf" d_u32 e_u32 v_any
  by (rule sync_function.intro [OF wunit.wire_type_axioms wu32.wire_type_axioms])

interpretation f_group_set: sync_function "ser_u32 wr_buf" d_u32 e_u32 v_any
    "serialize_container wr_buf (ser_pair (ser_uri wr_buf) (ser_u32 wr_buf))" "des_vector rb_read (des_pair d_uri d_u32)"
    "enc_list (e_pair enc_uri e_u32)" "v_list (v_pair uri_ok v_any)"
  by (rule sync_function.intro [OF wu32.wire_type_axioms w_groups.wire_type_axioms])

definition opt_content :: "bytes \<Rightarrow> bytes option" where
  "opt_content ct = (if ct = [] then None else Some ct)"

lemma content_none: "reply des cb ser rid (opt_content ct) n = reply des cb ser rid (Some ct) n"
  by (rule ext) (simp add: reply_def from_content_def opt_content_def)

lemma transparent_call:
  assumes sf: "sync_function sa da ea va sr dr er vr" and v: "va a" "length (ea a) \<le> default_max_write_buffer_size"
    and cb: "op_as f (cb a) s = (r, s')" and ok: "result_fits r"
    and f: "\<And>x. res_enc (f x) = er x" "\<And>x. res_valid (f x) = vr x"
  shows "request_content sa a = Inr (ea a)
    \<and> (\<exists>m. reply da cb sr rid (opt_content (ea a)) (of_nat (length (ea a))) s = (Inr m, s')
        \<and> msg_field2 m = rid \<and> res_as f (decode_response dr m) = r)"
proof -
  obtain r1 s1 where 1: "cb a s = (r1, s1)" by fastforce
  with cb have r: "r = res_as f r1" "s1 = s'" by (simp_all add: op_as_def)
  have "sync_function.sendable er vr r1"
  proof (cases r1)
    case (Inl e)
    with ok r show ?thesis by (cases e) (simp_all add: sync_function.sendable_def [OF sf])
  next
    case (Inr x)
    with ok r f show ?thesis by (simp add: sync_function.sendable_def [OF sf])
  qed
  from sync_function.call_transparent [OF sf v, where cb = cb and s = s and r = r1 and s' = s1 and rid = rid] 1 this show ?thesis
    unfolding content_none r by auto
qed

lemma call_reply:
  assumes "call_fits c" "c \<noteq> Call_disable_events" "local_call h freed c s = (r, s')" "result_fits r"
  shows "call_content c = Inr (call_enc c)
    \<and> (\<exists>m. invoke h freed (call_fid c) rid (opt_content (call_enc c)) (of_nat (length (call_enc c))) s
          = (Inr m, s') \<and> msg_field2 m = rid \<and> call_result c m = r)"
proof (cases c)
  case (Call_set_is_img_flag b)
  show ?thesis using transparent_call [where a = "b" and f = Res_unit and cb = "cb_set_is_img" and s = s and r = r
      and s' = s' and rid = rid, OF sync_function.intro [OF wbool.wire_type_axioms wunit.wire_type_axioms]] assms
    by (simp add: Call_set_is_img_flag call_fits_def case_prod_unfold)
next
  case Call_get_is_img_flag
  show ?thesis using transparent_call [where a = "()" and f = Res_bool and cb = "\<lambda>_. cb_get_is_img" and s = s and r = r
      and s' = s' and rid = rid, OF sync_function.intro [OF wunit.wire_type_axioms wbool.wire_type_axioms]] assms
    by (simp add: Call_get_is_img_flag call_fits_def case_prod_unfold)
next
  case Call_create_socket
  show ?thesis using transparent_call [where a = "()" and f = Res_u32 and cb = "\<lambda>_. add_new_socket" and s = s and r = r
      and s' = s' and rid = rid, OF f_create_socket.sync_function_axioms] assms
    by (simp add: Call_create_socket call_fits_def case_prod_unfold)
next
  case (Call_delete_socket sid)
  show ?thesis using transparent_call [where a = "sid" and f = Res_unit and cb = "remove_socket h freed" and s = s and r = r
      and s' = s' and rid = rid, OF sync_function.intro [OF wu32.wire_type_axioms wunit.wire_type_axioms]] assms
    by (simp add: Call_delete_socket call_fits_def case_prod_unfold)
next
  case (Call_create_send_stream sid g)
  show ?thesis using transparent_call [where a = "(sid, g)" and f = Res_u16 and cb = "\<lambda>(sid, g). cb_cr_sock_stream sid g" and s = s and r = r
      and s' = s' and rid = rid, OF sync_function.intro [OF w_sid_uri.wire_type_axioms wu16.wire_type_axioms]] assms
    by (simp add: Call_create_send_stream call_fits_def case_prod_unfold)
next
  case (Call_join sid g)
  show ?thesis using transparent_call [where a = "(sid, g)" and f = Res_unit and cb = "\<lambda>(sid, g). cb_join h freed sid g" and s = s and r = r
      and s' = s' and rid = rid, OF f_socket_group.sync_function_axioms] assms
    by (simp add: Call_join call_fits_def case_prod_unfold)
next
  case (Call_leave sid g)
  show ?thesis using transparent_call [where a = "(sid, g)" and f = Res_unit and cb = "\<lambda>(sid, g). cb_leave h freed sid g" and s = s and r = r
      and s' = s' and rid = rid, OF f_socket_group.sync_function_axioms] assms
    by (simp add: Call_leave call_fits_def case_prod_unfold)
next
  case (Call_set_ttl sid ttl)
  show ?thesis using transparent_call [where a = "(sid, ttl)" and f = Res_unit and cb = "\<lambda>(sid, t). cb_set_ttl sid t" and s = s and r = r
      and s' = s' and rid = rid, OF sync_function.intro [OF w_sid_ttl.wire_type_axioms wunit.wire_type_axioms]] assms
    by (simp add: Call_set_ttl call_fits_def case_prod_unfold)
next
  case (Call_get_sock_interfaces sid)
  show ?thesis using transparent_call [where a = "sid" and f = Res_ids and cb = "cb_get_sock_ifs" and s = s and r = r
      and s' = s' and rid = rid, OF sync_function.intro [OF wu32.wire_type_axioms w_ids.wire_type_axioms]] assms
    by (simp add: Call_get_sock_interfaces call_fits_def case_prod_unfold)
next
  case (Call_add_sock_interface sid i)
  show ?thesis using transparent_call [where a = "(sid, i)" and f = Res_unit and cb = "\<lambda>(sid, i). cb_add_sock_if h freed sid i" and s = s and r = r
      and s' = s' and rid = rid, OF sync_function.intro [OF w_sid_iid.wire_type_axioms wunit.wire_type_axioms]] assms
    by (simp add: Call_add_sock_interface call_fits_def case_prod_unfold)
next
  case (Call_del_sock_interface sid i)
  show ?thesis using transparent_call [where a = "(sid, i)" and f = Res_unit and cb = "\<lambda>(sid, i). cb_rm_sock_if h freed sid i" and s = s and r = r
      and s' = s' and rid = rid, OF sync_function.intro [OF w_sid_iid.wire_type_axioms wunit.wire_type_axioms]] assms
    by (simp add: Call_del_sock_interface call_fits_def case_prod_unfold)
next
  case Call_get_interfaces
  show ?thesis using transparent_call [where a = "()" and f = Res_properties and cb = "\<lambda>_. cb_get_ifs" and s = s and r = r
      and s' = s' and rid = rid, OF sync_function.intro [OF wunit.wire_type_axioms w_props.wire_type_axioms]] assms
    by (simp add: Call_get_interfaces call_fits_def case_prod_unfold)
next
  case (Call_group_set i)
  show ?thesis using transparent_call [where a = "i" and f = Res_groups and cb = "cb_group_set h" and s = s and r = r
      and s' = s' and rid = rid, OF f_group_set.sync_function_axioms] assms
    by (simp add: Call_group_set call_fits_def case_prod_unfold)
next
  case (Call_neighbor_set i)
  show ?thesis using transparent_call [where a = "i" and f = Res_uris and cb = "cb_neighbor_set h" and s = s and r = r
      and s' = s' and rid = rid, OF sync_function.intro [OF wu32.wire_type_axioms w_uris.wire_type_axioms]] assms
    by (simp add: Call_neighbor_set call_fits_def case_prod_unfold)
next
  case (Call_children_set i g)
  show ?thesis using transparent_call [where a = "(i, g)" and f = Res_uris and cb = "\<lambda>(iid, g). cb_children_set h iid g" and s = s and r = r
      and s' = s' and rid = rid, OF sync_function.intro [OF w_sid_uri.wire_type_axioms w_uris.wire_type_axioms]] assms
    by (simp add: Call_children_set call_fits_def case_prod_unfold)
next
  case (Call_parent_set i g)
  show ?thesis using transparent_call [where a = "(i, g)" and f = Res_uris and cb = "\<lambda>(iid, g). cb_parent_set h iid g" and s = s and r = r
      and s' = s' and rid = rid, OF sync_function.intro [OF w_sid_uri.wire_type_axioms w_uris.wire_type_axioms]] assms
    by (simp add: Call_parent_set call_fits_def case_prod_unfold)
next
  case (Call_designated_host i g)
  show ?thesis using transparent_call [where a = "(i, g)" and f = Res_bool and cb = "\<lambda>(iid, g). cb_designated_host h iid g" and s = s and r = r
      and s' = s' and rid = rid, OF sync_function.intro [OF w_sid_uri.wire_type_axioms wbool.wire_type_axioms]] assms
    by (simp add: Call_designated_host call_fits_def case_prod_unfold)
next
  case (Call_set_sock_interfaces sid l)
  show ?thesis using transparent_call [where a = "(sid, l)" and f = Res_unit and cb = "\<lambda>(sid, l). cb_set_sock_ifs h freed sid l" and s = s and r = r
      and s' = s' and rid = rid, OF sync_function.intro [OF w_sid_ids.wire_type_axioms wunit.wire_type_axioms]] assms
    by (simp add: Call_set_sock_interfaces call_fits_def case_prod_unfold)
next
  case Call_enable_events
  show ?thesis using transparent_call [where a = "()" and f = Res_unit and cb = "\<lambda>_. cb_enable_events" and s = s and r = r
      and s' = s' and rid = rid, OF sync_function.intro [OF wunit.wire_type_axioms wunit.wire_type_axioms]] assms
    by (simp add: Call_enable_events call_fits_def case_prod_unfold)
next
  case (Call_get_atomic_msg_size i)
  show ?thesis using transparent_call [where a = "i" and f = Res_u32 and cb = "cb_get_atomic_msg_size" and s = s and r = r
      and s' = s' and rid = rid, OF sync_function.intro [OF wu32.wire_type_axioms wu32.wire_type_axioms]] assms
    by (simp add: Call_get_atomic_msg_size call_fits_def case_prod_unfold)
next
  case Call_disable_events
  with assms(2) show ?thesis by simp
qed

lemma function_id_of_code: "function_id_of (function_id_code f) = Some f"
  by (cases f) (simp_all add: function_id_of_def)

lemma message_with_simps:
  "msg_type (message_with t f1 f2 f3 ct) = message_type_code t" "msg_field1 (message_with t f1 f2 f3 ct) = f1"
  "msg_field2 (message_with t f1 f2 f3 ct) = f2" "msg_content (message_with t f1 f2 f3 ct) = opt_content ct"
  "msg_content_size (message_with t f1 f2 f3 ct) = of_nat (length ct)"
  by (simp_all add: message_with_def opt_content_def)

lemma handle_request:
  assumes "invoke h freed fid rid (opt_content ct) (of_nat (length ct)) s = (Inr m, s')"
  shows "handle_client_message h freed (message_with sync_request (function_id_code fid) rid 0 ct) s
    = (Inr (), flush_out (write_out [Wire_message m] s'))"
  using assms by (simp add: handle_client_message_def dispatch_def message_with_simps function_id_of_code sbind_def)

section \<open>Properties\<close>

text \<open>C3: A remote call is a local call. For every function of the interface but
  \<open>disable_events\<close>, and all arguments and results that fit a message: the session that reads
  the request of the client changes its state exactly as the function called in the middleware
  does, writes one response with the id of the request and flushes it, and the client decodes
  from that response the value the function returned, or the exception it threw.\<close>

theorem remote_call_is_local:
  assumes "call_fits c" "c \<noteq> Call_disable_events" "local_call h freed c s = (r, s')" "result_fits r"
  shows "\<exists>req m. request_of c rid = Inr req
    \<and> handle_client_message h freed req s = (Inr (), flush_out (write_out [Wire_message m] s'))
    \<and> msg_field2 m = rid \<and> call_result c m = r"
proof -
  from call_reply [OF assms, of rid] obtain m where c: "call_content c = Inr (call_enc c)"
    and i: "invoke h freed (call_fid c) rid (opt_content (call_enc c)) (of_nat (length (call_enc c))) s = (Inr m, s')"
    and m: "msg_field2 m = rid" "call_result c m = r" by blast
  from handle_request [OF i] m c show ?thesis by (auto simp: request_of_def)
qed

definition example_session :: "uri set session" where
  "example_session = new_session 9 example_modules (\<lambda>_. example_socket) 5 [] False"

lemma example_create:
  "add_new_socket example_session =
    (Inr 0, example_session\<lparr>m_socket_id_generator := 1, next_addr := 6, m_sockets := [(0, 5)],
       sockets_mem := (\<lambda>_. example_socket)(5 := example_socket\<lparr>sck_id := 0\<rparr>)\<rparr>)"
  by (simp add: add_new_socket_def example_session_def new_session_def next_id_def new_socket_proxy_def example_modules_def
      instances_def example_socket_def)

theorem remote_call_is_local_witness:
  "\<exists>req m s'. request_of Call_create_socket 5 = Inr req
    \<and> handle_client_message (\<lambda>_. set_module) 0 req example_session = (Inr (), flush_out (write_out [Wire_message m] s'))
    \<and> m_sockets s' = [(0, 5)] \<and> call_result Call_create_socket m = Inr (Res_u32 0)"
proof -
  let ?s' = "snd (add_new_socket example_session)"
  have "call_fits Call_create_socket" by (simp add: call_fits_def)
  moreover have "local_call (\<lambda>_. set_module) 0 Call_create_socket example_session = (Inr (Res_u32 0), ?s')"
    by (simp add: op_as_def example_create)
  moreover have "result_fits (Inr (Res_u32 0))" by (simp add: default_max_write_buffer_size_def)
  moreover have "m_sockets ?s' = [(0, 5)]" by (simp add: example_create)
  ultimately show ?thesis
    using remote_call_is_local [of Call_create_socket "\<lambda>_. set_module" 0 example_session "Inr (Res_u32 0)" ?s' 5] by blast
qed

text \<open>C32: The functor \<open>disable_events\<close> of the client carries the function id of
  \<open>enable_events\<close>: the session that reads its request subscribes to the events instead of
  ending the subscription, and answers without an error.\<close>

theorem disable_events_enables:
  "\<exists>req m. request_of Call_disable_events rid = Inr req
    \<and> handle_client_message h freed req s = (Inr (), flush_out (write_out [Wire_message m] (enable_events s)))
    \<and> call_result Call_disable_events m = Inr (Res_unit ())"
proof -
  have "call_fits Call_enable_events" by (simp add: call_fits_def)
  moreover have "local_call h freed Call_enable_events s = (Inr (Res_unit ()), enable_events s)"
    by (simp add: op_as_def cb_enable_events_def)
  ultimately obtain m where c: "call_content Call_enable_events = Inr []"
    and i: "invoke h freed fid_enable_events rid (opt_content []) (of_nat (length ([] :: bytes))) s = (Inr m, enable_events s)"
    and m: "call_result Call_enable_events m = Inr (Res_unit ())"
    using call_reply [of Call_enable_events h freed s "Inr (Res_unit ())" "enable_events s" rid] by auto
  from handle_request [OF i] m c show ?thesis by (auto simp: request_of_def)
qed

end
