(* ===== verification/Session_Safety.thy ===== *)
theory Session_Safety
  imports Remote_Calls
begin

text \<open>
  What a session keeps true while its client, other sessions and the modules act. The first
  part gives rules for what an operation keeps; then the steps of the modules as seen by a
  socket, the operations of a socket, the invariant of a session, and every operation of a
  session up to the messages of its client and its queue. The properties: sockets are
  well-formed, and modules hold pointers only to sockets that exist.
\<close>

section \<open>What an operation keeps\<close>

definition keeps :: "('s \<Rightarrow> 'b) \<Rightarrow> ('s, 'a) op \<Rightarrow> bool" where
  "keeps k f \<longleftrightarrow> (\<forall>s. k (snd (f s)) = k s)"

named_theorems keep_intros "rules for keeps"

lemma keepsD: "keeps k f \<Longrightarrow> f s = (r, s') \<Longrightarrow> k s' = k s"
  unfolding keeps_def by (metis snd_conv)

lemma keeps_eq: "(\<And>s. f s = g s) \<Longrightarrow> keeps k g \<Longrightarrow> keeps k f"
  by (simp add: keeps_def)

lemma keeps_sret [keep_intros]: "keeps k (sret x)"
  by (simp add: keeps_def)

lemma keeps_srequire [keep_intros]: "keeps k (srequire c e)"
  by (cases c) (simp_all add: keeps_def)

lemma keeps_sbind [keep_intros]: "keeps k f \<Longrightarrow> (\<And>x. keeps k (g x)) \<Longrightarrow> keeps k (sbind f g)"
  by (auto simp: keeps_def sbind_def split: prod.splits sum.splits) (metis snd_conv)+

lemma keeps_if [keep_intros]: "keeps k f \<Longrightarrow> keeps k g \<Longrightarrow> keeps k (if c then f else g)"
  by simp

text \<open>Serving a message changes neither the id nor the queue of a module.\<close>

abbreviation id_queue :: "'m tech_module \<Rightarrow> u32 \<times> tm_msg list" where
  "id_queue tm \<equiv> (m_id tm, m_queue tm)"

lemma call_module_id [keep_intros]: "keeps id_queue (call_module f)"
  by (simp add: keeps_def call_module_def split: prod.splits)

lemma worker_lookup_id [keep_intros]: "keeps id_queue (worker_lookup h u)"
  by (simp add: keeps_def worker_lookup_def split: prod.splits)

lemma add_id [keep_intros]: "keeps id_queue (add s g u)"
  by (simp add: keeps_def add_def Let_def)

lemma del_id [keep_intros]: "keeps id_queue (del freed s g u)"
  by (simp add: keeps_def del_def Let_def split: option.splits)

lemma leave_emptied_id: "keeps id_queue (leave_emptied h gs)"
proof (induction gs)
  case (Cons g gs)
  have "keeps id_queue (sbind (call_module (leave_fun h g)) (\<lambda>rc.
     sbind (srequire (rc = HC_SUCCESS) ''m_handle->leave_fun(m_instance, &(*i), i->c_str()) == HC_SUCCESS'')
       (\<lambda>_. leave_emptied h gs)))" by (intro keep_intros Cons.IH)
  then show ?case by (simp add: keeps_def)
qed (simp add: keeps_def)

lemma del_all_id [keep_intros]: "keeps id_queue (del_all h s)"
  using leave_emptied_id [of h] by (simp add: keeps_def del_all_def split: prod.splits)

lemma worker_msg_id: "keeps id_queue (worker_msg h freed msg)"
proof (cases msg)
  case (send_job_t j)
  have "keeps id_queue (sbind (call_module (sendto_fun h (msg_content (m_msg j)) (msg_content_size (m_msg j)) (job_ttl j) g))
      (\<lambda>_. sret no_future))" for g by (intro keep_intros)
  with worker_lookup_id [of h "m_receiver j"] show ?thesis
    unfolding keeps_def send_job_t worker_msg.simps
    by (auto split: prod.splits sum.splits hc_exn.splits) (metis snd_conv)+
qed (hypsubst, rule keeps_eq, rule worker_msg.simps, intro keep_intros)+

lemma worker_loop_id: "worker_loop h freed q tm = (r, tm') \<Longrightarrow> m_id tm' = m_id tm"
proof (induction q arbitrary: tm r)
  case (Cons msg q)
  obtain r1 tm1 where 1: "worker_msg h freed msg tm = (r1, tm1)" by fastforce
  have "m_id tm' = m_id tm1" if "r1 = Inr x" for x
    using Cons.prems 1 that Cons.IH by (auto simp: sbind_def split: if_splits prod.splits sum.splits)
  moreover have "tm' = tm1" if "r1 = Inl e" for e using Cons.prems 1 that by (simp add: sbind_def)
  moreover have "m_id tm1 = m_id tm" using keepsD [OF worker_msg_id 1] by simp
  ultimately show ?case by (cases r1) auto
qed simp

text \<open>
  What happens to the modules on behalf of the sockets \<open>A\<close>: requests that name no other
  socket, work of a worker thread on its queue, new jobs, queries and received packets that
  change a module's own state, and messages pushed to or taken by sessions. Nothing pushes a
  synchronous request to a session.
\<close>

definition no_requests :: "(nat \<times> session_msg) list \<Rightarrow> bool" where
  "no_requests p \<longleftrightarrow> (\<forall>m. incoming_sync_request_t m \<notin> snd ` set p)"

inductive mod_step :: "(nat \<Rightarrow> 'm hc_module_handle) \<Rightarrow> nat \<Rightarrow> nat set \<Rightarrow> 'm modules \<Rightarrow> 'm modules \<Rightarrow> bool" for h freed A where
  md_request: "request_at h freed msg i ms = (Inr r, ms') \<Longrightarrow> (\<And>b. concerns b msg \<Longrightarrow> b \<in> A) \<Longrightarrow> msg \<noteq> kill_t \<Longrightarrow>
     mod_step h freed A ms ms'"
| md_worker: "worker_step h freed i ms = (Inr (), ms') \<Longrightarrow> mod_step h freed A ms ms'"
| md_jobs: "mod_step h freed A ms (ms\<lparr>tms := fold (\<lambda>t f. f(t := add_job sj (f t))) is (tms ms)\<rparr>)"
| md_instance: "mod_step h freed A ms (ms\<lparr>tms := (tms ms)(i := (tms ms i)\<lparr>m_instance := m\<rparr>)\<rparr>)"
| md_pushed: "(no_requests (pushed ms) \<longrightarrow> no_requests p) \<Longrightarrow> mod_step h freed A ms (ms\<lparr>pushed := p\<rparr>)"

abbreviation mod_steps where
  "mod_steps h freed A \<equiv> (mod_step h freed A)\<^sup>*\<^sup>*"

lemma worker_step_holds:
  assumes "holds (tms ms i) b J" "worker_step h freed i ms = (Inr (), ms')"
  shows "holds (tms ms' i) b J"
proof (cases "m_queue (tms ms i)")
  case Nil
  with assms show ?thesis by (simp add: worker_step_def)
next
  case (Cons msg q)
  let ?tm = "(tms ms i)\<lparr>m_queue := q\<rparr>"
  from assms(2) Cons obtain r tm' where w: "worker_msg (h i) freed msg ?tm = (Inr r, tm')"
    and t: "tms ms' i = tm'" by (auto simp: worker_step_def destroy_jobs_def split: prod.splits sum.splits)
  have msg: "\<not> concerns b msg" "msg \<noteq> kill_t" "quiet b ?tm" using assms(1) Cons by (auto simp: holds_def quiet_def)
  have H: "joins_ok ?tm" "J \<subseteq> dom (mapped ?tm)" "\<And>g. (g, b) \<in> members ?tm \<longleftrightarrow> (\<exists>u \<in> J. mapped ?tm u = Some g)"
    using assms(1) by (simp_all add: holds_def)
  have l: "worker_loop (h i) freed [msg] ?tm = (Inr [r], tm')" using w msg(2) by (simp add: sbind_def)
  have k: "kill_t \<notin> set [msg]" using msg(2) by simp
  note R = worker_loop_refines [OF H(1) l k]
  have le: "mapped ?tm \<subseteq>\<^sub>m mapped tm'" and ok: "joins_ok tm'"
    and m: "members tm' = member_spec (mapped tm') msg (members ?tm)" using R by simp_all
  have "mapped tm' u = mapped ?tm u" if "u \<in> J" for u using le H(2) that unfolding map_le_def by (metis subsetD)
  then have "(g, b) \<in> members tm' \<longleftrightarrow> (\<exists>u \<in> J. mapped tm' u = Some g)" for g
    unfolding m member_spec_other [OF msg(1)] H(3) by simp
  moreover have "J \<subseteq> dom (mapped tm')" using H(2) map_le_implies_dom_le [OF le] by blast
  moreover have "quiet b tm'" using msg(3) keepsD [OF worker_msg_id w] by (simp add: quiet_def)
  ultimately show ?thesis using ok by (simp add: holds_def t)
qed

lemma mod_step_holds:
  assumes "mod_step h freed A ms ms'" "b \<notin> A" "\<forall>i. holds (tms ms i) b (J i)"
  shows "\<forall>i. holds (tms ms' i) b (J i)"
  using assms
proof cases
  case (md_request msg i r)
  have "\<not> concerns b msg" using md_request(2) assms(2) by blast
  with request_at_holds [OF assms(3) [rule_format] md_request(1,3)] assms(3) show ?thesis
    by (metis (full_types))
next
  case (md_worker i)
  have "j \<noteq> i \<Longrightarrow> tms ms' j = tms ms j" for j
    using md_worker by (auto simp: worker_step_def destroy_jobs_def split: list.splits prod.splits sum.splits)
  with worker_step_holds [OF assms(3) [rule_format] md_worker] assms(3) show ?thesis by (metis (full_types))
next
  case (md_jobs sj "is")
  with add_jobs_hold [OF assms(3)] show ?thesis by simp
qed (use assms(3) in \<open>simp_all add: holds_instance\<close>)

lemma add_jobs_id: "m_id (fold (\<lambda>t f. f(t := add_job sj (f t))) is f i) = m_id (f i)"
  by (induction "is" arbitrary: f) (auto simp: add_job_def)

lemma no_requests_destroy: "no_requests (pushed (destroy_jobs js ms)) \<longleftrightarrow> no_requests (pushed ms)"
  by (auto simp: no_requests_def destroy_jobs_def)

lemma request_at_id:
  "request_at h freed msg i ms = (r, ms') \<Longrightarrow> by_id ms' = by_id ms \<and> m_id (tms ms' j) = m_id (tms ms j)
    \<and> (no_requests (pushed ms') \<longleftrightarrow> no_requests (pushed ms))"
proof -
  assume q: "request_at h freed msg i ms = (r, ms')"
  obtain r1 tm where t: "tm_request (h i) freed msg (tms ms i) = (r1, tm)" by fastforce
  have "m_id tm = m_id (tms ms i)"
    using t by (auto simp: tm_request_def split: prod.splits sum.splits dest: worker_loop_id)
  moreover have ms': "ms' = destroy_jobs (queued_jobs (m_queue (tms ms i))) (ms\<lparr>tms := (tms ms)(i := tm)\<rparr>)"
    using q t by (simp add: request_at_def)
  ultimately show ?thesis by (simp add: ms' no_requests_destroy) (simp add: destroy_jobs_def)
qed

lemma mod_step_ids:
  "mod_step h freed A ms ms' \<Longrightarrow> by_id ms' = by_id ms \<and> (\<forall>i. m_id (tms ms' i) = m_id (tms ms i))
    \<and> (no_requests (pushed ms) \<longrightarrow> no_requests (pushed ms'))"
proof (induction rule: mod_step.induct)
  case (md_worker i ms ms')
  show ?case
  proof (cases "m_queue (tms ms i)")
    case Nil
    with md_worker show ?thesis by (simp add: worker_step_def)
  next
    case (Cons msg q)
    obtain r tm where w: "worker_msg (h i) freed msg ((tms ms i)\<lparr>m_queue := q\<rparr>) = (r, tm)" by fastforce
    with md_worker Cons have "ms' = destroy_jobs (queued_jobs [msg]) (ms\<lparr>tms := (tms ms)(i := tm)\<rparr>)"
      by (cases r) (simp_all add: worker_step_def)
    with keepsD [OF worker_msg_id w] show ?thesis by (simp add: no_requests_destroy) (simp add: destroy_jobs_def)
  qed
next
  case (md_request msg i ms r ms')
  with request_at_id [OF md_request(1)] show ?case by blast
qed (simp_all add: add_jobs_id)

lemma mod_steps_holds:
  "mod_steps h freed A ms ms' \<Longrightarrow> b \<notin> A \<Longrightarrow> \<forall>i. holds (tms ms i) b (J i) \<Longrightarrow> \<forall>i. holds (tms ms' i) b (J i)"
  by (induction rule: rtranclp_induct) (auto dest: mod_step_holds)

lemma mod_steps_ids:
  "mod_steps h freed A ms ms' \<Longrightarrow> by_id ms' = by_id ms \<and> (\<forall>i. m_id (tms ms' i) = m_id (tms ms i))
    \<and> (no_requests (pushed ms) \<longrightarrow> no_requests (pushed ms'))"
  by (induction rule: rtranclp_induct) (auto dest: mod_step_ids)

lemma mod_step_mono: "mod_step h freed A ms ms' \<Longrightarrow> A \<subseteq> B \<Longrightarrow> mod_step h freed B ms ms'"
  by (induction rule: mod_step.induct) (auto intro: mod_step.intros)

lemma mod_steps_mono: "mod_steps h freed A ms ms' \<Longrightarrow> A \<subseteq> B \<Longrightarrow> mod_steps h freed B ms ms'"
  by (induction rule: rtranclp_induct) (auto intro: rtranclp.rtrancl_into_rtrancl mod_step_mono)

section \<open>Operations of a socket\<close>

text \<open>A result with which the process goes on.\<close>

definition alive :: "'a res \<Rightarrow> bool" where
  "alive r \<longleftrightarrow> (\<forall>e. r \<noteq> Inl (Terminated e))"

lemma alive_simps [simp]: "alive (Inr x)" "alive (Inl e) \<longleftrightarrow> (\<forall>e'. e \<noteq> Terminated e')"
  by (simp_all add: alive_def)

definition serves :: "(nat \<Rightarrow> 'm hc_module_handle) \<Rightarrow> nat \<Rightarrow> nat set \<Rightarrow> ('m modules, 'a) op \<Rightarrow> bool" where
  "serves h freed A f \<longleftrightarrow> (\<forall>ms r ms'. f ms = (r, ms') \<longrightarrow> alive r \<longrightarrow> (\<exists>y. r = Inr y) \<and> mod_steps h freed A ms ms')"

lemma servesD: "serves h freed A f \<Longrightarrow> f ms = (r, ms') \<Longrightarrow> alive r \<Longrightarrow> (\<exists>y. r = Inr y) \<and> mod_steps h freed A ms ms'"
  by (simp add: serves_def)

lemma serves_request: "(\<And>b. concerns b msg \<Longrightarrow> b \<in> A) \<Longrightarrow> msg \<noteq> kill_t \<Longrightarrow> serves h freed A (request_at h freed msg i)"
proof -
  assume c: "\<And>b. concerns b msg \<Longrightarrow> b \<in> A" and k: "msg \<noteq> kill_t"
  have "(\<exists>y. r = Inr y) \<and> mod_steps h freed A ms ms'" if f: "request_at h freed msg i ms = (r, ms')" and a: "alive r" for ms r ms'
  proof -
    from f a obtain y where "r = Inr y"
      by (cases r) (auto simp: request_at_def tm_request_def split: prod.splits sum.splits)
    with f c k show ?thesis by (auto intro: mod_step.md_request)
  qed
  then show ?thesis by (simp add: serves_def)
qed

lemma serves_each: "(\<And>x. serves h freed A (f x)) \<Longrightarrow> serves h freed A (each f xs)"
proof (induction xs)
  case Nil
  then show ?case by (simp add: serves_def)
next
  case (Cons x xs)
  have "(\<exists>y. r = Inr y) \<and> mod_steps h freed A ms ms'" if e: "each f (x # xs) ms = (r, ms')" and a: "alive r" for ms r ms'
  proof -
    obtain r1 ms1 where 1: "f x ms = (r1, ms1)" by fastforce
    with e a have "alive r1" by (cases r1) (auto simp: sbind_def)
    from servesD [OF Cons.prems 1 this] obtain y where y: "r1 = Inr y" "mod_steps h freed A ms ms1" by blast
    with e 1 have "each f xs ms1 = (r, ms')" by (simp add: sbind_def)
    from servesD [OF Cons.IH [OF Cons.prems] this a] y(2) show ?thesis by auto
  qed
  then show ?case by (simp add: serves_def)
qed

lemmas serves_socket = serves_each serves_request [of "join_t u a" "{a}" for u a] serves_request [of "leave_t u a" "{a}" for u a]
  serves_request [of "leave_all_t a" "{a}" for a]

text \<open>A well-formed socket with the id \<open>sid\<close> at address \<open>a\<close> of the session at address \<open>self\<close>.\<close>

definition proxy_ok :: "nat \<Rightarrow> u32 \<Rightarrow> nat \<Rightarrow> 'm sock_state \<Rightarrow> bool" where
  "proxy_ok self sid a st \<longleftrightarrow>
     sck_id (fst st) = sid \<and> m_parent_session (fst st) = self
   \<and> sm_ok (m_streams (fst st)) \<and> (\<forall>g \<in> ran (map_of (m_streams (fst st))). \<not> uri_is_empty g)
   \<and> set (m_interfaces (fst st)) \<subseteq> set (instances (by_id (snd st))) \<and> coherent a st"

definition sock_keeps :: "(nat \<Rightarrow> 'm hc_module_handle) \<Rightarrow> nat \<Rightarrow> instances_by_id \<Rightarrow> nat \<Rightarrow> ('m sock_state, 'a) op \<Rightarrow> bool" where
  "sock_keeps h freed ids a f \<longleftrightarrow>
     (\<forall>self sid st r st'. f st = (r, st') \<longrightarrow> alive r \<longrightarrow> by_id (snd st) = ids \<longrightarrow> proxy_ok self sid a st \<longrightarrow>
        proxy_ok self sid a st' \<and> mod_steps h freed {a} (snd st) (snd st'))"

lemma sock_keepsI:
  assumes "\<And>self sid sp ms r sp' ms'. f (sp, ms) = (r, sp', ms') \<Longrightarrow> alive r \<Longrightarrow> by_id ms = ids \<Longrightarrow> proxy_ok self sid a (sp, ms) \<Longrightarrow>
    proxy_ok self sid a (sp', ms') \<and> mod_steps h freed {a} ms ms'"
  shows "sock_keeps h freed ids a f"
  unfolding sock_keeps_def using assms by (metis prod.collapse)

lemma sock_keepsD:
  "sock_keeps h freed ids a f \<Longrightarrow> f st = (r, st') \<Longrightarrow> alive r \<Longrightarrow> by_id (snd st) = ids \<Longrightarrow> proxy_ok self sid a st \<Longrightarrow>
    proxy_ok self sid a st' \<and> mod_steps h freed {a} (snd st) (snd st')"
  unfolding sock_keeps_def by blast

lemma sock_join_keeps: "sock_keeps h freed ids a (sock_join h freed a u)"
proof (rule sock_keepsI)
  fix self sid sp ms r sp' ms'
  assume j: "sock_join h freed a u (sp, ms) = (r, sp', ms')" and al: "alive r" and p: "proxy_ok self sid a (sp, ms)"
  have c: "coherent a (sp, ms)" and ne: "m_interfaces sp \<noteq> []" using p by (simp_all add: proxy_ok_def coherent_def)
  show "proxy_ok self sid a (sp', ms') \<and> mod_steps h freed {a} ms ms'"
  proof (cases "map_of (m_joined_groups sp) u")
    case None
    obtain r1 ms1 where e: "each (request_at h freed (join_t u a)) (m_interfaces sp) ms = (r1, ms1)" by fastforce
    with j None ne have r: "r = r1" "sp' = sp\<lparr>m_joined_groups := sm_insert u () (m_joined_groups sp)\<rparr>" "ms' = ms1"
      by (simp_all add: sock_join_def)
    from servesD [OF serves_socket(1) [OF serves_socket(2)] e] al r have "r = Inr ()" and s: "mod_steps h freed {a} ms ms'" by auto
    with sock_join_coherent [OF c] j have "coherent a (sp', ms')" by auto
    with s p mod_steps_ids [OF s] show ?thesis by (simp add: proxy_ok_def r)
  next
    case (Some x)
    with j ne p show ?thesis by (auto simp: sock_join_def)
  qed
qed

lemma sock_leave_keeps: "sock_keeps h freed ids a (sock_leave h freed a u)"
proof (rule sock_keepsI)
  fix self sid sp ms r sp' ms'
  assume j: "sock_leave h freed a u (sp, ms) = (r, sp', ms')" and al: "alive r" and p: "proxy_ok self sid a (sp, ms)"
  have c: "coherent a (sp, ms)" and ne: "m_interfaces sp \<noteq> []" using p by (simp_all add: proxy_ok_def coherent_def)
  show "proxy_ok self sid a (sp', ms') \<and> mod_steps h freed {a} ms ms'"
  proof (cases "map_of (m_joined_groups sp) u")
    case (Some x)
    obtain r1 ms1 where e: "each (request_at h freed (leave_t u a)) (m_interfaces sp) ms = (r1, ms1)" by fastforce
    with j Some ne have r: "r = r1" "sp' = sp\<lparr>m_joined_groups := sm_erase u (m_joined_groups sp)\<rparr>" "ms' = ms1"
      by (simp_all add: sock_leave_def)
    from servesD [OF serves_socket(1) [OF serves_socket(3)] e] al r have "r = Inr ()" and s: "mod_steps h freed {a} ms ms'" by auto
    with sock_leave_coherent [OF c] j have "coherent a (sp', ms')" by auto
    with s p mod_steps_ids [OF s] show ?thesis by (simp add: proxy_ok_def r)
  next
    case None
    with j ne p show ?thesis by (auto simp: sock_leave_def)
  qed
qed

lemma sock_leave_all_steps:
  assumes "sock_leave_all h freed a b st = (r, st')" "alive r"
  shows "r = Inr () \<and> mod_steps h freed {a} (snd st) (snd st')
    \<and> (\<exists>jg. fst st' = (fst st)\<lparr>m_joined_groups := jg\<rparr>)"
proof (cases "m_interfaces (fst st) = []")
  case True
  with assms show ?thesis by (auto simp: sock_leave_all_def split_def intro: exI [of _ "m_joined_groups (fst st)"])
next
  case False
  obtain r1 ms1 where e: "each (request_at h freed (leave_all_t a)) (m_interfaces (fst st)) (snd st) = (r1, ms1)" by fastforce
  with assms False have "alive r1" by (cases r1) (auto simp: sock_leave_all_def split_def)
  from servesD [OF serves_socket(1) [OF serves_socket(4)] e this] have s: "r1 = Inr ()" "mod_steps h freed {a} (snd st) ms1" by auto
  with assms(1) False e have "r = Inr ()" "st' = ((if b then (fst st)\<lparr>m_joined_groups := []\<rparr> else fst st), ms1)"
    by (auto simp: sock_leave_all_def split_def)
  moreover have "\<exists>jg. (if b then (fst st)\<lparr>m_joined_groups := []\<rparr> else fst st) = (fst st)\<lparr>m_joined_groups := jg\<rparr>"
    by (cases b) (auto intro: exI [of _ "m_joined_groups (fst st)"])
  ultimately show ?thesis using s by simp
qed

lemma sock_leave_all_keeps:
  assumes "sock_leave_all h freed a True st = (r, st')" "alive r" "proxy_ok self sid a st"
  shows "r = Inr ()" "mod_steps h freed {a} (snd st) (snd st')" "proxy_ok self sid a st'" "\<forall>i. holds (tms (snd st') i) a {}"
proof -
  from sock_leave_all_steps [OF assms(1,2)] obtain jg where r: "r = Inr ()" and s: "mod_steps h freed {a} (snd st) (snd st')"
    and sp: "fst st' = (fst st)\<lparr>m_joined_groups := jg\<rparr>" by blast
  have c: "distinct (m_interfaces (fst st))" "m_interfaces (fst st) \<noteq> []"
    "\<forall>i. holds (tms (snd st) i) a (if i \<in> set (m_interfaces (fst st)) then joined_set (fst st) else {})"
    using assms(3) by (simp_all add: proxy_ok_def coherent_def)
  from sock_leave_all_holds [OF c(3,1)] assms(1) r
  have H: "\<forall>i. holds (tms (snd st') i) a (if i \<in> set (m_interfaces (fst st)) then {} else
      if i \<in> set (m_interfaces (fst st)) then joined_set (fst st) else {})" and j: "m_joined_groups (fst st') = []"
    using c(2) by auto
  show H': "\<forall>i. holds (tms (snd st') i) a {}"
  proof
    fix i
    show "holds (tms (snd st') i) a {}" using H [rule_format, of i] by (cases "i \<in> set (m_interfaces (fst st))") simp_all
  qed
  have jg: "jg = []" using j sp by simp
  have js: "joined_set (fst st') = {}" by (simp add: joined_set_def j)
  have "coherent a st'" using c(1,2) H' unfolding coherent_def js by (simp add: sp jg)
  then show "proxy_ok self sid a st'" using assms(3) mod_steps_ids [OF s] by (simp add: proxy_ok_def sp)
  show "r = Inr ()" "mod_steps h freed {a} (snd st) (snd st')" by (fact r s)+
qed

lemma set_interfaces_steps:
  assumes "set_interfaces h freed a l st = (r, st')" "alive r"
  shows "r = Inr () \<and> mod_steps h freed {a} (snd st) (snd st')
    \<and> (\<exists>jg ifs. fst st' = (fst st)\<lparr>m_joined_groups := jg, m_interfaces := ifs\<rparr>)"
proof -
  define I where "I = set_intersection (sort l) (sort (m_interfaces (fst st)))"
  define ifs where "ifs = fold (\<lambda>i v. find_and_erase v i) I (sort (m_interfaces (fst st)))"
  define new where "new = fold (\<lambda>i v. find_and_erase v i) I (sort l)"
  let ?st0 = "((fst st)\<lparr>m_interfaces := ifs\<rparr>, snd st)"
  obtain r1 st1 where 1: "(if ifs \<noteq> [] then sock_leave_all h freed a False ?st0 else (Inr (), ?st0)) = (r1, st1)" by (rule prod.exhaust)
  have 2: "(case r1 of Inl e \<Rightarrow> (Inl e, st1) | Inr _ \<Rightarrow>
      (case each (\<lambda>(g, _). each (request_at h freed (join_t g a)) new) (m_joined_groups (fst st1)) (snd st1) of
        (Inl e, ms') \<Rightarrow> (Inl e, fst st1, ms')
      | (Inr _, ms') \<Rightarrow> (Inr (), (fst st1)\<lparr>m_interfaces := I @ new\<rparr>, ms'))) = (r, st')"
    using assms(1) unfolding set_interfaces_def Let_def split_def I_def [symmetric] ifs_def [symmetric] new_def [symmetric] sbind_def 1 prod.sel .
  with assms(2) have "alive r1" by (cases r1) auto
  with 1 sock_leave_all_steps [of h freed a False ?st0 r1 st1]
  have r1: "r1 = Inr ()" and s1: "mod_steps h freed {a} (snd st) (snd st1)"
    and f1: "\<exists>jg. fst st1 = (fst st)\<lparr>m_interfaces := ifs, m_joined_groups := jg\<rparr>"
    by (auto split: if_splits intro: exI [of _ "m_joined_groups (fst st)"])
  obtain r2 ms2 where e: "each (\<lambda>(g, _). each (request_at h freed (join_t g a)) new) (m_joined_groups (fst st1)) (snd st1) = (r2, ms2)"
    by fastforce
  have sv: "serves h freed {a} (each (\<lambda>(g, _ :: unit). each (request_at h freed (join_t g a)) new) gs)" for gs
    by (intro serves_each) (auto simp: split_def intro!: serves_each serves_socket(2))
  from 2 r1 e assms(2) have "alive r2" by (cases r2) auto
  from servesD [OF sv e this] have "r2 = Inr ()" "mod_steps h freed {a} (snd st1) ms2" by auto
  moreover from this(1) 2 r1 e have "r = Inr ()" "st' = ((fst st1)\<lparr>m_interfaces := I @ new\<rparr>, ms2)" by simp_all
  moreover have "\<exists>jg ifs. (fst st1)\<lparr>m_interfaces := I @ new\<rparr> = (fst st)\<lparr>m_joined_groups := jg, m_interfaces := ifs\<rparr>"
  proof -
    from f1 obtain jg where "fst st1 = (fst st)\<lparr>m_interfaces := ifs, m_joined_groups := jg\<rparr>" by blast
    then show ?thesis by (intro exI [of _ jg] exI [of _ "I @ new"]) simp
  qed
  ultimately show ?thesis using s1 by (auto intro: rtranclp_trans)
qed

lemma set_interfaces_keeps:
  assumes l: "distinct l" "l \<noteq> []" "set l \<subseteq> set (instances ids)"
  shows "sock_keeps h freed ids a (set_interfaces h freed a l)"
proof (rule sock_keepsI)
  fix self sid sp ms r sp' ms'
  assume j: "set_interfaces h freed a l (sp, ms) = (r, sp', ms')" and al: "alive r" and p: "proxy_ok self sid a (sp, ms)"
    and ids: "by_id ms = ids"
  have c: "coherent a (sp, ms)" using p by (simp add: proxy_ok_def)
  from set_interfaces_steps [OF j al] obtain jg ifs where r: "r = Inr ()" and s: "mod_steps h freed {a} ms ms'"
    and sp: "sp' = sp\<lparr>m_joined_groups := jg, m_interfaces := ifs\<rparr>" by auto
  from set_interfaces_coherent [OF c l(1,2)] j r have "coherent a (sp', ms')" "set (m_interfaces sp') = set l" by auto
  with p s mod_steps_ids [OF s] l(3) ids show "proxy_ok self sid a (sp', ms') \<and> mod_steps h freed {a} ms ms'"
    by (simp add: proxy_ok_def sp)
qed

definition held_groups :: "socket_proxy \<Rightarrow> nat \<Rightarrow> uri set" where
  "held_groups sp i = (if i \<in> set (m_interfaces sp) then joined_set sp else {})"

lemma coherent_pair:
  "coherent a (sp, ms) \<longleftrightarrow> distinct (m_interfaces sp) \<and> m_interfaces sp \<noteq> [] \<and> sm_ok (m_joined_groups sp)
     \<and> (\<forall>i. holds (tms ms i) a (held_groups sp i))"
  by (simp add: coherent_def held_groups_def)

lemma held_groups_cong:
  "m_interfaces sp' = m_interfaces sp \<Longrightarrow> m_joined_groups sp' = m_joined_groups sp \<Longrightarrow> held_groups sp' = held_groups sp"
  by (simp add: held_groups_def joined_set_def fun_eq_iff)

lemma proxy_ok_flow:
  "proxy_ok self sid a (sp, ms) \<Longrightarrow> sck_id sp' = sck_id sp \<Longrightarrow> m_parent_session sp' = m_parent_session sp \<Longrightarrow>
    m_streams sp' = m_streams sp \<Longrightarrow> m_interfaces sp' = m_interfaces sp \<Longrightarrow> m_joined_groups sp' = m_joined_groups sp \<Longrightarrow>
    proxy_ok self sid a (sp', ms)"
  by (simp add: proxy_ok_def coherent_pair held_groups_cong [of sp' sp])

lemma proxy_ok_modules:
  assumes "proxy_ok self sid a (sp, ms)" "mod_steps h freed A ms ms'" "a \<notin> A"
  shows "proxy_ok self sid a (sp, ms')"
  using assms(1) mod_steps_ids [OF assms(2)] mod_steps_holds [OF assms(2,3), of "held_groups sp"]
  by (simp add: proxy_ok_def coherent_pair)

lemma set_ttl_keeps: "sock_keeps h freed ids a (\<lambda>(sp, ms). (Inr (), set_ttl v sp, ms))"
  by (rule sock_keepsI) (auto simp: set_ttl_def elim: proxy_ok_flow)

lemma add_stream_keeps:
  assumes "\<not> uri_is_empty g"
  shows "sock_keeps (h :: nat \<Rightarrow> 'm hc_module_handle) freed ids a (\<lambda>(sp, ms). case add_stream g sp of (i, sp') \<Rightarrow> (Inr i, sp', ms))"
proof (rule sock_keepsI)
  fix self sid sp r sp' and ms ms' :: "'m modules"
  assume e: "(case (sp, ms) of (sp, ms) \<Rightarrow> case add_stream g sp of (i, sp') \<Rightarrow> (Inr i, sp', ms)) = (r, sp', ms')"
    and p: "proxy_ok self sid a (sp, ms)"
  have "ran (map_of (sm_insert k g (m_streams sp))) \<subseteq> insert g (ran (map_of (m_streams sp)))" for k
    using p by (auto simp: proxy_ok_def ran_def)
  moreover obtain k ids where sp': "ms' = ms" "sp' = sp\<lparr>m_streams := sm_insert k g (m_streams sp), m_stream_ids := ids\<rparr>"
    using e by (auto simp: add_stream_def next_id_def)
  moreover have "held_groups sp' = held_groups sp" by (rule held_groups_cong) (simp_all add: sp')
  ultimately show "proxy_ok self sid a (sp', ms') \<and> mod_steps h freed {a} ms ms'"
    using p assms unfolding proxy_ok_def coherent_pair fst_conv snd_conv by auto
qed

lemma handle_async_send_keeps: "sock_keeps (h :: nat \<Rightarrow> 'm hc_module_handle) freed ids a (handle_async_send addr asv sptr)"
proof (rule sock_keepsI)
  fix self sid sp r sp' and ms ms' :: "'m modules"
  assume e: "handle_async_send addr asv sptr (sp, ms) = (r, sp', ms')" and p: "proxy_ok self sid a (sp, ms)"
  have "sck_id sp' = sck_id sp \<and> m_parent_session sp' = m_parent_session sp \<and>
    m_streams sp' = m_streams sp \<and> m_interfaces sp' = m_interfaces sp \<and> m_joined_groups sp' = m_joined_groups sp"
    using e by (auto simp: handle_async_send_def Let_def split: option.splits if_splits prod.splits bool.splits sum.splits)
  then have p': "proxy_ok self sid a (sp', ms)" using p by (auto intro: proxy_ok_flow)
  have "ms' = ms \<or> (\<exists>sj. ms' = destroy_jobs [sj] (ms\<lparr>tms := fold (\<lambda>t f. f(t := add_job sj (f t))) (m_interfaces sp) (tms ms)\<rparr>))"
    using e by (auto simp: handle_async_send_def Let_def split: option.splits if_splits prod.splits bool.splits sum.splits)
  then have s: "mod_steps h freed {} ms ms'"
  proof
    assume "\<exists>sj. ms' = destroy_jobs [sj] (ms\<lparr>tms := fold (\<lambda>t f. f(t := add_job sj (f t))) (m_interfaces sp) (tms ms)\<rparr>)"
    then obtain sj where ms': "ms' = destroy_jobs [sj] (ms\<lparr>tms := fold (\<lambda>t f. f(t := add_job sj (f t))) (m_interfaces sp) (tms ms)\<rparr>)" ..
    show ?thesis unfolding ms' destroy_jobs_def
      by (rule converse_rtranclp_into_rtranclp, rule mod_step.md_jobs, rule r_into_rtranclp, rule mod_step.md_pushed)
        (auto simp: no_requests_def)
  qed simp
  with proxy_ok_modules [OF p' s] show "proxy_ok self sid a (sp', ms') \<and> mod_steps h freed {a} ms ms'"
    by (simp add: mod_steps_mono [OF s])
qed

section \<open>The invariant of a session\<close>

text \<open>
  The table of modules: different ids, different modules, and every module knows its id. No
  synchronous request is in a queue.
\<close>

definition ids_ok :: "'m modules \<Rightarrow> bool" where
  "ids_ok ms \<longleftrightarrow> sm_ok (by_id ms) \<and> distinct (instances (by_id ms)) \<and> (\<forall>(iid, i) \<in> set (by_id ms). m_id (tms ms i) = iid)
     \<and> no_requests (pushed ms)"

text \<open>
  \<open>F\<close> are the addresses of sockets of other sessions. The session's own sockets are
  well-formed and at different addresses, and an address that is neither theirs nor in \<open>F\<close> is
  known to no module.
\<close>

definition session_ok :: "nat set \<Rightarrow> 'm session \<Rightarrow> bool" where
  "session_ok F s \<longleftrightarrow>
     ids_ok (mods s) \<and> sm_ok (m_sockets s) \<and> (\<forall>a \<in> F. a < next_addr s)
   \<and> (\<forall>sid sid' a. map_of (m_sockets s) sid = Some a \<longrightarrow> map_of (m_sockets s) sid' = Some a \<longrightarrow> sid = sid')
   \<and> (\<forall>sid a. map_of (m_sockets s) sid = Some a \<longrightarrow>
        a < next_addr s \<and> a \<notin> F \<and> proxy_ok (self_addr s) sid a (sockets_mem s a, mods s))
   \<and> (\<forall>a i. a \<notin> F \<longrightarrow> a \<notin> ran (map_of (m_sockets s)) \<longrightarrow> holds (tms (mods s) i) a {})"

lemma ids_ok_steps: "ids_ok ms \<Longrightarrow> mod_steps h freed A ms ms' \<Longrightarrow> ids_ok ms'"
  unfolding ids_ok_def using mod_steps_ids [of h freed A ms ms'] by simp

lemma session_okD:
  assumes "session_ok F s" "map_of (m_sockets s) sid = Some a"
  shows "a < next_addr s" "a \<notin> F" "proxy_ok (self_addr s) sid a (sockets_mem s a, mods s)"
  using assms unfolding session_ok_def by blast+

lemma session_ok_inj: "session_ok F s \<Longrightarrow> map_of (m_sockets s) sid = Some a \<Longrightarrow> map_of (m_sockets s) sid' = Some a \<Longrightarrow> sid = sid'"
  unfolding session_ok_def by blast

lemma session_ok_simps [simp]:
  "session_ok F (s\<lparr>ipc_out := os\<rparr>) = session_ok F s" "session_ok F (s\<lparr>flushed := n\<rparr>) = session_ok F s"
  "session_ok F (s\<lparr>m_loop_done := b\<rparr>) = session_ok F s" "session_ok F (s\<lparr>subscribers := subs\<rparr>) = session_ok F s"
  "session_ok F (s\<lparr>m_subscribed_events := b\<rparr>) = session_ok F s" "session_ok F (s\<lparr>s_is_img := b\<rparr>) = session_ok F s"
  "session_ok F (s\<lparr>m_socket_id_generator := g\<rparr>) = session_ok F s"
  by (simp_all add: session_ok_def)

lemma session_ok_write [simp]: "session_ok F (write_out os s) = session_ok F s" "session_ok F (flush_out s) = session_ok F s"
  "session_ok F (flush_if_needed s) = session_ok F s"
  by (simp_all add: write_out_def flush_out_def flush_if_needed_def)

lemma session_okI:
  assumes "ids_ok (mods s)" "sm_ok (m_sockets s)" "\<And>a. a \<in> F \<Longrightarrow> a < next_addr s"
    "\<And>sid sid' a. map_of (m_sockets s) sid = Some a \<Longrightarrow> map_of (m_sockets s) sid' = Some a \<Longrightarrow> sid = sid'"
    "\<And>sid a. map_of (m_sockets s) sid = Some a \<Longrightarrow> a < next_addr s"
    "\<And>sid a. map_of (m_sockets s) sid = Some a \<Longrightarrow> a \<notin> F"
    "\<And>sid a. map_of (m_sockets s) sid = Some a \<Longrightarrow> proxy_ok (self_addr s) sid a (sockets_mem s a, mods s)"
    "\<And>a i. a \<notin> F \<Longrightarrow> a \<notin> ran (map_of (m_sockets s)) \<Longrightarrow> holds (tms (mods s) i) a {}"
  shows "session_ok F s"
  unfolding session_ok_def using assms by blast

lemma session_ok_parts:
  assumes "session_ok F s"
  shows "ids_ok (mods s)" "sm_ok (m_sockets s)" "\<And>a. a \<in> F \<Longrightarrow> a < next_addr s"
    "\<And>a i. a \<notin> F \<Longrightarrow> a \<notin> ran (map_of (m_sockets s)) \<Longrightarrow> holds (tms (mods s) i) a {}"
  using assms unfolding session_ok_def by blast+

lemma session_ok_addr:
  assumes "session_ok F s" "next_addr s \<le> n"
  shows "session_ok F (s\<lparr>next_addr := n\<rparr>)"
proof (rule session_okI)
  show "a < next_addr (s\<lparr>next_addr := n\<rparr>)" if "a \<in> F" for a using session_ok_parts(3) [OF assms(1) that] assms(2) by simp
  show "a < next_addr (s\<lparr>next_addr := n\<rparr>)" if "map_of (m_sockets (s\<lparr>next_addr := n\<rparr>)) sid = Some a" for sid a
    using session_okD(1) [OF assms(1), of sid a] that assms(2) by simp
qed (simp_all add: session_ok_parts(1-3) [OF assms(1)],
  (blast dest: session_okD [OF assms(1)] session_ok_inj [OF assms(1)] intro: session_ok_parts(4) [OF assms(1)])+)

text \<open>Steps of the modules for others, and an operation of one socket.\<close>

lemma session_ok_modules:
  assumes "session_ok F s" "mod_steps h freed F (mods s) ms"
  shows "session_ok F (s\<lparr>mods := ms\<rparr>)"
proof (rule session_okI)
  show "proxy_ok (self_addr (s\<lparr>mods := ms\<rparr>)) sid a (sockets_mem (s\<lparr>mods := ms\<rparr>) a, mods (s\<lparr>mods := ms\<rparr>))"
    if "map_of (m_sockets (s\<lparr>mods := ms\<rparr>)) sid = Some a" for sid a
    using proxy_ok_modules [OF session_okD(3) [OF assms(1)] assms(2) session_okD(2) [OF assms(1)], of sid a sid] that by simp
  show "holds (tms (mods (s\<lparr>mods := ms\<rparr>)) i) a {}" if "a \<notin> F" "a \<notin> ran (map_of (m_sockets (s\<lparr>mods := ms\<rparr>)))" for a i
    using mod_steps_holds [OF assms(2) that(1), of "\<lambda>_. {}"] session_ok_parts(4) [OF assms(1) that(1)] that(2) by simp
  show "ids_ok (mods (s\<lparr>mods := ms\<rparr>))" using ids_ok_steps [OF session_ok_parts(1) [OF assms(1)] assms(2)] by simp
qed (simp_all add: session_ok_parts(1-3) [OF assms(1)],
  (blast dest: session_okD [OF assms(1)] session_ok_inj [OF assms(1)] intro: session_ok_parts(4) [OF assms(1)])+)

lemma session_ok_socket:
  assumes "session_ok F s" "map_of (m_sockets s) sid = Some a" "mod_steps h freed {a} (mods s) ms"
    "proxy_ok (self_addr s) sid a (sp, ms)"
  shows "session_ok F (s\<lparr>sockets_mem := (sockets_mem s)(a := sp), mods := ms\<rparr>)"
proof (rule session_okI)
  let ?s = "s\<lparr>sockets_mem := (sockets_mem s)(a := sp), mods := ms\<rparr>"
  show "proxy_ok (self_addr ?s) sid' b (sockets_mem ?s b, mods ?s)" if "map_of (m_sockets ?s) sid' = Some b" for sid' b
  proof (cases "b = a")
    case True
    with session_ok_inj [OF assms(1,2)] that have "sid' = sid" by simp
    with True assms(4) show ?thesis by simp
  next
    case False
    from that have b: "map_of (m_sockets s) sid' = Some b" by simp
    from proxy_ok_modules [OF session_okD(3) [OF assms(1) b] assms(3)] False show ?thesis by simp
  qed
  show "holds (tms (mods ?s) i) b {}" if "b \<notin> F" "b \<notin> ran (map_of (m_sockets ?s))" for b i
  proof -
    from that(2) assms(2) have "b \<notin> {a}" by (auto simp: ran_def)
    from mod_steps_holds [OF assms(3) this, of "\<lambda>_. {}"] session_ok_parts(4) [OF assms(1) that(1)] that(2) show ?thesis by simp
  qed
  show "ids_ok (mods ?s)" using ids_ok_steps [OF session_ok_parts(1) [OF assms(1)] assms(3)] by simp
qed (simp_all add: session_ok_parts(1-3) [OF assms(1)],
  (blast dest: session_okD [OF assms(1)] session_ok_inj [OF assms(1)] intro: session_ok_parts(4) [OF assms(1)])+)

section \<open>Operations of a session\<close>

definition sess_keeps :: "nat set \<Rightarrow> ('m session, 'a) op \<Rightarrow> bool" where
  "sess_keeps F f \<longleftrightarrow> (\<forall>s r s'. f s = (r, s') \<longrightarrow> alive r \<longrightarrow> session_ok F s \<longrightarrow> session_ok F s')"

named_theorems sess_intros "rules for sess_keeps"

lemma sess_keepsI: "(\<And>s r s'. f s = (r, s') \<Longrightarrow> alive r \<Longrightarrow> session_ok F s \<Longrightarrow> session_ok F s') \<Longrightarrow> sess_keeps F f"
  unfolding sess_keeps_def by blast

lemma sess_keepsD: "sess_keeps F f \<Longrightarrow> f s = (r, s') \<Longrightarrow> alive r \<Longrightarrow> session_ok F s \<Longrightarrow> session_ok F s'"
  unfolding sess_keeps_def by blast

lemma sess_sret [sess_intros]: "sess_keeps F (sret x)"
  by (simp add: sess_keeps_def)

lemma sess_srequire [sess_intros]: "sess_keeps F (srequire c e)"
  by (cases c) (simp_all add: sess_keeps_def)

lemma sess_if [sess_intros]: "sess_keeps F f \<Longrightarrow> sess_keeps F g \<Longrightarrow> sess_keeps F (if c then f else g)"
  by simp

lemma sess_sbind [sess_intros]:
  assumes "sess_keeps F f" "\<And>x. sess_keeps F (g x)"
  shows "sess_keeps F (sbind f g)"
proof (rule sess_keepsI)
  fix s r s'
  assume b: "sbind f g s = (r, s')" and al: "alive r" and ok: "session_ok F s"
  obtain r1 s1 where 1: "f s = (r1, s1)" by fastforce
  show "session_ok F s'"
  proof (cases r1)
    case (Inl e)
    with b 1 have "r = Inl e" "s' = s1" by (simp_all add: sbind_def)
    with sess_keepsD [OF assms(1) 1] Inl al ok show ?thesis by simp
  next
    case (Inr x)
    with b 1 have "g x s1 = (r, s')" by (simp add: sbind_def)
    moreover have "session_ok F s1" using sess_keepsD [OF assms(1) 1] Inr ok by simp
    ultimately show ?thesis using sess_keepsD [OF assms(2)] al by blast
  qed
qed

lemma at_socket_ok:
  assumes "session_ok F s" "map_of (m_sockets s) sid = Some a" "at_socket a f s = (r, s')" "alive r"
    "sock_keeps h freed (by_id (mods s)) a f"
  shows "session_ok F s'"
proof -
  obtain r1 sp ms where f: "f (sockets_mem s a, mods s) = (r1, sp, ms)" by (metis prod.exhaust)
  with assms(3) have r: "r1 = r" "s' = s\<lparr>sockets_mem := (sockets_mem s)(a := sp), mods := ms\<rparr>" by (simp_all add: at_socket_def)
  from sock_keepsD [OF assms(5) f] session_okD(3) [OF assms(1,2)] assms(4) r(1)
  have "proxy_ok (self_addr s) sid a (sp, ms)" "mod_steps h freed {a} (mods s) ms" by auto
  with session_ok_socket [OF assms(1,2)] show ?thesis by (simp add: r(2))
qed

lemma on_socket_eq: "on_socket sid f s = (case map_of (m_sockets s) sid of
    Some a \<Rightarrow> at_socket a (f a) s
  | None \<Rightarrow> (Inl (Requirement_failed (''No such socket (socket id = '' @ dec_digits (unat sid) @ '')'')), s))"
  by (simp add: on_socket_def sbind_def session_socket_def split: option.splits)

lemma on_socket_keeps: "(\<And>ids a. sock_keeps h freed ids a (f a)) \<Longrightarrow> sess_keeps F (on_socket sid f)"
  by (rule sess_keepsI) (auto simp: on_socket_eq split: option.splits intro: at_socket_ok [where h = h and freed = freed])

lemma on_module_keeps:
  assumes "\<And>i tm. \<exists>m. snd (f i tm) = tm\<lparr>m_instance := m\<rparr>"
  shows "sess_keeps F (on_module iid f)"
proof (rule sess_keepsI)
  fix s r s'
  assume o: "on_module iid f s = (r, s')" and ok: "session_ok F s"
  show "session_ok F s'"
  proof (cases "instance_by_iid iid (by_id (mods s))")
    case None
    with o ok show ?thesis by (auto simp: on_module_def)
  next
    case (Some i)
    obtain m where "snd (f i (tms (mods s) i)) = (tms (mods s) i)\<lparr>m_instance := m\<rparr>" using assms by blast
    with o Some have s': "s' = s\<lparr>mods := (mods s)\<lparr>tms := (tms (mods s))(i := (tms (mods s) i)\<lparr>m_instance := m\<rparr>)\<rparr>\<rparr>"
      by (auto simp: on_module_def split: prod.splits)
    show ?thesis unfolding s'
      by (rule session_ok_modules [OF ok r_into_rtranclp]) (rule mod_step.md_instance)
  qed
qed

lemma module_queries:
  "\<exists>m. snd (designated_host h g tm) = tm\<lparr>m_instance := m\<rparr>" "\<exists>m. snd (neighbor_set h us tm) = tm\<lparr>m_instance := m\<rparr>"
  "\<exists>m. snd (children_set h us g tm) = tm\<lparr>m_instance := m\<rparr>" "\<exists>m. snd (parent_set h us g tm) = tm\<lparr>m_instance := m\<rparr>"
  "\<exists>m. snd (group_set h ps tm) = tm\<lparr>m_instance := m\<rparr>"
  by (auto simp: designated_host_def neighbor_set_def children_set_def parent_set_def group_set_def sbind_def call_module_def
      split: prod.splits)

lemma require_group_keeps [sess_intros]: "(\<not> uri_is_empty g \<Longrightarrow> sess_keeps F f) \<Longrightarrow> sess_keeps F (require_group g f)"
  by (cases "uri_is_empty g") (simp_all add: require_group_def sess_keeps_def)

lemma on_module_queries:
  "sess_keeps F (on_module iid (\<lambda>i. designated_host (h i) g))" "sess_keeps F (on_module iid (\<lambda>i. neighbor_set (h i) us))"
  "sess_keeps F (on_module iid (\<lambda>i. children_set (h i) us g))" "sess_keeps F (on_module iid (\<lambda>i. parent_set (h i) us g))"
  "sess_keeps F (on_module iid (\<lambda>i. group_set (h i) ps))"
  by (rule on_module_keeps, rule module_queries)+

lemma cb_query_keeps [sess_intros]:
  "sess_keeps F (cb_designated_host h iid g)" "sess_keeps F (cb_neighbor_set h iid)"
  "sess_keeps F (cb_children_set h iid g)" "sess_keeps F (cb_parent_set h iid g)" "sess_keeps F (cb_group_set h iid)"
  by (simp_all only: cb_designated_host_def cb_neighbor_set_def cb_children_set_def cb_parent_set_def cb_group_set_def
      require_group_keeps on_module_queries)

lemma cb_get_atomic_msg_size_keeps [sess_intros]: "sess_keeps F (cb_get_atomic_msg_size iid)"
  by (auto simp: sess_keeps_def cb_get_atomic_msg_size_def on_module_def split: option.splits)

lemma cb_flag_keeps [sess_intros]:
  "sess_keeps F (cb_set_is_img b)" "sess_keeps F cb_get_is_img" "sess_keeps F cb_get_ifs"
  "sess_keeps F cb_enable_events" "sess_keeps F cb_disable_events"
  by (auto simp: sess_keeps_def cb_set_is_img_def cb_get_is_img_def cb_get_ifs_def cb_enable_events_def cb_disable_events_def
      enable_events_def disable_events_def)

lemma on_socket_ops:
  "sess_keeps F (on_socket sid (\<lambda>a. sock_join h freed a g))" "sess_keeps F (on_socket sid (\<lambda>a. sock_leave h freed a g))"
  "sess_keeps F (on_socket sid (\<lambda>_ (sp, ms). (Inr (), set_ttl v sp, ms)))"
  "\<not> uri_is_empty g \<Longrightarrow> sess_keeps F (on_socket sid (\<lambda>_ (sp, ms). case add_stream g sp of (i, sp') \<Rightarrow> (Inr i, sp', ms)))"
  by (rule on_socket_keeps, rule sock_join_keeps sock_leave_keeps set_ttl_keeps add_stream_keeps, assumption?)+

lemma cb_socket_keeps [sess_intros]:
  "sess_keeps F (cb_join h freed sid g)" "sess_keeps F (cb_leave h freed sid g)" "sess_keeps F (cb_set_ttl sid ttl)"
  by (simp_all only: cb_join_def cb_leave_def cb_set_ttl_def require_group_keeps on_socket_ops)

lemma cb_cr_sock_stream_keeps [sess_intros]: "sess_keeps F (cb_cr_sock_stream sid g)"
  unfolding cb_cr_sock_stream_def by (rule require_group_keeps, erule on_socket_ops(4))

lemma new_socket_ok:
  assumes "new_socket_proxy sid self ms = Inr sp" "\<forall>i. holds (tms ms i) a {}"
  shows "proxy_ok self sid a (sp, ms)"
proof -
  have "sp = \<lparr>sck_id = sid, m_parent_session = self, last_acknowledged = 0, next_expected_seq_nr = 0, ack_counter = 0, m_ttl = 1,
      m_interfaces = [hd (instances (by_id ms))], m_joined_groups = [], m_streams = [],
      m_stream_ids = 0, m_send_buf = max_buf, m_receive_buf = max_buf\<rparr>" and "instances (by_id ms) \<noteq> []"
    using assms(1) by (simp_all add: new_socket_proxy_def Let_def rbind_eq_Inr)
  with assms(2) show ?thesis by (simp add: proxy_ok_def coherent_pair held_groups_def joined_set_def)
qed

lemma add_new_socket_keeps [sess_intros]: "sess_keeps F add_new_socket"
proof (rule sess_keepsI)
  fix s s' :: "'m session" and r
  assume n: "add_new_socket s = (r, s')" and ok: "session_ok F s"
  let ?sid = "m_socket_id_generator s" and ?a = "next_addr s"
  show "session_ok F s'"
  proof (cases "new_socket_proxy ?sid (self_addr s) (mods s)")
    case (Inl e)
    with n ok show ?thesis by (auto simp: add_new_socket_def next_id_def)
  next
    case (Inr sp)
    let ?s = "s\<lparr>sockets_mem := (sockets_mem s)(?a := sp), next_addr := ?a + 1, m_sockets := sm_insert ?sid ?a (m_sockets s)\<rparr>"
    have s': "s' = ?s\<lparr>m_socket_id_generator := ?sid + 1\<rparr>" using n Inr by (auto simp: add_new_socket_def next_id_def Let_def)
    have fresh: "b \<noteq> ?a" if "map_of (m_sockets s) k = Some b" for k b using session_okD(1) [OF ok that] by simp
    have aF: "?a \<notin> F" using session_ok_parts(3) [OF ok, of ?a] by blast
    have "?a \<notin> ran (map_of (m_sockets s))" using fresh by (auto simp: ran_def)
    then have H: "\<forall>i. holds (tms (mods s) i) ?a {}" using session_ok_parts(4) [OF ok aF] by blast
    have mp: "map_of (m_sockets ?s) k = Some b \<Longrightarrow> (k = ?sid \<and> b = ?a) \<or> map_of (m_sockets s) k = Some b" for k b
      using session_ok_parts(2) [OF ok] by (auto split: if_splits)
    have "session_ok F ?s"
    proof (rule session_okI)
      show "proxy_ok (self_addr ?s) k b (sockets_mem ?s b, mods ?s)" if "map_of (m_sockets ?s) k = Some b" for k b
        using mp [OF that] new_socket_ok [OF Inr H] session_okD(3) [OF ok, of k b] fresh [of k b] by auto
      show "holds (tms (mods ?s) i) b {}" if "b \<notin> F" "b \<notin> ran (map_of (m_sockets ?s))" for b i
      proof (cases "b \<in> ran (map_of (m_sockets s))")
        case True
        then obtain k where "map_of (m_sockets s) k = Some b" by (auto simp: ran_def)
        then have "map_of (m_sockets ?s) k = Some b" using session_ok_parts(2) [OF ok] by auto
        with that(2) show ?thesis by (auto simp: ran_def)
      qed (use session_ok_parts(4) [OF ok that(1)] in simp)
      show "k = k'" if "map_of (m_sockets ?s) k = Some b" "map_of (m_sockets ?s) k' = Some b" for k k' b
        using mp [OF that(1)] mp [OF that(2)] fresh session_ok_inj [OF ok] by blast
      show "b < next_addr ?s" if "map_of (m_sockets ?s) k = Some b" for k b
        using mp [OF that] session_okD(1) [OF ok, of k b] by auto
      show "b \<notin> F" if "map_of (m_sockets ?s) k = Some b" for k b
        using mp [OF that] session_okD(2) [OF ok, of k b] aF by auto
      show "b < next_addr ?s" if "b \<in> F" for b using session_ok_parts(3) [OF ok that] by simp
    qed (simp_all add: session_ok_parts(1,2) [OF ok])
    then show ?thesis by (simp add: s')
  qed
qed

text \<open>A socket that is a member of no group can be forgotten.\<close>

lemma session_ok_erase:
  assumes "session_ok F s" "map_of (m_sockets s) sid = Some a" "\<forall>i. holds (tms (mods s) i) a {}"
  shows "session_ok F (s\<lparr>m_sockets := sm_erase sid (m_sockets s)\<rparr>)"
proof (rule session_okI)
  let ?s = "s\<lparr>m_sockets := sm_erase sid (m_sockets s)\<rparr>"
  show "holds (tms (mods ?s) i) b {}" if "b \<notin> F" "b \<notin> ran (map_of (m_sockets ?s))" for b i
  proof (cases "b = a")
    case False
    have "b \<notin> ran (map_of (m_sockets s))"
    proof
      assume "b \<in> ran (map_of (m_sockets s))"
      then obtain k where k: "map_of (m_sockets s) k = Some b" by (auto simp: ran_def)
      with False assms(2) have "map_of (m_sockets ?s) k = Some b" by auto
      with that(2) show False by (auto simp: ran_def)
    qed
    with session_ok_parts(4) [OF assms(1) that(1)] show ?thesis by simp
  qed (use assms(3) in simp)
qed (use session_ok_parts(1-3) [OF assms(1)] in simp_all,
  (auto split: if_splits dest: session_okD [OF assms(1)] session_ok_inj [OF assms(1)])+)

lemma at_leave_all_ok:
  assumes "session_ok F s" "map_of (m_sockets s) sid = Some a" "at_socket a (sock_leave_all h freed a True) s = (r, s')" "alive r"
  shows "r = Inr ()" "session_ok F s'" "\<forall>i. holds (tms (mods s') i) a {}" "m_sockets s' = m_sockets s"
    "mod_steps h freed {a} (mods s) (mods s')"
proof -
  obtain r1 sp ms where f: "sock_leave_all h freed a True (sockets_mem s a, mods s) = (r1, sp, ms)" by (metis prod.exhaust)
  with assms(3) have r: "r1 = r" "s' = s\<lparr>sockets_mem := (sockets_mem s)(a := sp), mods := ms\<rparr>" by (simp_all add: at_socket_def)
  note k = sock_leave_all_keeps [OF f, unfolded r(1), OF assms(4) session_okD(3) [OF assms(1,2)]]
  show "r = Inr ()" "\<forall>i. holds (tms (mods s') i) a {}" "m_sockets s' = m_sockets s" "mod_steps h freed {a} (mods s) (mods s')"
    using k r by simp_all
  show "session_ok F s'" using session_ok_socket [OF assms(1,2)] k(2,3) by (simp add: r(2))
qed

lemma remove_socket_keeps [sess_intros]: "sess_keeps F (remove_socket h freed sid)"
proof (rule sess_keepsI)
  fix s s' r
  assume o: "remove_socket h freed sid s = (r, s')" and al: "alive r" and ok: "session_ok F s"
  show "session_ok F s'"
  proof (cases "map_of (m_sockets s) sid")
    case None
    with o ok show ?thesis by (simp add: remove_socket_def)
  next
    case (Some a)
    obtain r1 s1 where 1: "at_socket a (sock_leave_all h freed a True) s = (r1, s1)" by fastforce
    with o Some al have "alive r1" by (cases r1) (auto simp: remove_socket_def sbind_def)
    note l = at_leave_all_ok [OF ok Some 1 this]
    with o 1 Some have s': "s' = s1\<lparr>m_sockets := sm_erase sid (m_sockets s1)\<rparr>" by (simp add: remove_socket_def sbind_def)
    show ?thesis unfolding s' using l Some by (intro session_ok_erase) simp_all
  qed
qed

lemma leave_each_ok:
  assumes "each (\<lambda>(_, a). at_socket a (sock_leave_all h freed a True)) l s = (r, s')" "alive r" "session_ok F s"
    "set l \<subseteq> set (m_sockets s)"
  shows "r = Inr () \<and> session_ok F s' \<and> m_sockets s' = m_sockets s
    \<and> (\<forall>b. b \<in> snd ` set l \<or> (\<forall>i. holds (tms (mods s) i) b {}) \<longrightarrow> (\<forall>i. holds (tms (mods s') i) b {}))"
  using assms
proof (induction l arbitrary: s)
  case Nil
  then show ?case by auto
next
  case (Cons p l)
  obtain sid a where p: "p = (sid, a)" by (cases p)
  have sid: "map_of (m_sockets s) sid = Some a"
    using Cons.prems(4) map_of_in_set [OF session_ok_parts(2) [OF Cons.prems(3)]] by (simp add: p)
  obtain r1 s1 where 1: "at_socket a (sock_leave_all h freed a True) s = (r1, s1)" by fastforce
  with Cons.prems(1,2) have "alive r1" by (cases r1) (auto simp: sbind_def p)
  note l = at_leave_all_ok [OF Cons.prems(3) sid 1 this]
  from Cons.prems(1) 1 l(1) have e: "each (\<lambda>(_, a). at_socket a (sock_leave_all h freed a True)) l s1 = (r, s')"
    by (simp add: sbind_def p)
  have "\<forall>i. holds (tms (mods s1) i) b {}" if "\<forall>i. holds (tms (mods s) i) b {}" for b
    using l(3) mod_steps_holds [OF l(5), of b "\<lambda>_. {}"] that by (cases "b = a") simp_all
  with Cons.IH [OF e Cons.prems(2) l(2)] Cons.prems(4) l(3,4) show ?case by (auto simp: p)
qed

lemma on_exit_ok:
  assumes "on_exit h freed s = (r, s')" "alive r" "session_ok F s"
  shows "r = Inr ()" "session_ok F s'" "m_sockets s' = []"
proof -
  let ?s = "disable_events s"
  have ok: "session_ok F ?s" using assms(3) by (simp add: disable_events_def)
  obtain r1 s1 where 1: "each (\<lambda>(_, a). at_socket a (sock_leave_all h freed a True)) (m_sockets ?s) ?s = (r1, s1)" by fastforce
  with assms(1,2) have "alive r1" by (cases r1) (auto simp: on_exit_def Let_def sbind_def)
  from leave_each_ok [OF 1 this ok] have l: "r1 = Inr ()" "session_ok F s1" "m_sockets s1 = m_sockets ?s"
    "\<And>b. b \<in> snd ` set (m_sockets ?s) \<Longrightarrow> \<forall>i. holds (tms (mods s1) i) b {}" by auto
  have s': "r = Inr ()" "s' = s1\<lparr>m_sockets := []\<rparr>" using assms(1) 1 l(1) by (auto simp: on_exit_def Let_def sbind_def)
  show "r = Inr ()" "m_sockets s' = []" by (simp_all add: s')
  show "session_ok F s'"
  proof (rule session_okI)
    show "holds (tms (mods s') i) b {}" if "b \<notin> F" for b i
    proof (cases "b \<in> ran (map_of (m_sockets s1))")
      case True
      then have "b \<in> snd ` set (m_sockets ?s)" unfolding l(3) by (auto simp: ran_def dest!: map_of_SomeD intro: rev_image_eqI)
      with l(4) show ?thesis by (simp add: s')
    qed (use session_ok_parts(4) [OF l(2) that] in \<open>simp add: s'\<close>)
  qed (use session_ok_parts(1-3) [OF l(2)] in \<open>simp_all add: s'\<close>)
qed

section \<open>Interfaces of a socket\<close>

lemma ids_okD: "ids_ok ms \<Longrightarrow> (iid, i) \<in> set (by_id ms) \<Longrightarrow> m_id (tms ms i) = iid"
  by (auto simp: ids_ok_def)

lemma instance_inj:
  assumes "ids_ok ms" "instance_by_iid iid (by_id ms) = Some i" "instance_by_iid iid' (by_id ms) = Some i"
  shows "iid = iid'"
proof -
  have "(iid, i) \<in> set (by_id ms)" "(iid', i) \<in> set (by_id ms)" using assms map_of_SomeD by (fastforce simp: instance_by_iid_def)+
  then show ?thesis using ids_okD [OF assms(1)] by blast
qed

lemma find_modules_props:
  assumes "find_modules ifs (by_id ms) = Inr is" "ids_ok ms"
  shows "set is \<subseteq> set (instances (by_id ms)) \<and> length is = length ifs \<and> (distinct ifs \<longrightarrow> distinct is)
    \<and> (\<forall>i \<in> set is. \<exists>iid \<in> set ifs. instance_by_iid iid (by_id ms) = Some i)"
  using assms(1)
proof (induction ifs arbitrary: "is")
  case (Cons iid ifs)
  then obtain i is' where i: "instance_by_iid iid (by_id ms) = Some i" "find_modules ifs (by_id ms) = Inr is'" "is = i # is'"
    by (auto simp: rbind_eq_Inr split: option.splits)
  note ih = Cons.IH [OF i(2)]
  have "i \<in> set (instances (by_id ms))" using i(1)
    by (auto simp: instance_by_iid_def instances_def dest!: map_of_SomeD intro: rev_image_eqI)
  moreover have "i \<notin> set is'" if "iid \<notin> set ifs"
    using ih i(1) that instance_inj [OF assms(2) i(1)] by blast
  ultimately show ?case using ih i by auto
qed simp

lemma cb_set_sock_ifs_keeps:
  assumes "distinct ifs"
  shows "sess_keeps F (cb_set_sock_ifs h freed sid ifs)"
proof (rule sess_keepsI)
  fix s s' r
  assume o: "cb_set_sock_ifs h freed sid ifs s = (r, s')" and al: "alive r" and ok: "session_ok F s"
  show "session_ok F s'"
  proof (cases "ifs = [] \<or> (\<exists>e. find_modules ifs (by_id (mods s)) = Inl e)")
    case True
    with o ok show ?thesis by (auto simp: cb_set_sock_ifs_def split: if_splits)
  next
    case False
    then obtain "is" where i: "find_modules ifs (by_id (mods s)) = Inr is" "ifs \<noteq> []" by (meson sumE)
    from find_modules_props [OF i(1) session_ok_parts(1) [OF ok]] i(2) assms
    have l: "distinct is" "is \<noteq> []" "set is \<subseteq> set (instances (by_id (mods s)))" by auto
    from o i have o': "on_socket sid (\<lambda>a. set_interfaces h freed a is) s = (r, s')" by (simp add: cb_set_sock_ifs_def)
    show ?thesis
    proof (cases "map_of (m_sockets s) sid")
      case None
      with o' ok show ?thesis by (auto simp: on_socket_eq)
    next
      case (Some a)
      with o' have "at_socket a (set_interfaces h freed a is) s = (r, s')" by (simp add: on_socket_eq)
      from at_socket_ok [OF ok Some this al set_interfaces_keeps [OF l]] show ?thesis .
    qed
  qed
qed

lemma cb_get_sock_ifs_result:
  assumes "cb_get_sock_ifs sid s = (r, s')" "session_ok F s"
  shows "s' = s" "r = Inr ifs \<Longrightarrow> distinct ifs"
proof -
  show "s' = s"
    using assms(1) by (auto simp: cb_get_sock_ifs_def on_socket_eq at_socket_def split: option.splits if_splits)
  assume r: "r = Inr ifs"
  with assms(1) obtain a where a: "map_of (m_sockets s) sid = Some a"
    and ifs: "ifs = map (\<lambda>i. m_id (tms (mods s) i)) (m_interfaces (sockets_mem s a))"
    by (auto simp: cb_get_sock_ifs_def on_socket_eq at_socket_def split: option.splits if_splits)
  have p: "distinct (m_interfaces (sockets_mem s a))" "set (m_interfaces (sockets_mem s a)) \<subseteq> set (instances (by_id (mods s)))"
    using session_okD(3) [OF assms(2) a] by (simp_all add: proxy_ok_def coherent_pair)
  have ids: "sm_ok (by_id (mods s))" "\<And>iid i. (iid, i) \<in> set (by_id (mods s)) \<Longrightarrow> m_id (tms (mods s) i) = iid"
    using session_ok_parts(1) [OF assms(2)] by (auto simp: ids_ok_def)
  have "inj_on (\<lambda>i. m_id (tms (mods s) i)) (set (instances (by_id (mods s))))"
    by (rule inj_onI) (auto simp: instances_def ids(2) dest: sm_unique [OF ids(1)])
  then show "distinct ifs" using p by (auto simp: ifs distinct_map intro: inj_on_subset)
qed

lemma cb_if_keeps [sess_intros]:
  "sess_keeps F (cb_get_sock_ifs sid)" "sess_keeps F (cb_add_sock_if h freed sid iid)" "sess_keeps F (cb_rm_sock_if h freed sid iid)"
proof -
  show "sess_keeps F (cb_get_sock_ifs sid)" by (rule sess_keepsI) (metis cb_get_sock_ifs_result(1))
  have *: "sess_keeps F (sbind (cb_get_sock_ifs sid) g)" if "\<And>ifs. distinct ifs \<Longrightarrow> sess_keeps F (g ifs)" for g :: "u32 list \<Rightarrow> ('m session, unit) op"
  proof (rule sess_keepsI)
    fix s s' r
    assume o: "sbind (cb_get_sock_ifs sid) g s = (r, s')" and al: "alive r" and ok: "session_ok F s"
    obtain r1 s1 where 1: "cb_get_sock_ifs sid s = (r1, s1)" by fastforce
    note g = cb_get_sock_ifs_result [OF 1 ok]
    show "session_ok F s'"
    proof (cases r1)
      case (Inl e)
      with o 1 g(1) ok show ?thesis by (simp add: sbind_def)
    next
      case (Inr ifs)
      with o 1 g(1) have "g ifs s = (r, s')" by (simp add: sbind_def)
      with sess_keepsD [OF that [OF g(2) [OF Inr]] this al ok] show ?thesis by simp
    qed
  qed
  show "sess_keeps F (cb_add_sock_if h freed sid iid)" "sess_keeps F (cb_rm_sock_if h freed sid iid)"
    unfolding cb_add_sock_if_def cb_rm_sock_if_def by (rule *, auto intro: cb_set_sock_ifs_keeps sess_sret)+
qed

section \<open>Requests and messages\<close>

lemma reply_keeps:
  assumes "\<And>x. from_content des ct n = Inr x \<Longrightarrow> sess_keeps F (cb x)"
  shows "sess_keeps F (reply des cb ser rid ct n)"
proof (rule sess_keepsI)
  fix s s' r
  assume o: "reply des cb ser rid ct n s = (r, s')" and al: "alive r" and ok: "session_ok F s"
  show "session_ok F s'"
  proof (cases "from_content des ct n")
    case (Inl e)
    with o ok show ?thesis by (simp add: reply_def)
  next
    case (Inr x)
    obtain r1 s1 where 1: "cb x s = (r1, s1)" by fastforce
    have s': "s' = s1" using o unfolding reply_def Inr sum.case 1 prod.case by (simp add: case_prod_beta Let_def)
    have "alive r1"
    proof (rule ccontr)
      assume "\<not> alive r1"
      then obtain e where "r1 = Inl (Terminated e)" by (auto simp: alive_def)
      with o have "r = Inl (Terminated e)" unfolding reply_def Inr sum.case 1 prod.case by simp
      with al show False by simp
    qed
    with sess_keepsD [OF assms [OF Inr] 1 _ ok] show ?thesis by (simp add: s')
  qed
qed

text \<open>A request that does not name an interface twice.\<close>

definition plain_request :: "message \<Rightarrow> bool" where
  "plain_request m \<longleftrightarrow> function_id_of (msg_field1 m) = Some fid_set_sock_interfaces \<longrightarrow>
     (\<forall>sid l. from_content (des_pair d_u32 (des_vector rb_read d_u32)) (msg_content m) (msg_content_size m) = Inr (sid, l) \<longrightarrow> distinct l)"

lemma invoke_keeps:
  assumes "fid = fid_set_sock_interfaces \<Longrightarrow>
    \<forall>sid l. from_content (des_pair d_u32 (des_vector rb_read d_u32)) ct n = Inr (sid, l) \<longrightarrow> distinct l"
  shows "sess_keeps F (invoke h freed fid rid ct n)"
proof (cases "fid = fid_set_sock_interfaces")
  case True
  show ?thesis unfolding True invoke.simps using assms [OF True]
    by (intro reply_keeps) (auto intro: cb_set_sock_ifs_keeps)
next
  case False
  then show ?thesis by (cases fid) (simp_all only: invoke.simps, auto intro!: reply_keeps sess_intros)
qed

lemma dispatch_keeps: "plain_request m \<Longrightarrow> sess_keeps F (dispatch h freed m)"
proof (rule sess_keepsI)
  fix s s' r
  assume p: "plain_request m" and o: "dispatch h freed m s = (r, s')" and al: "alive r" and ok: "session_ok F s"
  show "session_ok F s'"
  proof (cases "msg_type m = message_type_code sync_request \<and> function_id_of (msg_field1 m) \<noteq> None")
    case False
    with o ok show ?thesis by (auto simp: dispatch_def split: if_splits)
  next
    case True
    then obtain fid where fid: "function_id_of (msg_field1 m) = Some fid" "msg_type m = message_type_code sync_request" by blast
    obtain r1 s1 where 1: "invoke h freed fid (msg_field2 m) (msg_content m) (msg_content_size m) s = (r1, s1)" by fastforce
    have k: "sess_keeps F (invoke h freed fid (msg_field2 m) (msg_content m) (msg_content_size m))"
      using p fid(1) by (intro invoke_keeps) (simp add: plain_request_def)
    moreover have "alive r1" using o fid 1 al by (cases r1) (auto simp: dispatch_def)
    ultimately have "session_ok F s1" using ok by (auto dest: sess_keepsD [OF k 1])
    with o fid 1 show ?thesis by (cases r1) (auto simp: dispatch_def)
  qed
qed

lemma pop_for_set: "pop_for a q = Some (m, q') \<Longrightarrow> m \<in> snd ` set q \<and> set q' \<subseteq> set q"
  by (induction a q arbitrary: q' rule: pop_for.induct) (auto split: if_splits option.splits)

lemma session_ok_pop:
  assumes "session_ok F s" "pop_for a (pushed (mods s)) = Some (m, q)"
  shows "session_ok F (s\<lparr>mods := (mods s)\<lparr>pushed := q\<rparr>\<rparr>)"
proof (rule session_ok_modules [OF assms(1) r_into_rtranclp], rule mod_step.md_pushed)
  show "no_requests (pushed (mods s)) \<longrightarrow> no_requests q"
    using pop_for_set [OF assms(2)] unfolding no_requests_def by blast
qed

lemma session_ok_push: "session_ok F s \<Longrightarrow> session_ok F (push_self receive_loop_killed_t s)"
  unfolding push_self_def
  by (erule session_ok_modules, rule r_into_rtranclp, rule mod_step.md_pushed) (auto simp: no_requests_def)

text \<open>A change of the flow control of a socket.\<close>

lemma session_ok_flow:
  assumes "session_ok F s" "map_of (m_sockets s) sid = Some a"
    "sck_id sp = sck_id (sockets_mem s a)" "m_parent_session sp = m_parent_session (sockets_mem s a)"
    "m_streams sp = m_streams (sockets_mem s a)" "m_interfaces sp = m_interfaces (sockets_mem s a)"
    "m_joined_groups sp = m_joined_groups (sockets_mem s a)"
  shows "session_ok F (s\<lparr>sockets_mem := (sockets_mem s)(a := sp)\<rparr>)"
  using session_ok_socket [OF assms(1,2) rtranclp.rtrancl_refl proxy_ok_flow [OF session_okD(3) [OF assms(1,2)]]] assms(3-) by simp

lemma async_job_done_fields:
  "async_job_done m sp = (out, sp') \<Longrightarrow> sck_id sp' = sck_id sp \<and> m_parent_session sp' = m_parent_session sp
    \<and> m_streams sp' = m_streams sp \<and> m_interfaces sp' = m_interfaces sp \<and> m_joined_groups sp' = m_joined_groups sp"
  by (auto simp: async_job_done_def Let_def split: option.splits if_splits)

lemma poll_message_keeps:
  assumes "\<And>m. sm \<noteq> incoming_sync_request_t m"
  shows "sess_keeps F (poll_message h freed sm)"
proof (rule sess_keepsI)
  fix s s' r
  assume o: "poll_message h freed sm s = (r, s')" and ok: "session_ok F s"
  show "session_ok F s'"
  proof (cases sm)
    case (outgoing_mcast_pckt_t sz sid source data)
    with o ok show ?thesis by (auto simp: delivered_def split: option.splits intro!: session_ok_flow)
  next
    case (async_send_job_done_t m)
    show ?thesis
    proof (cases "map_of (m_sockets s) (view_sck_id m)")
      case None
      with o ok async_send_job_done_t show ?thesis by auto
    next
      case (Some a)
      obtain out sp where 1: "async_job_done m (sockets_mem s a) = (out, sp)" by fastforce
      have "session_ok F (s\<lparr>sockets_mem := (sockets_mem s)(a := sp)\<rparr>)"
        using async_job_done_fields [OF 1] by (intro session_ok_flow [OF ok Some]) simp_all
      with o async_send_job_done_t Some 1 show ?thesis by auto
    qed
  next
    case (incoming_sync_request_t m)
    with assms show ?thesis by blast
  qed (use o ok in auto)
qed

lemma poll_messages_keeps: "sess_keeps F (poll_messages h freed n)"
proof (induction n)
  case 0
  then show ?case by (simp add: sess_keeps_def)
next
  case (Suc n)
  show ?case
  proof (rule sess_keepsI)
    fix s s' r
    assume o: "poll_messages h freed (Suc n) s = (r, s')" and al: "alive r" and ok: "session_ok F s"
    show "session_ok F s'"
    proof (cases "pop_for (self_addr s) (pushed (mods s))")
      case None
      with o ok show ?thesis by auto
    next
      case (Some p)
      obtain sm q where p: "p = (sm, q)" by (cases p)
      have "sm \<in> snd ` set (pushed (mods s))" using pop_for_set Some p by blast
      moreover have "no_requests (pushed (mods s))" using session_ok_parts(1) [OF ok] by (simp add: ids_ok_def)
      ultimately have "sess_keeps F (poll_message h freed sm)" 
        by (intro poll_message_keeps) (metis no_requests_def)
      then have "sess_keeps F (sbind (poll_message h freed sm) (\<lambda>quit. if quit then sret () else poll_messages h freed n))"
        by (intro sess_sbind sess_if sess_sret Suc.IH)
      from sess_keepsD [OF this] o al session_ok_pop [OF ok Some [unfolded p]] Some p show ?thesis by simp
    qed
  qed
qed

lemma force_acks_fields:
  "force_acks sp = (r, sp') \<Longrightarrow> sck_id sp' = sck_id sp \<and> m_parent_session sp' = m_parent_session sp
    \<and> m_streams sp' = m_streams sp \<and> m_interfaces sp' = m_interfaces sp \<and> m_joined_groups sp' = m_joined_groups sp"
  unfolding force_acks_def by (drule force_acks_loop_frame) auto

lemma force_acks_all_ok:
  "force_acks_all l s = (b, s') \<Longrightarrow> session_ok F s \<Longrightarrow> set l \<subseteq> set (m_sockets s) \<Longrightarrow> session_ok F s'"
proof (induction l s arbitrary: b rule: force_acks_all.induct)
  case (2 sid a l s)
  obtain fo out sp where 1: "force_acks (sockets_mem s a) = ((fo, out), sp)" by (metis prod.exhaust)
  have sid: "map_of (m_sockets s) sid = Some a"
    using 2(4) map_of_in_set [OF session_ok_parts(2) [OF 2(3)]] by simp
  let ?s = "write_out (map Wire_message out) (s\<lparr>sockets_mem := (sockets_mem s)(a := sp)\<rparr>)"
  have ok: "session_ok F ?s" using force_acks_fields [OF 1] by (simp, intro session_ok_flow [OF 2(3) sid]) simp_all
  obtain b' where "force_acks_all l ?s = (b', s')" using 2(2) 1 by (auto split: prod.splits)
  from 2(1) [OF 1 [symmetric] refl this ok] 2(4) show ?case by (simp add: write_out_def)
qed simp

lemma handle_poll_timeout_ok: "session_ok F s \<Longrightarrow> session_ok F (handle_poll_timeout s)"
  by (auto simp: handle_poll_timeout_def split: prod.splits dest: force_acks_all_ok)

lemma handle_client_message_keeps:
  assumes "plain_request m"
  shows "sess_keeps F (handle_client_message h freed m)"
proof (rule sess_keepsI)
  fix s s' r
  assume o: "handle_client_message h freed m s = (r, s')" and al: "alive r" and ok: "session_ok F s"
  consider "msg_type m = message_type_code sync_request" | "msg_type m = message_type_code async_send"
    | "msg_type m \<noteq> message_type_code sync_request" "msg_type m \<noteq> message_type_code async_send" by blast
  then show "session_ok F s'"
  proof cases
    case 1
    have "sess_keeps F (sbind (dispatch h freed m) (\<lambda>_ s'. (Inr (), flush_out s')))"
      by (intro sess_sbind dispatch_keeps [OF assms]) (auto simp: sess_keeps_def)
    from sess_keepsD [OF this _ al ok] o 1 show ?thesis by (simp add: handle_client_message_def)
  next
    case 2
    show ?thesis
    proof (cases "map_of (m_sockets s) (view_sck_id m)")
      case None
      with o ok 2 show ?thesis by (simp add: handle_client_message_def)
    next
      case (Some a)
      let ?s = "s\<lparr>next_addr := next_addr s + 1\<rparr>"
      obtain r1 s1 where 1: "at_socket a (handle_async_send (next_addr s) m (self_addr s)) ?s = (r1, s1)" by fastforce
      have r: "alive r1" "s' = s1 \<or> (\<exists>os. s' = write_out os s1)"
        using o 2 Some 1 al by (cases r1, auto simp: handle_client_message_def sbind_def)+
      have "session_ok F ?s" using session_ok_addr [OF ok] by simp
      from at_socket_ok [OF this _ 1 r(1) handle_async_send_keeps] Some have "session_ok F s1" by simp
      with r(2) show ?thesis by auto
    qed
  next
    case 3
    with o ok show ?thesis by (simp add: handle_client_message_def)
  qed
qed

lemma ipc_read_keeps:
  assumes "\<forall>m. Inr m \<in> set ms \<longrightarrow> plain_request m"
  shows "sess_keeps F (ipc_read h freed ms)"
proof (rule sess_keepsI)
  fix s s' r
  assume o: "ipc_read h freed ms s = (r, s')" and al: "alive r" and ok: "session_ok F s"
  have k: "sess_keeps F (read_messages h freed ms)" using assms
  proof (induction ms)
    case (Cons m ms)
    show ?case
    proof (cases m)
      case (Inr x)
      have "sess_keeps F (sbind (handle_client_message h freed x) (\<lambda>_. read_messages h freed ms))"
        using Cons Inr by (intro sess_sbind handle_client_message_keeps) simp_all
      then show ?thesis by (simp add: Inr sess_keeps_def)
    qed (simp add: sess_keeps_def)
  qed (simp add: sess_keeps_def)
  obtain r1 s1 where 1: "read_messages h freed ms s = (r1, s1)" by fastforce
  have "alive r1" using o 1 al by (cases r1) (auto simp: ipc_read_def)
  from sess_keepsD [OF k 1 this ok] o 1 show "session_ok F s'"
    by (cases r1) (auto simp: ipc_read_def session_ok_push)
qed

section \<open>The life of a session\<close>

text \<open>
  What happens to a session: messages of its client (without a repeated interface in one
  request), messages of its queue, a timeout, its end, and what happens outside: anything the
  modules do for sockets \<open>F\<close> of other sessions or on their own, sockets of others, memory that
  is allocated, packets that are received for its sockets, and changed subscriptions and
  flags of others.
\<close>

inductive sess_step :: "(nat \<Rightarrow> 'm hc_module_handle) \<Rightarrow> nat \<Rightarrow> nat set \<Rightarrow> 'm session \<Rightarrow> 'm session \<Rightarrow> bool" for h freed F where
  ss_read: "ipc_read h freed ms s = (r, s') \<Longrightarrow> alive r \<Longrightarrow> \<forall>m. Inr m \<in> set ms \<longrightarrow> plain_request m \<Longrightarrow> sess_step h freed F s s'"
| ss_poll: "poll_messages h freed n s = (r, s') \<Longrightarrow> alive r \<Longrightarrow> sess_step h freed F s s'"
| ss_timeout: "sess_step h freed F s (handle_poll_timeout s)"
| ss_exit: "on_exit h freed s = (r, s') \<Longrightarrow> alive r \<Longrightarrow> sess_step h freed F s s'"
| ss_modules: "mod_step h freed F (mods s) ms \<Longrightarrow> sess_step h freed F s (s\<lparr>mods := ms\<rparr>)"
| ss_receive: "map_of (m_sockets s) sid = Some a \<Longrightarrow> acquire_bytes n (sockets_mem s a) = (b, sp) \<Longrightarrow>
     sess_step h freed F s (s\<lparr>sockets_mem := (sockets_mem s)(a := sp)\<rparr>)"
| ss_others: "\<forall>sid a. map_of (m_sockets s) sid = Some a \<longrightarrow> mem a = sockets_mem s a \<Longrightarrow> next_addr s \<le> n \<Longrightarrow>
     sess_step h freed F s (s\<lparr>sockets_mem := mem, next_addr := n, subscribers := subs, s_is_img := img\<rparr>)"

lemma sess_step_ok: "sess_step h freed F s s' \<Longrightarrow> session_ok F s \<Longrightarrow> session_ok F s'"
proof (induction rule: sess_step.induct)
  case (ss_receive s sid a n b sp)
  then show ?case by (intro session_ok_flow) (auto simp: acquire_bytes_def split: prod.splits)
next
  case (ss_others s mem n subs img)
  have "session_ok F (s\<lparr>next_addr := n\<rparr>)" using ss_others by (intro session_ok_addr)
  then have "session_ok F (s\<lparr>next_addr := n, sockets_mem := mem\<rparr>)"
    using ss_others(1) unfolding session_ok_def by simp
  then show ?case by (simp add: session_ok_def)
qed (auto intro: sess_keepsD [OF ipc_read_keeps] sess_keepsD [OF poll_messages_keeps] handle_poll_timeout_ok
  on_exit_ok(2) session_ok_modules)

lemma new_session_ok:
  assumes "ids_ok ms" "\<forall>a \<in> F. a < addr" "\<forall>a i. a \<notin> F \<longrightarrow> holds (tms ms i) a {}"
  shows "session_ok F (new_session self ms mem addr subs img)"
  using assms by (simp add: session_ok_def new_session_def)

lemma sess_steps_ok: "(sess_step h freed F)\<^sup>*\<^sup>* s s' \<Longrightarrow> session_ok F s \<Longrightarrow> session_ok F s'"
  by (induction rule: rtranclp_induct) (auto intro: sess_step_ok)

section \<open>An example\<close>

lemma call_step:
  assumes "call_fits c" "c \<noteq> Call_disable_events" "call_fid c \<noteq> fid_set_sock_interfaces" "local_call h freed c s = (r, s')" "result_fits r"
  shows "\<exists>m. sess_step h freed F s (flush_out (write_out [Wire_message m] s'))"
proof -
  from call_reply [OF assms(1,2,4,5), of 0] obtain m
    where i: "invoke h freed (call_fid c) 0 (opt_content (call_enc c)) (of_nat (length (call_enc c))) s = (Inr m, s')" by blast
  let ?req = "message_with sync_request (function_id_code (call_fid c)) 0 0 (call_enc c)"
  have "ipc_read h freed [Inr ?req] s = (Inr (), flush_out (write_out [Wire_message m] s'))"
    using handle_request [OF i] by (simp add: ipc_read_def sbind_def)
  moreover have "plain_request ?req" using assms(3) by (simp add: plain_request_def message_with_simps function_id_of_code)
  ultimately have "sess_step h freed F s (flush_out (write_out [Wire_message m] s'))"
    by (intro sess_step.ss_read [of h freed "[Inr ?req]" s "Inr ()"]) simp_all
  then show ?thesis ..
qed

abbreviation example_group :: uri where
  "example_group \<equiv> uri_of ''ham:ip:239.0.0.1''"

lemma example_group_str: "str example_group = ''ham:ip:239.0.0.1''"
  unfolding str_def uri_d_uri_of by code_simp

lemma example_created:
  "\<exists>m. sess_step (\<lambda>_. set_module) 0 {} example_session (flush_out (write_out [Wire_message m] (snd (add_new_socket example_session))))"
  by (rule call_step [of Call_create_socket _ _ _ "Inr (Res_u32 0)"])
    (simp_all add: call_fits_def op_as_def example_create default_max_write_buffer_size_def)

lemma example_joined:
  "\<exists>s. (sess_step (\<lambda>_. set_module) 0 {})\<^sup>*\<^sup>* example_session s \<and> m_sockets s = [(0, 5)] \<and> self_addr s = 9
     \<and> m_interfaces (sockets_mem s 5) = [0] \<and> joined_set (sockets_mem s 5) = {example_group}"
proof -
  let ?h = "\<lambda>_ :: nat. set_module" and ?s1 = "snd (add_new_socket example_session)"
  obtain m where 1: "sess_step ?h 0 {} example_session (flush_out (write_out [Wire_message m] ?s1))" using example_created by blast
  let ?s = "flush_out (write_out [Wire_message m] ?s1)" and ?sp = "example_socket\<lparr>sck_id := 0\<rparr>"
  let ?tm = "new_tech_module 1 {} [] 1500 :: uri set tech_module"
  obtain r tm' where t: "tm_request set_module 0 (join_t example_group 5) ?tm = (Inr r, tm')"
    by (rule set_module_request [of ?tm "join_t example_group 5"]) (simp_all add: new_module_served example_uri, simp add: new_tech_module_def)
  then obtain ms where j: "sock_join ?h 0 5 example_group (?sp, example_modules) = (Inr (), ?sp\<lparr>m_joined_groups := [(example_group, ())]\<rparr>, ms)"
    by (simp add: sock_join_def example_socket_def sbind_def request_at_def example_modules_def)
  let ?s2 = "?s\<lparr>sockets_mem := (sockets_mem ?s)(5 := ?sp\<lparr>m_joined_groups := [(example_group, ())]\<rparr>), mods := ms\<rparr>"
  have ne: "\<not> uri_is_empty example_group" using example_uri by (simp add: default_uri_iff)
  have s: "m_sockets ?s = [(0, 5)]" "sockets_mem ?s 5 = ?sp" "mods ?s = example_modules" "self_addr ?s = 9"
    by (simp_all add: example_create flush_out_def write_out_def) (simp_all add: example_session_def new_session_def)
  have "cb_join ?h 0 0 example_group ?s = (Inr (), ?s2)"
    using j s ne by (simp add: cb_join_def require_group_def on_socket_eq at_socket_def)
  then have "local_call ?h 0 (Call_join 0 example_group) ?s = (Inr (Res_unit ()), ?s2)" by (simp add: op_as_def)
  moreover have "call_fits (Call_join 0 example_group)"
    by (simp add: call_fits_def uri_ok_def string_ok_def example_group_str enc_uri_def enc_string_def default_max_write_buffer_size_def)
  ultimately obtain m2 where 2: "sess_step ?h 0 {} ?s (flush_out (write_out [Wire_message m2] ?s2))"
    using call_step [of "Call_join 0 example_group" ?h 0 ?s "Inr (Res_unit ())" ?s2 "{}"] by (auto simp: default_max_write_buffer_size_def)
  have e: "m_sockets ?s2 = [(0, 5)] \<and> self_addr ?s2 = 9 \<and> m_interfaces (sockets_mem ?s2 5) = [0]
    \<and> joined_set (sockets_mem ?s2 5) = {example_group}"
    using s by (simp add: joined_set_def example_socket_def)
  let ?s3 = "flush_out (write_out [Wire_message m2] ?s2)"
  have "(sess_step ?h 0 {})\<^sup>*\<^sup>* ?s ?s3" using 2 by (rule r_into_rtranclp)
  with 1 have "(sess_step ?h 0 {})\<^sup>*\<^sup>* example_session ?s3" by (rule converse_rtranclp_into_rtranclp)
  with e show ?thesis by (intro exI [of _ ?s3]) (simp add: flush_out_def write_out_def)
qed

lemma example_modules_ok: "ids_ok example_modules" "\<forall>b i. b \<notin> {} \<longrightarrow> holds (tms example_modules i) b {}"
  by (simp_all add: ids_ok_def example_modules_def instances_def no_requests_def sm_ok_def holds_def quiet_def)
    (simp_all add: new_tech_module_def)

section \<open>Properties\<close>





text \<open>C13: A session that ends leaves nothing behind: \<open>on_exit\<close> returns with an empty table of
  sockets, and no module lists any socket but those of other sessions.\<close>

theorem session_exit_clean:
  assumes "ids_ok ms" "\<forall>b \<in> F. b < addr" "\<forall>b i. b \<notin> F \<longrightarrow> holds (tms ms i) b {}"
    "(sess_step h freed F)\<^sup>*\<^sup>* (new_session self ms mem addr subs img) s" "on_exit h freed s = (r, s')" "alive r"
  shows "r = Inr () \<and> m_sockets s' = [] \<and> (\<forall>i g a. (g, a) \<in> members (tms (mods s') i) \<longrightarrow> a \<in> F)"
proof -
  have "session_ok F s" using sess_steps_ok [OF assms(4) new_session_ok [OF assms(1-3)]] .
  note e = on_exit_ok [OF assms(5,6) this]
  have "(g, a) \<notin> members (tms (mods s') i)" if "a \<notin> F" for i g a
    using session_ok_parts(4) [OF e(2) that] e(3) by (simp add: holds_def)
  with e show ?thesis by blast
qed

theorem session_exit_clean_witness:
  "\<exists>s s'. (sess_step (\<lambda>_. set_module) 0 {})\<^sup>*\<^sup>* example_session s \<and> m_sockets s = [(0, 5)]
     \<and> on_exit (\<lambda>_. set_module) 0 s = (Inr (), s') \<and> m_sockets s' = [] \<and> (\<forall>i g a. (g, a) \<notin> members (tms (mods s') i))"
proof -
  let ?h = "\<lambda>_ :: nat. set_module"
  obtain m where 1: "sess_step ?h 0 {} example_session (flush_out (write_out [Wire_message m] (snd (add_new_socket example_session))))"
    using example_created by blast
  let ?s = "flush_out (write_out [Wire_message m] (snd (add_new_socket example_session)))"
  let ?tm = "new_tech_module 1 {} [] 1500 :: uri set tech_module"
  obtain r tm' where t: "tm_request set_module 0 (leave_all_t 5) ?tm = (Inr r, tm')"
    by (rule set_module_request [of ?tm "leave_all_t 5"]) (simp_all add: new_module_served, simp add: new_tech_module_def)
  have s: "m_sockets ?s = [(0, 5)]" by (simp add: example_create flush_out_def write_out_def)
  have f: "sockets_mem ?s 5 = example_socket\<lparr>sck_id := 0\<rparr>" "mods ?s = example_modules" "disable_events ?s = ?s"
    by (simp_all add: example_create flush_out_def write_out_def disable_events_def) (simp_all add: example_session_def new_session_def)
  have "\<exists>sp ms. sock_leave_all ?h 0 5 True (example_socket\<lparr>sck_id := 0\<rparr>, example_modules) = (Inr (), sp, ms)"
    using t by (simp add: sock_leave_all_def request_at_def sbind_def example_socket_def example_modules_def)
  then obtain s' where e: "on_exit ?h 0 ?s = (Inr (), s')"
    unfolding on_exit_def Let_def f(3) s by (auto simp: at_socket_def sbind_def f(1,2))
  have "(sess_step ?h 0 {})\<^sup>*\<^sup>* example_session ?s" using 1 by (rule r_into_rtranclp)
  moreover from session_exit_clean [OF example_modules_ok(1) _ example_modules_ok(2) this [unfolded example_session_def] e [unfolded example_session_def]]
  have "m_sockets s' = [] \<and> (\<forall>i g a. (g, a) \<notin> members (tms (mods s') i))" by simp
  ultimately show ?thesis using s e by blast
qed

end
