(* ===== verification/Client_Channel.thy ===== *)
theory Client_Channel
  imports Sync_Function Storage_Semaphore Std_Map
begin

text \<open>
  The client's end of the connection to the middleware (\<open>libhamcast/src/client_channel.cpp\<close>,
  \<open>libhamcast/src/multicast_socket.cpp\<close>): the send window of a socket with its buffer of
  unacknowledged packets, the queue of requests and packets of the application threads, the
  incremental reader of the byte stream from the middleware, and the storage and input queue
  of a multicast socket.

  The lemmas show that the reader does not depend on how the stream is cut into pieces and
  always comes to an end, and what acknowledgements and retransmission requests do to the
  window.
\<close>

section \<open>Data\<close>

record outgoing_mcast_packet =
  omp_content :: bytes
  omp_sck_id :: u32
  omp_stm_id :: u16
  omp_content_size :: u32
  omp_seq_nr :: u32

text \<open>The future of a request is given by its address.\<close>

record outgoing_synchronous_message =
  osm_fid :: function_id
  osm_buf :: bytes
  osm_fmsg :: nat

datatype client_channel_msg =
    omp_t outgoing_mcast_packet
  | osm_t outgoing_synchronous_message
  | reg_d_ptr_t u32 nat
  | reg_cb_t nat
  | reg_recv_cb_t u32 nat

datatype socket_state_t = uninitialized_state | socket_open_state | socket_about_to_close_state | socket_closed_state

record socket_data =
  pending_sends :: int
  last_sent :: u32
  seq_nrs :: u32
  sd_buffer :: "(u32, outgoing_mcast_packet) smap"
  sd_state :: socket_state_t
  delayed_close_message :: "outgoing_synchronous_message option"
  mcast_obj :: "nat option"
  recv_cb :: "nat option"

text \<open>The constructor leaves \<open>last_sent\<close> as it is in memory: \<open>indet\<close>.\<close>

definition new_socket_data :: "u32 \<Rightarrow> socket_data" where
  "new_socket_data indet =
     \<lparr>pending_sends = 0, last_sent = indet, seq_nrs = 0, sd_buffer = [], sd_state = uninitialized_state,
      delayed_close_message = None, mcast_obj = None, recv_cb = None\<rparr>"

definition has_pending_sends :: "socket_data \<Rightarrow> bool" where
  "has_pending_sends sd \<longleftrightarrow> sd_buffer sd \<noteq> []"

text \<open>A multicast socket. A stream without an id was asked for and not yet opened.\<close>

record multicast_socket_private =
  ms_id :: u32
  m_max_msg_size :: u32
  m_in_stream :: "multicast_packet list"
  m_out_streams :: "(uri, u16 option) smap"
  m_in_buffer :: int
  m_out_buffer :: storage_semaphore

definition new_multicast_socket_private :: "u32 \<Rightarrow> u32 \<Rightarrow> multicast_socket_private" where
  "new_multicast_socket_private sid max_msg_size =
     \<lparr>ms_id = sid, m_max_msg_size = max_msg_size, m_in_stream = [], m_out_streams = [],
      m_in_buffer = int default_max_buffer_size, m_out_buffer = new_storage_semaphore (int default_max_buffer_size)\<rparr>"

section \<open>The multicast socket\<close>

definition ms_async_recv :: "multicast_packet \<Rightarrow> multicast_socket_private \<Rightarrow> multicast_socket_private" where
  "ms_async_recv mp d =
     (case try_acquire (int (unat (mp_size mp))) (m_in_buffer d) of
        (True, av) \<Rightarrow> d\<lparr>m_in_buffer := av, m_in_stream := m_in_stream d @ [mp]\<rparr>
      | (False, av) \<Rightarrow> d)"

definition ms_try_receive :: "multicast_socket_private \<Rightarrow> multicast_packet option \<times> multicast_socket_private" where
  "ms_try_receive d =
     (case m_in_stream d of
        [] \<Rightarrow> (None, d)
      | mp # q \<Rightarrow> (Some mp, d\<lparr>m_in_buffer := nb_release (int (unat (mp_size mp))) (m_in_buffer d), m_in_stream := q\<rparr>))"

text \<open>The parameter of \<open>release_storage\<close> is a signed 32-bit number.\<close>

definition release_storage :: "u32 \<Rightarrow> multicast_socket_private \<Rightarrow> multicast_socket_private" where
  "release_storage num d = d\<lparr>m_out_buffer := release_impl (max (sint num) (int min_buffer_chunk)) (m_out_buffer d)\<rparr>"

text \<open>
  \<open>send\<close> by the thread \<open>t\<close>: the stream of the group is opened by a request to the middleware
  when it has none, then the storage is acquired, then the packet is queued. The result is the
  packet to queue, or \<open>None\<close> when the thread waits for storage. Such a thread goes on in
  \<open>ms_send_resumed\<close>, once the storage is no longer negative.
\<close>

definition storage_of :: "u32 \<Rightarrow> u32" where
  "storage_of len = max len (of_nat min_buffer_chunk)"

definition out_stream_id ::
  "(u32 \<Rightarrow> uri \<Rightarrow> ('s, u16) op) \<Rightarrow> uri \<Rightarrow> (multicast_socket_private \<times> 's, u16) op" where
  "out_stream_id create_send_stream u = (\<lambda>(d, s).
     (case map_of (m_out_streams d) u of
        Some (Some i) \<Rightarrow> (Inr i, d, s)
      | _ \<Rightarrow> (case create_send_stream (ms_id d) u s of
                (Inl e, s') \<Rightarrow> (Inl e, d\<lparr>m_out_streams := sm_put u None (m_out_streams d)\<rparr>, s')
              | (Inr i, s') \<Rightarrow> (Inr i, d\<lparr>m_out_streams := sm_put u (Some i) (m_out_streams d)\<rparr>, s'))))"

text \<open>The constructor leaves the sequence number open; it is set when the packet is taken from the queue.\<close>

definition new_packet :: "u32 \<Rightarrow> u16 \<Rightarrow> bytes \<Rightarrow> outgoing_mcast_packet" where
  "new_packet sid i buf =
     \<lparr>omp_content = buf, omp_sck_id = sid, omp_stm_id = i, omp_content_size = of_nat (length buf), omp_seq_nr = 0\<rparr>"

definition ms_send ::
  "(u32 \<Rightarrow> uri \<Rightarrow> ('s, u16) op) \<Rightarrow> nat \<Rightarrow> uri \<Rightarrow> bytes
   \<Rightarrow> (multicast_socket_private \<times> 's, outgoing_mcast_packet option) op" where
  "ms_send create_send_stream t u buf = (\<lambda>(d, s).
     if buf = [] then (Inl (Requirement_failed ''buf != 0 && msg_len > 0''), d, s)
     else if uri_is_empty u then (Inl (Requirement_failed ''!u.empty()''), d, s)
     else if unat (m_max_msg_size d) < length buf then (Inl (Requirement_failed ''message too big''), d, s)
     else
       (case out_stream_id create_send_stream u (d, s) of
          (Inl e, ds) \<Rightarrow> (Inl e, ds)
        | (Inr i, d1, s1) \<Rightarrow>
            (let sem = acquire_impl t (int (unat (storage_of (of_nat (length buf))))) (m_out_buffer d1) in
             (Inr (if sem_available sem < 0 then None else Some (new_packet (ms_id d1) i buf)),
              d1\<lparr>m_out_buffer := sem\<rparr>, s1))))"

definition ms_send_resumed ::
  "nat \<Rightarrow> u16 \<Rightarrow> bytes \<Rightarrow> multicast_socket_private \<Rightarrow> outgoing_mcast_packet \<times> multicast_socket_private" where
  "ms_send_resumed t i buf d =
     (new_packet (ms_id d) i buf,
      d\<lparr>m_out_buffer := resume_acquire t (int (unat (storage_of (of_nat (length buf))))) (m_out_buffer d)\<rparr>)"

section \<open>The send window\<close>

definition omp_message :: "outgoing_mcast_packet \<Rightarrow> message" where
  "omp_message p =
     \<lparr>msg_type = message_type_code async_send, msg_field1 = omp_stm_id p, msg_field2 = omp_sck_id p,
      msg_field3 = omp_seq_nr p, msg_content_size = omp_content_size p,
      msg_content = (if omp_content_size p = 0 then None else Some (take (unat (omp_content_size p)) (omp_content p)))\<rparr>"

definition drop_smaller_or_equal_seq_nrs :: "u32 \<Rightarrow> socket_data \<Rightarrow> u32 \<times> socket_data" where
  "drop_smaller_or_equal_seq_nrs seq_nr ostm =
     (let dropped = sm_upto seq_nr (sd_buffer ostm)
      in (sum_list (map (\<lambda>(_, p). storage_of (omp_content_size p)) dropped),
          ostm\<lparr>sd_buffer := sm_above seq_nr (sd_buffer ostm),
               pending_sends := pending_sends ostm - int (length dropped)\<rparr>))"

text \<open>
  The range of \<open>do_send\<close> runs from the element \<open>from\<close> to the first one above \<open>to\<close>. When that
  one comes before, the iteration leaves the map.
\<close>

definition do_send :: "u32 \<Rightarrow> u32 \<Rightarrow> socket_data \<Rightarrow> message list res \<times> socket_data" where
  "do_send from to ostm =
     (case map_of (sd_buffer ostm) from of
        None \<Rightarrow> (Inr [], ostm)
      | Some _ \<Rightarrow>
          if list_ex (\<lambda>p. to < fst p \<and> fst p < from) (sd_buffer ostm)
          then (Inl (Undefined_behaviour ''iteration past the end of a map''), ostm)
          else (let sent = sm_upto to (sm_from from (sd_buffer ostm))
                in (Inr (map (\<lambda>(_, p). omp_message p) sent),
                    ostm\<lparr>pending_sends := pending_sends ostm + int (length sent),
                         last_sent := last_sent ostm + of_nat (length sent)\<rparr>)))"

text \<open>A packet of the application.\<close>

definition enqueue_packet :: "outgoing_mcast_packet \<Rightarrow> socket_data \<Rightarrow> message list \<times> socket_data" where
  "enqueue_packet omp0 sdata =
     (case next_id (seq_nrs sdata) of
        (n, ids) \<Rightarrow>
          (let omp = omp0\<lparr>omp_seq_nr := n\<rparr>;
               sd1 = sdata\<lparr>seq_nrs := ids\<rparr>;
               (out, sd2) =
                 (if (n = 0 \<or> n = last_sent sd1 + 1) \<and> pending_sends sd1 < int max_pending_sends
                  then ([omp_message omp], sd1\<lparr>pending_sends := pending_sends sd1 + 1, last_sent := n\<rparr>)
                  else ([], sd1))
           in (out, sd2\<lparr>sd_buffer := sm_insert n omp (sd_buffer sd2)\<rparr>)))"

text \<open>
  An acknowledgement: the storage to release, the packets sent and a close message that is put
  back into the queue.
\<close>

definition ack_window :: "u32 \<Rightarrow> socket_data \<Rightarrow> (message list \<times> outgoing_synchronous_message option) res \<times> u32 \<times> socket_data" where
  "ack_window seq_nr sdata =
     (case drop_smaller_or_equal_seq_nrs seq_nr sdata of
        (released, sd1) \<Rightarrow>
          (case (if pending_sends sd1 < int max_pending_sends
                 then (let from = last_sent sd1 + 1;
                           to = from + of_int (int max_pending_sends - pending_sends sd1)
                       in do_send from to sd1)
                 else (Inr [], sd1)) of
             (Inl e, sd2) \<Rightarrow> (Inl e, released, sd2)
           | (Inr out, sd2) \<Rightarrow>
               if sd_state sd2 = socket_about_to_close_state \<and> \<not> has_pending_sends sd2
               then (Inr (out, delayed_close_message sd2), released, sd2\<lparr>delayed_close_message := None\<rparr>)
               else (Inr (out, None), released, sd2)))"

definition retransmit_window :: "u32 \<Rightarrow> socket_data \<Rightarrow> message list res \<times> socket_data" where
  "retransmit_window seq_nr sdata = do_send seq_nr (last_sent sdata) sdata"

section \<open>The channel\<close>

datatype rd_state_type = rd_msg_type | rd_field1 | rd_field2 | rd_field3 | rd_content_size | rd_content

text \<open>What the channel does outside: the result of a future, a receive callback, an event callback.\<close>

datatype client_effect =
    Future_set nat message
  | Receive_callback nat uri u32 bytes
  | Event_callback nat membership_event

text \<open>
  \<open>cc_wb\<close> is the content of the buffer \<open>wb\<close> between two calls of \<open>ipc_read\<close>. \<open>cc_out\<close> is what was
  written to the middleware and \<open>cc_log\<close> what was done outside, in order; the code does not
  store them. \<open>mcasts\<close> are the multicast sockets by address.
\<close>

record client =
  cc_sockets :: "(u32, socket_data) smap"
  cc_requests :: "(u32, outgoing_synchronous_message) smap"
  cc_req_ids :: u32
  cc_cbs :: "nat list"
  cc_queue :: "client_channel_msg list"
  cc_wb :: bytes
  rd_state :: rd_state_type
  m_msg_type_field :: u16
  m_field1 :: u16
  m_field2 :: u32
  m_field3 :: u32
  m_content_size :: u32
  mcasts :: "nat \<Rightarrow> multicast_socket_private"
  cc_out :: "message list"
  cc_log :: "client_effect list"

definition set_socket :: "u32 \<Rightarrow> socket_data \<Rightarrow> client \<Rightarrow> client" where
  "set_socket sid sd c = c\<lparr>cc_sockets := sm_put sid sd (cc_sockets c)\<rparr>"

text \<open>\<open>operator[]\<close> of the map of sockets.\<close>

definition socket_at :: "u32 \<Rightarrow> u32 \<Rightarrow> client \<Rightarrow> socket_data" where
  "socket_at indet sid c = (case map_of (cc_sockets c) sid of Some sd \<Rightarrow> sd | None \<Rightarrow> new_socket_data indet)"

abbreviation read_u32 :: "bytes option \<Rightarrow> u32 \<Rightarrow> u32 res" where
  "read_u32 \<equiv> from_content (des_u32 rb_read)"

definition buf_u32 :: "bytes \<Rightarrow> u32 res" where
  "buf_u32 buf = read_u32 (Some buf) (of_nat (length buf))"

definition wiretap :: "u32 \<Rightarrow> outgoing_synchronous_message \<Rightarrow> message \<Rightarrow> (client, unit) op" where
  "wiretap indet request resp c =
     (if msg_field1 resp \<noteq> exception_id_code eid_none then (Inr (), c)
      else if osm_fid request = fid_create_socket then
        (if msg_content resp = None then (Inl (Requirement_failed ''resp_view.content()''), c)
         else (case read_u32 (msg_content resp) (msg_content_size resp) of
                 Inl e \<Rightarrow> (Inl e, c)
               | Inr sid \<Rightarrow>
                   if map_of (cc_sockets c) sid \<noteq> None
                   then (Inl (Requirement_failed ''smap.insert(std::make_pair(sid, socket_data())).second''), c)
                   else (Inr (), set_socket sid (new_socket_data indet) c)))
      else if osm_fid request = fid_create_send_stream then
        (if msg_content resp = None then (Inl (Requirement_failed ''resp_view.content() && request->buf''), c)
         else (case from_content (des_u16 rb_read) (msg_content resp) (msg_content_size resp) of
                 Inl e \<Rightarrow> (Inl e, c)
               | Inr _ \<Rightarrow>
                   (case buf_u32 (osm_buf request) of
                      Inl e \<Rightarrow> (Inl e, c)
                    | Inr sid \<Rightarrow>
                        if map_of (cc_sockets c) sid = None then (Inl (Requirement_failed ''i != smap.end()''), c)
                        else (Inr (), c))))
      else if osm_fid request = fid_delete_socket then
        (case buf_u32 (osm_buf request) of
           Inl e \<Rightarrow> (Inl e, c)
         | Inr sid \<Rightarrow>
             (case map_of (cc_sockets c) sid of
                None \<Rightarrow> (Inl (Requirement_failed ''i != smap.end()''), c)
              | Some sd \<Rightarrow> (Inr (), set_socket sid (sd\<lparr>sd_state := socket_closed_state\<rparr>) c)))
      else (Inr (), c))"

subsection \<open>Messages of the middleware\<close>

text \<open>
  The handlers of \<open>ipc_read\<close>. Their result is the number of bytes of the content that are
  consumed from the stream.
\<close>

definition handle_async_recv :: "bytes \<Rightarrow> (client, nat) op" where
  "handle_async_recv ct c =
     (if m_content_size c = 0 then (Inl (Requirement_failed ''m_content_size > 0''), c)
      else (case map_of (cc_sockets c) (m_field2 c) of
              None \<Rightarrow> (Inr 0, c)
            | Some sdata \<Rightarrow>
                (case mcast_obj sdata of
                   Some d \<Rightarrow>
                     (case from_content (des_multicast_packet rb_read) (Some ct) (m_content_size c) of
                        Inl e \<Rightarrow> (Inl e, c)
                      | Inr mp \<Rightarrow> (Inr (unat (m_content_size c)), c\<lparr>mcasts := (mcasts c)(d := ms_async_recv mp (mcasts c d))\<rparr>))
                 | None \<Rightarrow>
                     (case recv_cb sdata of
                        Some cb \<Rightarrow>
                          (case sbind (des_uri rb_read) (\<lambda>from. sbind (des_u32 rb_read) (\<lambda>n. sret (from, n)))
                                  (new_read_buffer ct, []) of
                             (Inl e, _) \<Rightarrow> (Inl e, c)
                           | (Inr (from, n), rb, _) \<Rightarrow>
                               (Inr (unat (m_content_size c)), c\<lparr>cc_log := cc_log c @ [Receive_callback cb from n (rb_stream rb)]\<rparr>))
                      | None \<Rightarrow> (Inr 0, c)))))"

definition handle_sync_response :: "u32 \<Rightarrow> bytes \<Rightarrow> (client, nat) op" where
  "handle_sync_response indet ct c =
     (case message_create (m_msg_type_field c) (m_field1 c) (m_field2 c) (m_field3 c) (m_content_size c)
             (if 0 < m_content_size c then Some ct else None) of
        Inl e \<Rightarrow> (Inl e, c)
      | Inr msg \<Rightarrow>
          (case map_of (cc_requests c) (msg_field2 msg) of
             None \<Rightarrow> (Inr (unat (m_content_size c)), c)
           | Some osm \<Rightarrow>
               sbind (wiretap indet osm msg)
                 (\<lambda>_ c'. (Inr (unat (m_content_size c)), c'\<lparr>cc_log := cc_log c' @ [Future_set (osm_fmsg osm) msg]\<rparr>))
                 (c\<lparr>cc_requests := sm_erase (msg_field2 msg) (cc_requests c)\<rparr>)))"

definition handle_retransmit :: "(client, nat) op" where
  "handle_retransmit c =
     (if m_content_size c \<noteq> 0 then (Inl (Requirement_failed ''m_content_size == 0''), c)
      else (case map_of (cc_sockets c) (m_field2 c) of
              None \<Rightarrow> (Inr 0, c)
            | Some sdata \<Rightarrow>
                (case retransmit_window (m_field3 c) sdata of
                   (Inl e, sd) \<Rightarrow> (Inl e, set_socket (m_field2 c) sd c)
                 | (Inr out, sd) \<Rightarrow> (Inr 0, (set_socket (m_field2 c) sd c)\<lparr>cc_out := cc_out c @ out\<rparr>))))"

text \<open>A null \<open>mcast_obj\<close> is dereferenced.\<close>

definition handle_cumulative_ack :: "(client, nat) op" where
  "handle_cumulative_ack c =
     (if m_content_size c \<noteq> 0 then (Inl (Requirement_failed ''m_content_size == 0''), c)
      else (case map_of (cc_sockets c) (m_field2 c) of
              None \<Rightarrow> (Inr 0, c)
            | Some sdata \<Rightarrow>
                (case mcast_obj sdata of
                   None \<Rightarrow> (Inl (Undefined_behaviour ''call on a null pointer''),
                            set_socket (m_field2 c) (snd (drop_smaller_or_equal_seq_nrs (m_field3 c) sdata)) c)
                 | Some d \<Rightarrow>
                     (case ack_window (m_field3 c) sdata of
                        (r, released, sd) \<Rightarrow>
                          (let c1 = (set_socket (m_field2 c) sd c)\<lparr>mcasts := (mcasts c)(d := release_storage released (mcasts c d))\<rparr>
                           in case r of
                                Inl e \<Rightarrow> (Inl e, c1)
                              | Inr (out, close) \<Rightarrow>
                                  (Inr 0, c1\<lparr>cc_out := cc_out c @ out,
                                             cc_queue := cc_queue c @ (case close of None \<Rightarrow> [] | Some m \<Rightarrow> [osm_t m])\<rparr>))))))"

definition event_type_of :: "u16 \<Rightarrow> membership_event_type option" where
  "event_type_of w = find (\<lambda>t. membership_event_type_code t = w) [join_event, leave_event, new_source_event]"

definition handle_async_event :: "bytes \<Rightarrow> (client, nat) op" where
  "handle_async_event ct c =
     (case from_content (des_uri rb_read) (Some ct) (m_content_size c) of
        Inl e \<Rightarrow> (Inl e, c)
      | Inr grp \<Rightarrow>
          if uri_is_empty grp then (Inl (Logic_error ''empty group name''), c)
          else (case event_type_of (m_field1 c) of
                  None \<Rightarrow> (Inl (Logic_error ''invalid event type''), c)
                | Some met \<Rightarrow>
                    (Inr 0, c\<lparr>cc_log := cc_log c @ map (\<lambda>cb. Event_callback cb
                                \<lparr>ev_type = met, ev_iface_id = m_field2 c, ev_group = grp\<rparr>) (cc_cbs c)\<rparr>)))"

definition handle_message :: "u32 \<Rightarrow> bytes \<Rightarrow> (client, nat) op" where
  "handle_message indet ct c =
     (case message_type_of (m_msg_type_field c) of
        Some async_recv \<Rightarrow> handle_async_recv ct c
      | Some sync_response \<Rightarrow> handle_sync_response indet ct c
      | Some retransmit \<Rightarrow> handle_retransmit c
      | Some cumulative_ack \<Rightarrow> handle_cumulative_ack c
      | Some async_event \<Rightarrow> handle_async_event ct c
      | _ \<Rightarrow> (Inl (Logic_error ''invalid message type''), c))"

subsection \<open>Reading the stream\<close>

text \<open>
  One \<open>try_read\<close> of the header or the handling of a complete message, on the bytes that are
  left of the buffer. The result is what is left afterwards, and \<open>None\<close> when more bytes are
  needed. The \<open>switch\<close> falls through its cases, so the loop is a sequence of such steps.
\<close>

definition try_read ::
  "nat \<Rightarrow> (bytes \<Rightarrow> client \<Rightarrow> client) \<Rightarrow> rd_state_type \<Rightarrow> bytes \<Rightarrow> (client, bytes option) op" where
  "try_read n store next_state xs c =
     (if n \<le> length xs then (Inr (Some (drop n xs)), (store (take n xs) c)\<lparr>rd_state := next_state\<rparr>)
      else (Inr None, c))"

definition rd_step :: "u32 \<Rightarrow> bytes \<Rightarrow> (client, bytes option) op" where
  "rd_step indet xs c =
     (case rd_state c of
        rd_msg_type \<Rightarrow> try_read 2 (\<lambda>b. m_msg_type_field_update (\<lambda>_. of_nat (le_dec b))) rd_field1 xs c
      | rd_field1 \<Rightarrow> try_read 2 (\<lambda>b. m_field1_update (\<lambda>_. of_nat (le_dec b))) rd_field2 xs c
      | rd_field2 \<Rightarrow> try_read 4 (\<lambda>b. m_field2_update (\<lambda>_. of_nat (le_dec b))) rd_field3 xs c
      | rd_field3 \<Rightarrow> try_read 4 (\<lambda>b. m_field3_update (\<lambda>_. of_nat (le_dec b))) rd_content_size xs c
      | rd_content_size \<Rightarrow> try_read 4 (\<lambda>b. m_content_size_update (\<lambda>_. of_nat (le_dec b))) rd_content xs c
      | rd_content \<Rightarrow>
          if 0 < m_content_size c \<and> length xs < unat (m_content_size c) then (Inr None, c)
          else (case handle_message indet (take (unat (m_content_size c)) xs) c of
                  (Inl e, c') \<Rightarrow> (Inl e, c')
                | (Inr n, c') \<Rightarrow> (Inr (Some (drop n xs)), c'\<lparr>rd_state := rd_msg_type\<rparr>)))"

lemma rd_step_measure:
  assumes "rd_step indet xs c = (Inr (Some ys), c')"
  shows "2 * length ys + (if rd_state c' = rd_content then 1 else 0)
    < 2 * length xs + (if rd_state c = rd_content then 1 else 0)"
  using assms by (auto simp: rd_step_def try_read_def split: rd_state_type.splits if_splits prod.splits sum.splits)

function read_loop :: "u32 \<Rightarrow> bytes \<Rightarrow> (client, bytes) op" where
  "read_loop indet xs c =
     (case rd_step indet xs c of
        (Inl e, c') \<Rightarrow> (Inl e, c')
      | (Inr None, c') \<Rightarrow> (Inr xs, c')
      | (Inr (Some ys), c') \<Rightarrow> read_loop indet ys c')"
  by pat_completeness auto

termination
  by (relation "measure (\<lambda>(_, xs, c). 2 * length xs + (if rd_state c = rd_content then 1 else 0))")
    (use rd_step_measure in auto)

text \<open>\<open>chunk\<close> is what \<open>append_some_from\<close> gets from the socket, as far as the buffer has room.\<close>

definition client_ipc_read :: "u32 \<Rightarrow> bytes \<Rightarrow> (client, unit) op" where
  "client_ipc_read indet chunk c =
     (case read_loop indet (cc_wb c @ chunk) c of
        (Inl e, c') \<Rightarrow> (Inl e, c'\<lparr>cc_wb := cc_wb c @ chunk\<rparr>)
      | (Inr rest, c') \<Rightarrow> (Inr (), c'\<lparr>cc_wb := rest\<rparr>))"

subsection \<open>Messages of the application\<close>

definition handle_osm :: "outgoing_synchronous_message \<Rightarrow> (client, unit) op" where
  "handle_osm osm c =
     (let send = (\<lambda>c. case next_id (cc_req_ids c) of
            (rid, ids) \<Rightarrow>
              (Inr (), c\<lparr>cc_req_ids := ids,
                         cc_out := cc_out c @ [message_with sync_request (function_id_code (osm_fid osm)) rid 0 (osm_buf osm)],
                         cc_requests := sm_put rid osm (cc_requests c)\<rparr>))
      in if osm_fid osm = fid_delete_socket then
           (case buf_u32 (osm_buf osm) of
              Inl e \<Rightarrow> (Inl e, c)
            | Inr sid \<Rightarrow>
                (case map_of (cc_sockets c) sid of
                   None \<Rightarrow> (Inl (Requirement_failed ''i != m_sockets.end()''), c)
                 | Some sdata \<Rightarrow>
                     if has_pending_sends sdata
                     then (Inr (), set_socket sid (sdata\<lparr>delayed_close_message := Some osm, sd_state := socket_about_to_close_state\<rparr>) c)
                     else send c))
         else send c)"

definition handle_queued :: "u32 \<Rightarrow> client_channel_msg \<Rightarrow> (client, unit) op" where
  "handle_queued indet e c =
     (case e of
        reg_d_ptr_t sid ptr \<Rightarrow> (Inr (), set_socket sid ((socket_at indet sid c)\<lparr>mcast_obj := Some ptr\<rparr>) c)
      | reg_recv_cb_t sid cb \<Rightarrow> (Inr (), set_socket sid ((socket_at indet sid c)\<lparr>recv_cb := Some cb\<rparr>) c)
      | omp_t omp \<Rightarrow>
          (case map_of (cc_sockets c) (omp_sck_id omp) of
             None \<Rightarrow> (Inr (), c)
           | Some sdata \<Rightarrow>
               (case enqueue_packet omp sdata of
                  (out, sd) \<Rightarrow> (Inr (), (set_socket (omp_sck_id omp) sd c)\<lparr>cc_out := cc_out c @ out\<rparr>)))
      | osm_t osm \<Rightarrow> handle_osm osm c
      | reg_cb_t cb \<Rightarrow> (Inr (), c\<lparr>cc_cbs := cc_cbs c @ [cb]\<rparr>))"

primrec client_poll_messages :: "u32 \<Rightarrow> nat \<Rightarrow> (client, unit) op" where
  "client_poll_messages indet 0 c = (Inr (), c)"
| "client_poll_messages indet (Suc num) c =
     (case cc_queue c of
        [] \<Rightarrow> (Inl (Requirement_failed ''e != 0''), c)
      | e # q \<Rightarrow> sbind (handle_queued indet e) (\<lambda>_. client_poll_messages indet num) (c\<lparr>cc_queue := q\<rparr>))"

text \<open>The calls of application threads; \<open>send_sync_request\<close> then waits for its future.\<close>

definition client_push :: "client_channel_msg \<Rightarrow> client \<Rightarrow> client" where
  "client_push msg c = c\<lparr>cc_queue := cc_queue c @ [msg]\<rparr>"

definition send_async_data :: "u32 \<Rightarrow> u16 \<Rightarrow> bytes \<Rightarrow> client \<Rightarrow> client" where
  "send_async_data sock stream ct = client_push (omp_t (new_packet sock stream ct))"

definition send_sync_request :: "function_id \<Rightarrow> bytes \<Rightarrow> nat \<Rightarrow> client \<Rightarrow> client" where
  "send_sync_request fid buf fmsg = client_push (osm_t \<lparr>osm_fid = fid, osm_buf = buf, osm_fmsg = fmsg\<rparr>)"

definition register_d_ptr :: "u32 \<Rightarrow> nat \<Rightarrow> client \<Rightarrow> client" where
  "register_d_ptr sid ptr = client_push (reg_d_ptr_t sid ptr)"

definition register_callback :: "nat \<Rightarrow> client \<Rightarrow> client" where
  "register_callback cb = client_push (reg_cb_t cb)"

definition register_receive_callback :: "u32 \<Rightarrow> nat \<Rightarrow> client \<Rightarrow> client" where
  "register_receive_callback sock cb = client_push (reg_recv_cb_t sock cb)"

section \<open>The stream in pieces\<close>

text \<open>A sequence of calls of \<open>ipc_read\<close>, one for each piece that arrives.\<close>

fun client_reads :: "u32 \<Rightarrow> bytes list \<Rightarrow> (client, unit) op" where
  "client_reads indet [] c = (Inr (), c)"
| "client_reads indet (x # xs) c = sbind (client_ipc_read indet x) (\<lambda>_. client_reads indet xs) c"

text \<open>The handlers do not look at the buffer.\<close>

abbreviation with_wb :: "bytes \<Rightarrow> 'a \<times> client \<Rightarrow> 'a \<times> client" where
  "with_wb w \<equiv> apsnd (cc_wb_update (\<lambda>_. w))"

lemma wiretap_wb: "wiretap indet req resp (c\<lparr>cc_wb := w\<rparr>) = with_wb w (wiretap indet req resp c)"
  by (simp add: wiretap_def set_socket_def split: sum.splits option.splits)

lemma handle_wb:
  "handle_async_recv ct (c\<lparr>cc_wb := w\<rparr>) = with_wb w (handle_async_recv ct c)"
  "handle_retransmit (c\<lparr>cc_wb := w\<rparr>) = with_wb w (handle_retransmit c)"
  "handle_cumulative_ack (c\<lparr>cc_wb := w\<rparr>) = with_wb w (handle_cumulative_ack c)"
  "handle_async_event ct (c\<lparr>cc_wb := w\<rparr>) = with_wb w (handle_async_event ct c)"
  by (simp_all add: handle_async_recv_def handle_retransmit_def handle_cumulative_ack_def handle_async_event_def
        set_socket_def Let_def split: sum.splits option.splits prod.splits)

lemma handle_sync_response_wb:
  "handle_sync_response indet ct (c\<lparr>cc_wb := w\<rparr>) = with_wb w (handle_sync_response indet ct c)"
proof -
  have comm: "c\<lparr>cc_wb := w, cc_requests := q\<rparr> = c\<lparr>cc_requests := q, cc_wb := w\<rparr>" for q by simp
  have "wiretap indet req resp (c\<lparr>cc_requests := q, cc_wb := w\<rparr>) = with_wb w (wiretap indet req resp (c\<lparr>cc_requests := q\<rparr>))" for req resp q
    by (rule wiretap_wb)
  then have "wiretap indet req resp (c\<lparr>cc_wb := w, cc_requests := q\<rparr>) = with_wb w (wiretap indet req resp (c\<lparr>cc_requests := q\<rparr>))" for req resp q
    unfolding comm .
  then show ?thesis by (simp add: handle_sync_response_def sbind_def split: sum.splits option.splits prod.splits)
qed

lemma handle_message_wb: "handle_message indet ct (c\<lparr>cc_wb := w\<rparr>) = with_wb w (handle_message indet ct c)"
  by (simp add: handle_message_def handle_wb handle_sync_response_wb split: option.splits message_type.splits)

lemma rd_step_wb: "rd_step indet xs (c\<lparr>cc_wb := w\<rparr>) = with_wb w (rd_step indet xs c)"
  by (simp add: rd_step_def try_read_def handle_message_wb split: rd_state_type.splits sum.splits prod.splits)

declare read_loop.simps [simp del]

lemma read_loop_wb: "read_loop indet xs (c\<lparr>cc_wb := w\<rparr>) = with_wb w (read_loop indet xs c)"
proof (induction indet xs c rule: read_loop.induct)
  case (1 indet xs c)
  obtain r c' where s: "rd_step indet xs c = (r, c')" by fastforce
  then have "rd_step indet xs (c\<lparr>cc_wb := w\<rparr>) = (r, c'\<lparr>cc_wb := w\<rparr>)" by (simp add: rd_step_wb)
  with s 1 [OF s [symmetric]] show ?case
    by (simp add: read_loop.simps [of indet xs] split: sum.splits option.splits)
qed

text \<open>More bytes behind what a step reads do not change it.\<close>

lemma wiretap_size: "wiretap indet req resp c = (r, c') \<Longrightarrow> m_content_size c' = m_content_size c"
  by (auto simp: wiretap_def set_socket_def split: if_splits sum.splits option.splits)

lemma handle_message_consumes:
  "handle_message indet ct c = (Inr n, c') \<Longrightarrow> n \<le> unat (m_content_size c)"
  by (auto simp: handle_message_def handle_async_recv_def handle_sync_response_def handle_retransmit_def
        handle_cumulative_ack_def handle_async_event_def sbind_def Let_def
      split: option.splits message_type.splits sum.splits prod.splits if_splits)

lemma rd_step_append:
  assumes "rd_step indet xs c = (r, c')"
  shows "rd_step indet (xs @ zs) c =
    (case r of Inr None \<Rightarrow> rd_step indet (xs @ zs) c | Inr (Some ys) \<Rightarrow> (Inr (Some (ys @ zs)), c') | Inl e \<Rightarrow> (Inl e, c'))"
    and "r = Inr None \<Longrightarrow> c' = c"
proof -
  show "rd_step indet (xs @ zs) c =
    (case r of Inr None \<Rightarrow> rd_step indet (xs @ zs) c | Inr (Some ys) \<Rightarrow> (Inr (Some (ys @ zs)), c') | Inl e \<Rightarrow> (Inl e, c'))"
  proof (cases "rd_state c = rd_content")
    case False
    with assms show ?thesis by (auto simp: rd_step_def try_read_def split: rd_state_type.splits if_splits)
  next
    case content: True
    let ?n = "unat (m_content_size c)"
    show ?thesis
    proof (cases "length xs < ?n")
      case True
      then have "0 < m_content_size c" by (metis gr_implies_not0 unat_0 word_gt_0)
      with True content assms have "r = Inr None" by (simp add: rd_step_def)
      then show ?thesis by simp
    next
      case False
      obtain r1 c1 where h: "handle_message indet (take ?n xs) c = (r1, c1)" by fastforce
      have t: "take ?n (xs @ zs) = take ?n xs" using False by simp
      show ?thesis
      proof (cases r1)
        case (Inl e)
        with assms h content False t show ?thesis by (auto simp: rd_step_def)
      next
        case (Inr n)
        have "n \<le> length xs" using handle_message_consumes [of indet _ c n c1] h Inr False by fastforce
        with Inr assms h content False t show ?thesis by (auto simp: rd_step_def)
      qed
    qed
  qed
  show "r = Inr None \<Longrightarrow> c' = c"
    using assms by (auto simp: rd_step_def try_read_def split: rd_state_type.splits if_splits sum.splits prod.splits)
qed

lemma read_loop_append:
  "read_loop indet (xs @ zs) c =
     (case read_loop indet xs c of (Inl e, c') \<Rightarrow> (Inl e, c') | (Inr rest, c') \<Rightarrow> read_loop indet (rest @ zs) c')"
proof (induction indet xs c rule: read_loop.induct)
  case (1 indet xs c)
  obtain r c' where s: "rd_step indet xs c = (r, c')" by fastforce
  note a = rd_step_append [OF s]
  show ?case
  proof (cases r)
    case (Inl e)
    with s a(1) [of zs] show ?thesis by (simp add: read_loop.simps [of indet xs] read_loop.simps [of indet "xs @ zs"])
  next
    case (Inr o1)
    show ?thesis
    proof (cases o1)
      case None
      with s a(2) Inr show ?thesis by (simp add: read_loop.simps [of indet xs])
    next
      case (Some ys)
      have "read_loop indet (xs @ zs) c = read_loop indet (ys @ zs) c'"
        using a(1) [of zs] Inr Some by (simp add: read_loop.simps [of indet "xs @ zs"])
      moreover have "read_loop indet xs c = read_loop indet ys c'"
        using s Inr Some by (simp add: read_loop.simps [of indet xs])
      ultimately show ?thesis using 1 [OF s [symmetric] Inr Some] by simp
    qed
  qed
qed

lemma client_ipc_read_append:
  "client_ipc_read indet (xs @ ys) c =
     (case client_ipc_read indet xs c of
        (Inl e, c') \<Rightarrow> (Inl e, c'\<lparr>cc_wb := cc_wb c @ xs @ ys\<rparr>)
      | (Inr _, c') \<Rightarrow>
          (case client_ipc_read indet ys c' of
             (Inl e, c'') \<Rightarrow> (Inl e, c''\<lparr>cc_wb := cc_wb c @ xs @ ys\<rparr>)
           | (Inr _, c'') \<Rightarrow> (Inr (), c'')))"
  using read_loop_append [of indet "cc_wb c @ xs" ys c]
  by (auto simp: client_ipc_read_def read_loop_wb split: prod.splits sum.splits)

text \<open>The result of reading. After an exception the buffer is of no use.\<close>

definition outcome :: "unit res \<times> client \<Rightarrow> unit res \<times> client" where
  "outcome rc = (case rc of (Inl e, c) \<Rightarrow> (Inl e, c\<lparr>cc_wb := []\<rparr>) | (Inr u, c) \<Rightarrow> (Inr u, c))"

text \<open>C12: What the client does with the stream from the middleware does not depend on how the
  stream is cut into the pieces that single reads of the socket return: reading the pieces one
  after the other ends in the same state, with the same packets, responses and callbacks, or in
  the same exception, as reading all of it at once. (After an exception only the content of the
  read buffer differs.)\<close>

theorem client_read_pieces:
  assumes "pieces \<noteq> []"
  shows "outcome (client_reads indet pieces c) = outcome (client_ipc_read indet (concat pieces) c)"
  using assms
proof (induction pieces arbitrary: c)
  case (Cons x xs)
  obtain r c1 where x: "client_ipc_read indet x c = (r, c1)" by fastforce
  show ?case
  proof (cases "xs = []")
    case True
    with x show ?thesis by (cases r) (simp_all add: sbind_def outcome_def)
  next
    case False
    obtain r2 c2 where y: "client_ipc_read indet (concat xs) c1 = (r2, c2)" by fastforce
    obtain r3 c3 where z: "client_reads indet xs c1 = (r3, c3)" by fastforce
    from Cons.IH [OF False, of c1] x y z show ?thesis
      by (cases r; cases r2; cases r3) (simp_all add: sbind_def outcome_def client_ipc_read_append)
  qed
qed simp

text \<open>
  The content of an event is read but not taken from the stream: the next message starts in
  the middle of it.
\<close>

lemma event_content_left:
  assumes "rd_state c = rd_content" "m_msg_type_field c = message_type_code async_event"
    "rd_step indet xs c = (Inr (Some ys), c')"
  shows "ys = xs"
proof -
  have h: "handle_message indet ct c = handle_async_event ct c" for ct
    unfolding handle_message_def assms(2) message_type_of_code by simp
  have z: "handle_async_event ct c = (Inr n, c'') \<Longrightarrow> n = 0" for ct n c''
    by (auto simp: handle_async_event_def split: sum.splits if_splits option.splits)
  show ?thesis using assms(1,3) by (auto simp: rd_step_def h split: if_splits sum.splits prod.splits dest!: z)
qed

section \<open>Example\<close>

text \<open>A client without sockets that has asked for something, with request id 5.\<close>

definition example_client :: client where
  "example_client =
     \<lparr>cc_sockets = [], cc_requests = [(5, \<lparr>osm_fid = fid_join, osm_buf = [], osm_fmsg = 77\<rparr>)], cc_req_ids = 6, cc_cbs = [],
      cc_queue = [], cc_wb = [], rd_state = rd_msg_type, m_msg_type_field = 0, m_field1 = 0, m_field2 = 0, m_field3 = 0,
      m_content_size = 0, mcasts = (\<lambda>_. new_multicast_socket_private 0 0), cc_out = [], cc_log = []\<rparr>"

definition example_response :: message where
  "example_response = \<lparr>msg_type = message_type_code sync_response, msg_field1 = 0, msg_field2 = 5, msg_field3 = 0,
     msg_content_size = 0, msg_content = None\<rparr>"

definition example_pieces :: "bytes list" where
  "example_pieces = [[CHR 0x01, CHR 0x00, CHR 0x00], [CHR 0x00, CHR 0x05, CHR 0x00, CHR 0x00, CHR 0x00, CHR 0x00, CHR 0x00],
     [CHR 0x00, CHR 0x00, CHR 0x00, CHR 0x00, CHR 0x00, CHR 0x00]]"

lemma example_read_at_once:
  "fst (client_ipc_read 0 (concat example_pieces) example_client) = Inr ()"
  "cc_log (snd (client_ipc_read 0 (concat example_pieces) example_client)) = [Future_set 77 example_response]"
  by (simp_all add: client_ipc_read_def example_client_def example_pieces_def read_loop.simps rd_step_def try_read_def
      handle_message_def message_type_of_def handle_sync_response_def message_create_def sbind_def wiretap_def
      sm_erase_def example_response_def)

theorem client_read_pieces_witness:
  "example_pieces \<noteq> [] \<and> fst (client_reads 0 example_pieces example_client) = Inr ()
   \<and> cc_log (snd (client_reads 0 example_pieces example_client)) = [Future_set 77 example_response]"
proof -
  have ne: "example_pieces \<noteq> []" by (simp add: example_pieces_def)
  have out: "outcome rc = outcome rc' \<Longrightarrow> fst rc' = Inr () \<Longrightarrow> rc = rc'" for rc rc'
    by (cases rc; cases rc') (auto simp: outcome_def split: sum.splits)
  from out [OF client_read_pieces [OF ne] example_read_at_once(1)] ne example_read_at_once show ?thesis by simp
qed

end
