(* ===== verification/Reliable_Link.thy ===== *)
theory Reliable_Link
  imports Client_Channel Socket_Proxy
begin

text \<open>
  The client's send window and the middleware's socket together (\<open>client_channel.cpp\<close> and
  \<open>socket_proxy.cpp\<close>), connected by a stream of packets and a stream of acknowledgements.

  The lemmas show that the application's packets reach the modules exactly once and in order,
  that no packet is refused and that the window never stalls, as long as packets have at most
  the default size; and that a request for retransmission, if it came, would stop the socket.
\<close>

section \<open>The window\<close>

text \<open>
  \<open>q\<close> are the packets the application has queued; packet \<open>i\<close> of them has the sequence number
  \<open>i\<close>. Packets below \<open>b\<close> are dropped, those from \<open>b\<close> on are in the buffer, those below \<open>S\<close> are
  sent.
\<close>

definition numbered :: "outgoing_mcast_packet list \<Rightarrow> nat \<Rightarrow> u32 \<times> outgoing_mcast_packet" where
  "numbered q i = (of_nat i, (q ! i)\<lparr>omp_seq_nr := of_nat i\<rparr>)"

definition packet_msg :: "outgoing_mcast_packet list \<Rightarrow> nat \<Rightarrow> message" where
  "packet_msg q i = omp_message ((q ! i)\<lparr>omp_seq_nr := of_nat i\<rparr>)"

definition few :: "outgoing_mcast_packet list \<Rightarrow> bool" where
  "few q \<longleftrightarrow> length q + 512 \<le> 2 ^ 32"

definition window_ok :: "outgoing_mcast_packet list \<Rightarrow> nat \<Rightarrow> nat \<Rightarrow> socket_data \<Rightarrow> bool" where
  "window_ok q b S sd \<longleftrightarrow>
     b \<le> S \<and> S \<le> length q \<and> S \<le> b + max_pending_sends + 1
   \<and> (q \<noteq> [] \<longrightarrow> 0 < S) \<and> (0 < S \<longrightarrow> last_sent sd + 1 = of_nat S)
   \<and> (S < length q \<longrightarrow> b + max_pending_sends \<le> S)
   \<and> seq_nrs sd = of_nat (length q) \<and> pending_sends sd = int S - int b
   \<and> sd_buffer sd = map (numbered q) [b..<length q]"

lemma of_nat_less_u32: "i < 2 ^ 32 \<Longrightarrow> k < 2 ^ 32 \<Longrightarrow> (of_nat i :: u32) < of_nat k \<longleftrightarrow> i < k"
  by (simp add: word_less_nat_alt unat_of_nat take_bit_nat_eq_self)

lemma of_nat_le_u32: "i < 2 ^ 32 \<Longrightarrow> k < 2 ^ 32 \<Longrightarrow> (of_nat i :: u32) \<le> of_nat k \<longleftrightarrow> i \<le> k"
  by (simp add: word_le_nat_alt unat_of_nat take_bit_nat_eq_self)

lemma of_nat_eq_u32: "i < 2 ^ 32 \<Longrightarrow> k < 2 ^ 32 \<Longrightarrow> (of_nat i :: u32) = of_nat k \<longleftrightarrow> i = k"
  by (metis of_nat_le_u32 order_antisym order_refl)

lemma fst_numbered [simp]: "fst (numbered q i) = of_nat i"
  by (simp add: numbered_def)

lemma takeWhile_upt: "takeWhile (\<lambda>i. i \<le> k) [b..<n] = [b..<min n (max b (Suc k))]"
proof (cases "Suc k < n")
  case True
  have "[b..<n] = [b..<max b (Suc k)] @ [max b (Suc k)..<n]" if "b < n"
    using True that upt_add_eq_append [of b "max b (Suc k)" "n - max b (Suc k)"] by simp
  moreover have "takeWhile (\<lambda>i. i \<le> k) ([b..<max b (Suc k)] @ [max b (Suc k)..<n]) = [b..<max b (Suc k)]"
    by (subst takeWhile_append2) (auto simp: max_def upt_rec [of _ n] split: if_splits)
  ultimately show ?thesis using True by (cases "b < n") (auto simp: min_def max_def)
next
  case False
  then show ?thesis by (subst takeWhile_eq_all_conv [THEN iffD2]) (auto simp: min_def max_def)
qed

lemma dropWhile_upt: "dropWhile (\<lambda>i. i < k) [b..<n] = [max b k..<n]"
  by (induction n) (auto simp: dropWhile_append max_def)

lemma numbered_upto:
  assumes "n \<le> 2 ^ 32" "k < 2 ^ 32"
  shows "sm_upto (of_nat k) (map (numbered q) [b..<n]) = map (numbered q) [b..<min n (max b (Suc k))]"
    "sm_above (of_nat k) (map (numbered q) [b..<n]) = map (numbered q) [min n (max b (Suc k))..<n]"
    "sm_from (of_nat k) (map (numbered q) [b..<n]) = map (numbered q) [max b k..<n]"
proof -
  have "takeWhile (\<lambda>p. fst p \<le> of_nat k) (map (numbered q) [b..<n]) = map (numbered q) (takeWhile (\<lambda>i. i \<le> k) [b..<n])"
    unfolding takeWhile_map using assms by (intro arg_cong [of _ _ "map _"] takeWhile_cong) (auto simp: of_nat_le_u32)
  then show "sm_upto (of_nat k) (map (numbered q) [b..<n]) = map (numbered q) [b..<min n (max b (Suc k))]"
    by (simp add: sm_upto_def takeWhile_upt)
  have "dropWhile (\<lambda>p. fst p \<le> of_nat k) (map (numbered q) [b..<n]) = map (numbered q) (dropWhile (\<lambda>i. i < Suc k) [b..<n])"
    unfolding dropWhile_map using assms by (intro arg_cong [of _ _ "map _"] dropWhile_cong) (auto simp: of_nat_le_u32)
  then show "sm_above (of_nat k) (map (numbered q) [b..<n]) = map (numbered q) [min n (max b (Suc k))..<n]"
    by (simp add: sm_above_def dropWhile_upt min_def)
  have "dropWhile (\<lambda>p. fst p < of_nat k) (map (numbered q) [b..<n]) = map (numbered q) (dropWhile (\<lambda>i. i < k) [b..<n])"
    unfolding dropWhile_map using assms by (intro arg_cong [of _ _ "map _"] dropWhile_cong) (auto simp: of_nat_less_u32)
  then show "sm_from (of_nat k) (map (numbered q) [b..<n]) = map (numbered q) [max b k..<n]"
    by (simp add: sm_from_def dropWhile_upt)
qed

lemma numbered_lookup:
  assumes "n \<le> 2 ^ 32" "k < 2 ^ 32"
  shows "map_of (map (numbered q) [b..<n]) (of_nat k) = None \<longleftrightarrow> k < b \<or> n \<le> k"
proof -
  have "of_nat k \<in> fst ` set (map (numbered q) [b..<n]) \<longleftrightarrow> (\<exists>i \<in> {b..<n}. of_nat i = (of_nat k :: u32))"
    by (auto simp: image_iff intro: sym)
  also have "\<dots> \<longleftrightarrow> b \<le> k \<and> k < n" using assms by (auto simp: of_nat_eq_u32)
  finally show ?thesis by (auto simp: map_of_eq_None_iff)
qed

lemma numbered_append: "i < length q \<Longrightarrow> numbered (q @ [p]) i = numbered q i"
  by (simp add: numbered_def nth_append)

lemma packet_msg_append: "i < length q \<Longrightarrow> packet_msg (q @ [p]) i = packet_msg q i"
  by (simp add: packet_msg_def nth_append)

lemma map_numbered_append: "n \<le> length q \<Longrightarrow> map (numbered (q @ [p])) [b..<n] = map (numbered q) [b..<n]"
  by (simp add: numbered_append)

lemma insert_numbered:
  assumes "length q < 2 ^ 32" "b \<le> length q"
  shows "sm_insert (of_nat (length q)) (p\<lparr>omp_seq_nr := of_nat (length q)\<rparr>) (map (numbered q) [b..<length q])
    = map (numbered (q @ [p])) [b..<Suc (length q)]"
proof -
  have "\<forall>k' \<in> fst ` set (map (numbered q) [b..<length q]). k' < of_nat (length q)"
    using assms(1) by (auto simp: of_nat_less_u32)
  then have "sm_insert (of_nat (length q)) (p\<lparr>omp_seq_nr := of_nat (length q)\<rparr>) (map (numbered q) [b..<length q])
      = map (numbered q) [b..<length q] @ [(of_nat (length q), p\<lparr>omp_seq_nr := of_nat (length q)\<rparr>)]"
    by (rule sm_insert_last)
  also have "\<dots> = map (numbered (q @ [p])) [b..<Suc (length q)]"
    using assms(2) by (simp add: map_numbered_append) (simp add: numbered_def)
  finally show ?thesis .
qed

lemma window_enqueue:
  assumes w: "window_ok q b S sd" and few: "few (q @ [p])" and e: "enqueue_packet p sd = (out, sd')"
  obtains S' where "S \<le> S'" "window_ok (q @ [p]) b S' sd'" "out = map (packet_msg (q @ [p])) [S..<S']"
proof -
  let ?n = "length q" let ?now = "S = ?n \<and> pending_sends sd < int max_pending_sends"
  have n: "seq_nrs sd = of_nat ?n" "?n < 2 ^ 32" "S < 2 ^ 32" using w few by (auto simp: window_ok_def few_def)
  have now: "(of_nat ?n = (0 :: u32) \<or> of_nat ?n = last_sent sd + 1) \<longleftrightarrow> S = ?n"
    using w n of_nat_eq_u32 [of ?n 0] of_nat_eq_u32 [of ?n S] by (auto simp: window_ok_def)
  have ins: "sm_insert (of_nat ?n) (p\<lparr>omp_seq_nr := of_nat ?n\<rparr>) (sd_buffer sd) = map (numbered (q @ [p])) [b..<Suc ?n]"
    using w insert_numbered [OF n(2), of b p] by (simp add: window_ok_def)
  show ?thesis
  proof (cases ?now)
    case True
    then have "out = [packet_msg (q @ [p]) ?n]"
      "sd' = sd\<lparr>seq_nrs := of_nat ?n + 1, pending_sends := pending_sends sd + 1, last_sent := of_nat ?n,
               sd_buffer := map (numbered (q @ [p])) [b..<Suc ?n]\<rparr>"
      using e now ins n(1) by (auto simp: enqueue_packet_def next_id_def packet_msg_def Let_def)
    with w True show ?thesis by (intro that [of "Suc ?n"]) (auto simp: window_ok_def add.commute)
  next
    case False
    then have "out = []" "sd' = sd\<lparr>seq_nrs := of_nat ?n + 1, sd_buffer := map (numbered (q @ [p])) [b..<Suc ?n]\<rparr>"
      using e now ins n(1) by (auto simp: enqueue_packet_def next_id_def Let_def split: if_splits)
    with w False show ?thesis
      by (intro that [of S]) (auto simp: window_ok_def max_pending_sends_def add.commute)
  qed
qed

text \<open>Sending the packets from \<open>S\<close> on, up to and including \<open>to\<close>.\<close>

lemma window_do_send:
  assumes "sd_buffer sd = map (numbered q) [b..<length q]" "few q" "b \<le> S" "S \<le> to" "to < 2 ^ 32" "S \<le> length q"
  shows "do_send (of_nat S) (of_nat to) sd =
    (let S' = min (length q) (Suc to) in
     (Inr (map (packet_msg q) [S..<S']),
      sd\<lparr>pending_sends := pending_sends sd + int (S' - S), last_sent := last_sent sd + of_nat (S' - S)\<rparr>))"
proof (cases "S = length q")
  case True
  then have "map_of (sd_buffer sd) (of_nat S) = None"
    using assms numbered_lookup [of "length q" S q b] by (simp add: few_def)
  with True assms(4) show ?thesis by (simp add: do_send_def)
next
  case False
  with assms have "map_of (sd_buffer sd) (of_nat S) \<noteq> None"
    using numbered_lookup [of "length q" S q b] by (simp add: few_def)
  then obtain p where p: "map_of (sd_buffer sd) (of_nat S) = Some p" by blast
  have no: "\<not> list_ex (\<lambda>p. of_nat to < fst p \<and> fst p < of_nat S) (sd_buffer sd)"
  proof -
    have "\<not> (of_nat to < x \<and> x < of_nat S)" for x :: u32
      using assms(4-6) assms(2) of_nat_le_u32 [of S to] by (auto simp: few_def)
    then show ?thesis by (auto simp: list_ex_iff)
  qed
  have sent: "sm_upto (of_nat to) (sm_from (of_nat S) (sd_buffer sd)) = map (numbered q) [S..<min (length q) (Suc to)]"
    using assms by (simp add: numbered_upto few_def max_def)
  have "(case numbered q i of (_, p) \<Rightarrow> omp_message p) = packet_msg q i" for i
    by (simp add: numbered_def packet_msg_def)
  with p no sent show ?thesis by (simp add: do_send_def Let_def)
qed

lemma window_ack:
  assumes w: "window_ok q b S sd" and few: "few q" and S: "0 < S" and k: "k \<le> b + 65" "k \<le> S"
  obtains S' released close sd' where "S \<le> S'" "window_ok q (min S (max b (Suc k))) S' sd'"
    "ack_window (of_nat k) sd = (Inr (map (packet_msg q) [S..<S'], close), released, sd')"
proof -
  define n where "n = length q"
  define e where "e = min S (max b (Suc k))"
  have e: "min n (max b (Suc k)) = e" "b \<le> e" "e \<le> S" "S \<le> n" "S \<le> Suc (e + max_pending_sends)"
    using w k by (auto simp: window_ok_def max_pending_sends_def e_def n_def)
  have lt: "k < 2 ^ 32" "n \<le> 2 ^ 32" using w k few by (auto simp: few_def window_ok_def n_def)
  have wf: "sd_buffer sd = map (numbered q) [b..<n]" "seq_nrs sd = of_nat n" "pending_sends sd = int S - int b"
    "last_sent sd + 1 = of_nat S" using w S by (simp_all add: window_ok_def n_def)
  obtain released sd1 where d: "drop_smaller_or_equal_seq_nrs (of_nat k) sd = (released, sd1)" by fastforce
  have sd1: "sd1 = sd\<lparr>sd_buffer := map (numbered q) [e..<n], pending_sends := int S - int e\<rparr>"
    using d e(2) by (simp add: drop_smaller_or_equal_seq_nrs_def Let_def wf numbered_upto [OF lt(2,1)] e(1))
  have keep: "window_ok q e T (if P then sd'\<lparr>delayed_close_message := None\<rparr> else sd')" if "window_ok q e T sd'" for T sd' P
    using that by (simp add: window_ok_def)
  show ?thesis
  proof (cases "int S - int e < int max_pending_sends")
    case False
    let ?c = "sd_state sd1 = socket_about_to_close_state \<and> \<not> has_pending_sends sd1"
    have "window_ok q e S sd1"
      unfolding window_ok_def n_def [symmetric] using False e S wf by (simp add: sd1)
    then have "window_ok q e S (if ?c then sd1\<lparr>delayed_close_message := None\<rparr> else sd1)" by (rule keep)
    moreover have "ack_window (of_nat k) sd =
      (Inr (map (packet_msg q) [S..<S], if ?c then delayed_close_message sd1 else None), released,
        if ?c then sd1\<lparr>delayed_close_message := None\<rparr> else sd1)"
      using False by (simp add: ack_window_def d) (simp add: sd1)
    ultimately show ?thesis by (intro that [of S]) (simp_all add: e_def)
  next
    case True
    define to where "to = e + max_pending_sends"
    define T where "T = min n (Suc to)"
    have T: "S \<le> T" "T \<le> n" "T \<le> Suc to" "T < n \<Longrightarrow> T = Suc to" using e by (auto simp: T_def to_def)
    have fr: "last_sent sd1 + 1 = of_nat S" using wf by (simp add: sd1)
    have to: "last_sent sd1 + 1 + of_int (int max_pending_sends - pending_sends sd1) = of_nat to"
    proof -
      have "(of_nat S :: u32) + of_int (int max_pending_sends - (int S - int e)) = of_int (int S + (int max_pending_sends - (int S - int e)))"
        by (simp only: of_int_add of_int_of_nat_eq)
      also have "\<dots> = of_int (int to)" by (simp add: to_def)
      finally show ?thesis unfolding fr by (simp add: sd1)
    qed
    have "do_send (of_nat S) (of_nat to) sd1 = (let S' = min (length q) (Suc to) in (Inr (map (packet_msg q) [S..<S']),
        sd1\<lparr>pending_sends := pending_sends sd1 + int (S' - S), last_sent := last_sent sd1 + of_nat (S' - S)\<rparr>))"
    proof (rule window_do_send)
      show "sd_buffer sd1 = map (numbered q) [e..<length q]" by (simp add: sd1 n_def)
      show "S \<le> to" "to < 2 ^ 32" "S \<le> length q" using True e few by (auto simp: to_def few_def max_pending_sends_def n_def)
    qed (use few e in auto)
    then obtain sd2 where sd2: "do_send (of_nat S) (of_nat to) sd1 = (Inr (map (packet_msg q) [S..<T]), sd2)"
      "sd2 = sd1\<lparr>pending_sends := pending_sends sd1 + int (T - S), last_sent := last_sent sd1 + of_nat (T - S)\<rparr>"
      by (simp add: Let_def T_def n_def)
    let ?c = "sd_state sd2 = socket_about_to_close_state \<and> \<not> has_pending_sends sd2"
    have lt: "pending_sends sd1 < int max_pending_sends" using True by (simp add: sd1)
    have "ack_window (of_nat k) sd =
      (Inr (map (packet_msg q) [S..<T], if ?c then delayed_close_message sd2 else None), released,
        if ?c then sd2\<lparr>delayed_close_message := None\<rparr> else sd2)"
      unfolding ack_window_def d prod.case if_P [OF lt] Let_def to unfolding fr sd2(1) prod.case sum.case by simp
    moreover have "last_sent sd2 + 1 = of_nat T"
    proof -
      have "last_sent sd2 + 1 = (last_sent sd1 + 1) + of_nat (T - S)" by (simp add: sd2(2) algebra_simps)
      also have "\<dots> = of_nat (S + (T - S))" by (simp add: fr)
      finally show ?thesis using T by simp
    qed
    then have "window_ok q e T sd2"
      unfolding window_ok_def n_def [symmetric] using e S T wf by (auto simp: sd1 sd2(2) to_def of_nat_diff)
    then have "window_ok q e T (if ?c then sd2\<lparr>delayed_close_message := None\<rparr> else sd2)" by (rule keep)
    ultimately show ?thesis using T(1) by (intro that [of T]) (simp_all add: e_def)
  qed
qed

section \<open>The connection\<close>

text \<open>
  A socket of a client with its proxy in the middleware. \<open>lk_up\<close> and \<open>lk_down\<close> are the messages
  on their way to the middleware and back, \<open>lk_inflight\<close> the packets handed to the modules and
  not yet reported as done, in order. \<open>lk_queued\<close> are all packets of the application,
  \<open>lk_accepted\<close> all messages handed to the modules, and \<open>lk_failed\<close> tells whether an operation
  threw an exception; the code does not store these three.
\<close>

record 'm link =
  lk_sd :: socket_data
  lk_up :: "message list"
  lk_sp :: socket_proxy
  lk_ms :: "'m modules"
  lk_inflight :: "message list"
  lk_down :: "message list"
  lk_queued :: "outgoing_mcast_packet list"
  lk_accepted :: "message list"
  lk_failed :: bool

definition new_link :: "u32 \<Rightarrow> socket_proxy \<Rightarrow> 'm modules \<Rightarrow> 'm link" where
  "new_link indet sp ms =
     \<lparr>lk_sd = new_socket_data indet, lk_up = [], lk_sp = sp, lk_ms = ms, lk_inflight = [], lk_down = [],
      lk_queued = [], lk_accepted = [], lk_failed = False\<rparr>"

text \<open>What the client does to the window on a message from the middleware.\<close>

definition on_control :: "message \<Rightarrow> socket_data \<Rightarrow> message list res \<times> socket_data" where
  "on_control m sd =
     (if msg_type m = message_type_code cumulative_ack then
        (case ack_window (seq_nr m) sd of
           (Inl e, _, sd') \<Rightarrow> (Inl e, sd')
         | (Inr (out, _), _, sd') \<Rightarrow> (Inr out, sd'))
      else if msg_type m = message_type_code retransmit then retransmit_window (seq_nr m) sd
      else (Inr [], sd))"

definition outputs :: "message list res \<Rightarrow> message list" where
  "outputs r = (case r of Inl _ \<Rightarrow> [] | Inr out \<Rightarrow> out)"

text \<open>
  The application sends packets of at most the default size, on streams that were opened for
  a non-empty group before. The modules may do anything else at any time.
\<close>

inductive link_step :: "'m link \<Rightarrow> 'm link \<Rightarrow> bool" where
  lk_open: "\<not> uri_is_empty g \<Longrightarrow> add_stream g (lk_sp s) = (i, sp) \<Longrightarrow> link_step s (s\<lparr>lk_sp := sp\<rparr>)"
| lk_send: "map_of (m_streams (lk_sp s)) i \<noteq> None \<Longrightarrow> buf \<noteq> [] \<Longrightarrow> length buf \<le> default_max_msg_size \<Longrightarrow>
     p = new_packet sid i buf \<Longrightarrow> enqueue_packet p (lk_sd s) = (out, sd) \<Longrightarrow>
     link_step s (s\<lparr>lk_sd := sd, lk_up := lk_up s @ out, lk_queued := lk_queued s @ [p]\<rparr>)"
| lk_deliver: "lk_up s = m # up \<Longrightarrow> handle_async_send addr m sptr (lk_sp s, lk_ms s) = (r, sp, ms) \<Longrightarrow>
     new = (if next_expected_seq_nr sp = next_expected_seq_nr (lk_sp s) then [] else [m]) \<Longrightarrow>
     link_step s (s\<lparr>lk_up := up, lk_sp := sp, lk_ms := ms, lk_inflight := lk_inflight s @ new,
       lk_accepted := lk_accepted s @ new, lk_down := lk_down s @ outputs r, lk_failed := lk_failed s \<or> isl r\<rparr>)"
| lk_done: "lk_inflight s = m # fl \<Longrightarrow> async_job_done m (lk_sp s) = (out, sp) \<Longrightarrow>
     link_step s (s\<lparr>lk_sp := sp, lk_inflight := fl, lk_down := lk_down s @ out\<rparr>)"
| lk_force: "force_acks (lk_sp s) = ((f, out), sp) \<Longrightarrow>
     link_step s (s\<lparr>lk_sp := sp, lk_down := lk_down s @ out\<rparr>)"
| lk_control: "lk_down s = m # down \<Longrightarrow> on_control m (lk_sd s) = (r, sd) \<Longrightarrow>
     link_step s (s\<lparr>lk_sd := sd, lk_down := down, lk_up := lk_up s @ outputs r, lk_failed := lk_failed s \<or> isl r\<rparr>)"
| lk_modules: "link_step s (s\<lparr>lk_ms := ms\<rparr>)"

section \<open>The middleware's end\<close>

definition good_packet :: "socket_proxy \<Rightarrow> outgoing_mcast_packet \<Rightarrow> bool" where
  "good_packet sp p \<longleftrightarrow> map_of (m_streams sp) (omp_stm_id p) \<noteq> None
     \<and> unat (omp_content_size p) \<le> default_max_msg_size"

definition groups_ok :: "socket_proxy \<Rightarrow> bool" where
  "groups_ok sp \<longleftrightarrow> sm_ok (m_streams sp) \<and> (\<forall>i g. map_of (m_streams sp) i = Some g \<longrightarrow> \<not> uri_is_empty g)"

text \<open>
  \<open>a\<close> packets are accepted, \<open>d\<close> of them done. \<open>l\<close> is the last number acknowledged (0 at first)
  and \<open>c\<close> counts the packets done since then.
\<close>

definition middle_ok :: "outgoing_mcast_packet list \<Rightarrow> nat \<Rightarrow> nat \<Rightarrow> nat \<Rightarrow> nat \<Rightarrow> socket_proxy \<Rightarrow> message list \<Rightarrow> bool" where
  "middle_ok q a d l c sp fl \<longleftrightarrow>
     d \<le> a \<and> a \<le> length q \<and> fl = map (packet_msg q) [d..<a] \<and> next_expected_seq_nr sp = of_nat a
   \<and> m_send_buf sp = max_buf - sum_list (map asv_bytes fl)
   \<and> last_acknowledged sp = of_nat l \<and> ack_counter sp = int c
   \<and> c < max_ack_block_size \<and> l + c \<le> d \<and> d \<le> Suc (l + c)
   \<and> (\<forall>p \<in> set q. good_packet sp p) \<and> groups_ok sp"

definition is_ack :: "message \<Rightarrow> nat \<Rightarrow> bool" where
  "is_ack m k \<longleftrightarrow> msg_type m = message_type_code cumulative_ack \<and> seq_nr m = of_nat k"

lemma packet_msg_simps [simp]:
  "seq_nr (packet_msg q i) = of_nat i" "stm_id (packet_msg q i) = omp_stm_id (q ! i)"
  "msg_content_size (packet_msg q i) = omp_content_size (q ! i)"
  by (simp_all add: packet_msg_def omp_message_def)

lemma packet_bytes:
  assumes "good_packet sp (q ! i)"
  shows "asv_bytes (packet_msg q i) \<le> int default_max_msg_size" "0 \<le> asv_bytes (packet_msg q i)"
proof -
  let ?w = "omp_content_size (q ! i)"
  have le: "unat ?w \<le> default_max_msg_size" using assms by (simp add: good_packet_def)
  then have "int (unat ?w) < int (2 ^ 31)" unfolding of_nat_less_iff by (simp add: default_max_msg_size_def)
  then have "uint ?w < 2 ^ 31" by simp
  then have "- (2 ^ 31) \<le> uint ?w \<and> uint ?w < 2 ^ 31" using uint_ge_0 [of ?w] by linarith
  then have "signed_take_bit 31 (uint ?w) = uint ?w" by (intro signed_take_bit_int_eq_self) auto
  then have "sint ?w = uint ?w" by (simp add: sint_uint)
  moreover have "int (unat ?w) \<le> int default_max_msg_size" using le by (simp only: of_nat_le_iff)
  ultimately show "asv_bytes (packet_msg q i) \<le> int default_max_msg_size" "0 \<le> asv_bytes (packet_msg q i)"
    by simp_all
qed

lemma sum_list_bounds:
  fixes f :: "'a \<Rightarrow> int"
  assumes "\<forall>x \<in> set xs. f x \<le> B"
  shows "sum_list (map f xs) \<le> int (length xs) * B"
  using assms by (induction xs) (auto simp: algebra_simps)

lemma flight_bytes:
  assumes "\<forall>p \<in> set q. good_packet sp p" "a \<le> length q"
  shows "sum_list (map asv_bytes (map (packet_msg q) [d..<a])) \<le> int (a - d) * int default_max_msg_size"
proof -
  have "\<forall>m \<in> set (map (packet_msg q) [d..<a]). asv_bytes m \<le> int default_max_msg_size"
  proof
    fix m assume "m \<in> set (map (packet_msg q) [d..<a])"
    then obtain i where i: "m = packet_msg q i" "i < a" by auto
    then have "good_packet sp (q ! i)" using assms by simp
    then show "asv_bytes m \<le> int default_max_msg_size" unfolding i by (rule packet_bytes)
  qed
  from sum_list_bounds [OF this] show ?thesis by simp
qed

lemma middle_deliver:
  assumes m: "middle_ok q a d l c sp fl" and a: "a < length q" "a \<le> d + 300"
  obtains sp' ms' where "handle_async_send addr (packet_msg q a) sptr (sp, ms) = (Inr [], sp', ms')"
    "next_expected_seq_nr sp' \<noteq> next_expected_seq_nr sp" "middle_ok q (Suc a) d l c sp' (fl @ [packet_msg q a])"
proof -
  let ?m = "packet_msg q a"
  have g: "good_packet sp (q ! a)" using m a by (simp add: middle_ok_def)
  then obtain grp where grp: "map_of (m_streams sp) (stm_id ?m) = Some grp" by (auto simp: good_packet_def)
  then have ne: "\<not> uri_is_empty grp" using m by (auto simp: middle_ok_def groups_ok_def)
  have "sum_list (map asv_bytes fl) \<le> int (a - d) * int default_max_msg_size"
    using flight_bytes [of q sp a d] m by (simp add: middle_ok_def)
  also have "\<dots> \<le> 300 * int default_max_msg_size" using a(2) by (intro mult_right_mono) auto
  finally have room: "asv_bytes ?m \<le> m_send_buf sp"
    using m packet_bytes(1) [OF g] by (simp add: middle_ok_def default_max_msg_size_def default_max_buffer_size_def)
  let ?sp = "sp\<lparr>m_send_buf := m_send_buf sp - asv_bytes ?m, next_expected_seq_nr := next_expected_seq_nr sp + 1\<rparr>"
  have "\<exists>ms'. handle_async_send addr ?m sptr (sp, ms) = (Inr [], ?sp, ms')"
    using grp ne room m
    by (auto simp: handle_async_send_def try_acquire_def new_send_job_def rbind_def hc_require_def middle_ok_def Let_def)
  then obtain ms' where h: "handle_async_send addr ?m sptr (sp, ms) = (Inr [], ?sp, ms')" by blast
  moreover have "middle_ok q (Suc a) d l c ?sp (fl @ [?m])"
    using m a(1) by (auto simp: middle_ok_def good_packet_def groups_ok_def add.commute)
  ultimately show ?thesis by (intro that [of ?sp ms']) auto
qed

lemma middle_done:
  assumes m: "middle_ok q a d l c sp (x # fl)" and a: "a \<le> d + 300" and e: "async_job_done x sp = (out, sp')"
  obtains "Suc c < max_ack_block_size" "out = []" "middle_ok q a (Suc d) l (Suc c) sp' fl"
  | k where "k = d" "Suc c = max_ack_block_size" "list_all2 is_ack out [k]" "middle_ok q a (Suc d) k 0 sp' fl"
proof -
  have da: "d < a" using m by (cases "d < a") (auto simp: middle_ok_def)
  then have x: "x = packet_msg q d" and fl: "fl = map (packet_msg q) [Suc d..<a]"
    using m by (auto simp: middle_ok_def upt_conv_Cons)
  have g: "good_packet sp (q ! d)" using m da by (simp add: middle_ok_def)
  then obtain grp where grp: "map_of (m_streams sp) (stm_id x) = Some grp" by (auto simp: good_packet_def x)
  have "sum_list (map asv_bytes (x # fl)) \<le> int (a - d) * int default_max_msg_size"
    using flight_bytes [of q sp a d] m by (simp add: middle_ok_def)
  also have "\<dots> \<le> 300 * int default_max_msg_size" using a by (intro mult_right_mono) auto
  finally have half: "\<not> (max_buf - m_send_buf sp) * 2 \<ge> max_buf"
    using m by (simp add: middle_ok_def default_max_msg_size_def default_max_buffer_size_def)
  have ac: "ack_counter sp = int c" "c < 64" using m by (simp_all add: middle_ok_def max_ack_block_size_def)
  show ?thesis
  proof (cases "Suc c = 64")
    case False
    then have "(int c + 1) mod 64 = int c + 1" using ac by simp
    then have "out = []" "sp' = sp\<lparr>m_send_buf := m_send_buf sp + asv_bytes x, ack_counter := int (Suc c)\<rparr>"
      using e grp half ac by (auto simp: async_job_done_def max_ack_block_size_def nb_release_def Let_def)
    with m fl da False ac(2) show ?thesis
      by (intro that(1)) (auto simp: middle_ok_def max_ack_block_size_def good_packet_def groups_ok_def)
  next
    case True
    then have "(int c + 1) mod 64 = 0" by simp
    then have "out = [control_msg cumulative_ack (stm_id x) (sck_id sp) (seq_nr x)]"
      "sp' = sp\<lparr>m_send_buf := m_send_buf sp + asv_bytes x, ack_counter := 0, last_acknowledged := of_nat d\<rparr>"
      using e grp ac by (auto simp: async_job_done_def max_ack_block_size_def nb_release_def Let_def x)
    with m fl da True ac(2) show ?thesis
      by (intro that(2) [of d])
        (auto simp: middle_ok_def max_ack_block_size_def good_packet_def groups_ok_def is_ack_def control_msg_def x)
  qed
qed

lemma middle_force:
  assumes m: "middle_ok q a d l c sp fl" and e: "force_acks sp = ((f, out), sp')"
  obtains "c = 0" "out = []" "sp' = sp"
  | "0 < c" "list_all2 is_ack out [l + c]" "middle_ok q a d (l + c) 0 sp' fl"
proof (cases "c = 0")
  case True
  have "force_acks_loop ss sp = ((False, []), sp)" for ss
    using True m by (induction ss) (auto simp: middle_ok_def)
  with e True show ?thesis by (intro that(1)) (auto simp: force_acks_def)
next
  case False
  then have "q \<noteq> []" using m by (auto simp: middle_ok_def)
  then have "good_packet sp (hd q)" using m by (simp add: middle_ok_def)
  then have "m_streams sp \<noteq> []" by (auto simp: good_packet_def)
  then obtain i g ss where ss: "m_streams sp = (i, g) # ss" by (metis neq_Nil_conv surj_pair)
  let ?sp = "sp\<lparr>last_acknowledged := of_nat (l + c), ack_counter := 0\<rparr>"
  have quiet: "force_acks_loop ts ?sp = ((False, []), ?sp)" for ts by (induction ts) auto
  have "last_acknowledged sp + of_int (ack_counter sp) = of_nat (l + c)" "0 < ack_counter sp"
    using m False by (simp_all add: middle_ok_def)
  with quiet e have "out = [control_msg cumulative_ack i (sck_id sp) (of_nat (l + c))]" "sp' = ?sp"
    by (auto simp: force_acks_def ss Let_def)
  with m False show ?thesis
    by (intro that(2)) (auto simp: middle_ok_def good_packet_def groups_ok_def is_ack_def control_msg_def max_ack_block_size_def)
qed

section \<open>Both ends\<close>

text \<open>
  The numbers of the acknowledgements on their way: each is at most 65 above the one before,
  and the first above what the window has dropped.
\<close>

fun near :: "nat \<Rightarrow> nat list \<Rightarrow> bool" where
  "near x [] \<longleftrightarrow> True"
| "near x (k # ks) \<longleftrightarrow> k \<le> x + 65 \<and> near k ks"

definition acks_ok :: "nat \<Rightarrow> nat \<Rightarrow> nat \<Rightarrow> nat \<Rightarrow> nat list \<Rightarrow> bool" where
  "acks_ok b d l c ks \<longleftrightarrow>
     near b ks \<and> l \<le> last (b # ks) \<and> (\<forall>k \<in> set ks. k \<le> d) \<and> (ks \<noteq> [] \<longrightarrow> 0 < d) \<and> b \<le> Suc d
   \<and> d \<le> c + (if ks = [] then b else Suc (last ks))"

definition link_at :: "'m link \<Rightarrow> nat \<Rightarrow> nat \<Rightarrow> nat \<Rightarrow> nat \<Rightarrow> nat \<Rightarrow> nat \<Rightarrow> nat list \<Rightarrow> bool" where
  "link_at s b S a d l c ks \<longleftrightarrow>
     window_ok (lk_queued s) b S (lk_sd s)
   \<and> middle_ok (lk_queued s) a d l c (lk_sp s) (lk_inflight s)
   \<and> acks_ok b d l c ks \<and> list_all2 is_ack (lk_down s) ks
   \<and> a \<le> S \<and> lk_up s = map (packet_msg (lk_queued s)) [a..<S]
   \<and> lk_accepted s = map (packet_msg (lk_queued s)) [0..<a] \<and> \<not> lk_failed s"

definition link_ok :: "'m link \<Rightarrow> bool" where
  "link_ok s \<longleftrightarrow> (\<exists>b S a d l c ks. link_at s b S a d l c ks)"

lemma link_okI: "link_at s b S a d l c ks \<Longrightarrow> link_ok s"
  unfolding link_ok_def by blast

lemma near_mono: "near x ks \<Longrightarrow> x \<le> y \<Longrightarrow> near y ks"
  by (cases ks) auto

lemma near_snoc: "near x (ks @ [k]) \<longleftrightarrow> near x ks \<and> k \<le> last (x # ks) + 65"
  by (induction ks arbitrary: x) auto

lemma acks_ok_done: "acks_ok b d l c ks \<Longrightarrow> acks_ok b (Suc d) l (Suc c) ks"
  by (auto simp: acks_ok_def le_SucI)

lemma acks_ok_send:
  assumes "acks_ok b d l c ks" "k \<le> l + 65" "l \<le> k" "k \<le> d'" "d \<le> d'" "0 < d'" "d' \<le> Suc k"
  shows "acks_ok b d' k 0 (ks @ [k])"
proof -
  have "last (b # ks) \<ge> l" using assms(1) by (simp add: acks_ok_def)
  then show ?thesis using assms by (auto simp: acks_ok_def near_snoc le_trans [of _ d d'])
qed

lemma acks_ok_receive:
  assumes "acks_ok b d l c (k # ks)" "d \<le> S" "b \<le> S"
  shows "acks_ok (min S (max b (Suc k))) d l c ks" "k \<le> b + 65" "k \<le> d" "0 < d"
proof -
  have k: "k \<le> b + 65" "k \<le> d" "0 < d" "near k ks" using assms(1) by (auto simp: acks_ok_def)
  then show "k \<le> b + 65" "k \<le> d" "0 < d" by auto
  have b: "k \<le> min S (max b (Suc k))" "min S (max b (Suc k)) \<le> Suc d"
    using k assms by (auto simp: acks_ok_def)
  from near_mono [OF k(4) b(1)] k b assms show "acks_ok (min S (max b (Suc k))) d l c ks"
    by (cases "ks = []") (auto simp: acks_ok_def)
qed

lemma middle_window_bound:
  assumes "acks_ok b d l c ks" "window_ok q b S sd" "a \<le> S"
  shows "a \<le> d + 300"
  using assms by (auto simp: acks_ok_def window_ok_def max_pending_sends_def)

lemma map_packet_msg_append: "n \<le> length q \<Longrightarrow> map (packet_msg (q @ [p])) [b..<n] = map (packet_msg q) [b..<n]"
  by (simp add: packet_msg_append)

lemma middle_queue:
  assumes "middle_ok q a d l c sp fl" "good_packet sp p"
  shows "middle_ok (q @ [p]) a d l c sp fl"
proof -
  have "map (packet_msg (q @ [p])) [d..<a] = map (packet_msg q) [d..<a]"
    using assms(1) by (intro map_packet_msg_append) (simp add: middle_ok_def)
  then show ?thesis using assms by (simp add: middle_ok_def)
qed

lemma middle_open:
  assumes "middle_ok q a d l c sp fl" "add_stream g sp = (i, sp')" "\<not> uri_is_empty g"
  shows "middle_ok q a d l c sp' fl"
proof -
  have "sp' = sp\<lparr>m_streams := sm_insert (m_stream_ids sp) g (m_streams sp), m_stream_ids := m_stream_ids sp + 1\<rparr>"
    using assms(2) by (auto simp: add_stream_def next_id_def)
  moreover from this have "good_packet sp p \<Longrightarrow> good_packet sp' p" for p
    using assms(1) by (auto simp: good_packet_def middle_ok_def groups_ok_def)
  moreover have "groups_ok sp'" using assms calculation(1)
    by (auto simp: groups_ok_def middle_ok_def split: if_splits option.splits)
  ultimately show ?thesis using assms(1) by (simp add: middle_ok_def)
qed

lemma list_all2_snocI: "list_all2 P xs ys \<Longrightarrow> list_all2 P zs [y] \<Longrightarrow> list_all2 P (xs @ zs) (ys @ [y])"
  by (simp add: list_all2_appendI)

lemma upt_map_append: "a \<le> S \<Longrightarrow> S \<le> T \<Longrightarrow> map f [a..<S] @ map f [S..<T] = map f [a..<T]"
  by (metis le_add_diff_inverse map_append upt_add_eq_append)

lemma link_at_bounds:
  assumes "link_at s b S a d l c ks"
  shows "S \<le> length (lk_queued s)" "b \<le> S" "d \<le> a" "a \<le> S" "d \<le> S" "l + c \<le> d" "d \<le> Suc (l + c)"
    "c < max_ack_block_size" "a \<le> d + 300"
proof -
  show "a \<le> d + 300" using assms middle_window_bound unfolding link_at_def by blast
qed (use assms in \<open>auto simp: link_at_def window_ok_def middle_ok_def\<close>)

lemma link_at_send:
  assumes "link_at s b S a d l c ks" "good_packet (lk_sp s) p" "few (lk_queued s @ [p])"
    "enqueue_packet p (lk_sd s) = (out, sd)"
  shows "link_ok (s\<lparr>lk_sd := sd, lk_up := lk_up s @ out, lk_queued := lk_queued s @ [p]\<rparr>)" (is "link_ok ?s'")
proof -
  let ?q = "lk_queued s"
  have w: "window_ok ?q b S (lk_sd s)" and m: "middle_ok ?q a d l c (lk_sp s) (lk_inflight s)"
    and u: "lk_up s = map (packet_msg ?q) [a..<S]" "lk_accepted s = map (packet_msg ?q) [0..<a]"
    using assms(1) by (simp_all add: link_at_def)
  note S = link_at_bounds [OF assms(1)]
  from window_enqueue [OF w assms(3,4)] obtain S' where S': "S \<le> S'" "window_ok (?q @ [p]) b S' sd"
    "out = map (packet_msg (?q @ [p])) [S..<S']" .
  have "lk_up s @ out = map (packet_msg (?q @ [p])) [a..<S']"
    using u S S' by (simp add: map_packet_msg_append flip: upt_map_append [of a S S'])
  moreover have "lk_accepted s = map (packet_msg (?q @ [p])) [0..<a]"
    using u S by (simp add: map_packet_msg_append)
  ultimately have "link_at ?s' b S' a d l c ks"
    using assms(1) S' S middle_queue [OF m assms(2)] by (simp add: link_at_def)
  then show ?thesis by (rule link_okI)
qed

lemma link_at_deliver:
  assumes "link_at s b S a d l c ks" "lk_up s = x # up"
    "handle_async_send addr x sptr (lk_sp s, lk_ms s) = (r, sp, ms)"
  shows "next_expected_seq_nr sp \<noteq> next_expected_seq_nr (lk_sp s)"
    "link_ok (s\<lparr>lk_up := up, lk_sp := sp, lk_ms := ms, lk_inflight := lk_inflight s @ [x],
       lk_accepted := lk_accepted s @ [x], lk_down := lk_down s @ outputs r, lk_failed := lk_failed s \<or> isl r\<rparr>)" (is "link_ok ?s'")
proof -
  let ?q = "lk_queued s"
  note S = link_at_bounds [OF assms(1)]
  have m: "middle_ok ?q a d l c (lk_sp s) (lk_inflight s)" and u: "lk_up s = map (packet_msg ?q) [a..<S]"
    using assms(1) by (simp_all add: link_at_def)
  have aS: "a < S" using u assms(2) by (cases "a < S") auto
  then have x: "x = packet_msg ?q a" and up: "up = map (packet_msg ?q) [Suc a..<S]"
    using u assms(2) by (auto simp: upt_conv_Cons)
  from middle_deliver [OF m less_le_trans [OF aS S(1)] S(9)] obtain sp' ms' where h:
    "handle_async_send addr x sptr (lk_sp s, lk_ms s) = (Inr [], sp', ms')"
    "next_expected_seq_nr sp' \<noteq> next_expected_seq_nr (lk_sp s)" "middle_ok ?q (Suc a) d l c sp' (lk_inflight s @ [x])"
    unfolding x .
  then have r: "r = Inr []" "sp = sp'" using assms(3) by auto
  then show "next_expected_seq_nr sp \<noteq> next_expected_seq_nr (lk_sp s)" using h by simp
  have "link_at ?s' b S (Suc a) d l c ks" using assms(1) h(3) aS up x r by (simp add: link_at_def outputs_def)
  then show "link_ok ?s'" by (rule link_okI)
qed

lemma link_at_done:
  assumes "link_at s b S a d l c ks" "lk_inflight s = x # fl" "async_job_done x (lk_sp s) = (out, sp)"
  shows "link_ok (s\<lparr>lk_sp := sp, lk_inflight := fl, lk_down := lk_down s @ out\<rparr>)" (is "link_ok ?s'")
proof -
  note S = link_at_bounds [OF assms(1)]
  have m: "middle_ok (lk_queued s) a d l c (lk_sp s) (x # fl)" and k: "acks_ok b d l c ks" "list_all2 is_ack (lk_down s) ks"
    using assms(1,2) by (simp_all add: link_at_def)
  from middle_done [OF m S(9) assms(3)] show ?thesis
  proof cases
    case 1
    then have "link_at ?s' b S a (Suc d) l (Suc c) ks" using assms(1) acks_ok_done [OF k(1)] by (simp add: link_at_def)
    then show ?thesis by (rule link_okI)
  next
    case (2 n)
    have "acks_ok b (Suc d) n 0 (ks @ [n])"
      using acks_ok_send [OF k(1), of n "Suc d"] 2(1,2) S by (simp add: max_ack_block_size_def)
    then have "link_at ?s' b S a (Suc d) n 0 (ks @ [n])"
      using assms(1) 2 list_all2_snocI [OF k(2) 2(3)] by (simp add: link_at_def)
    then show ?thesis by (rule link_okI)
  qed
qed

lemma link_at_force:
  assumes "link_at s b S a d l c ks" "force_acks (lk_sp s) = ((f, out), sp)"
  shows "link_ok (s\<lparr>lk_sp := sp, lk_down := lk_down s @ out\<rparr>)" (is "link_ok ?s'")
proof -
  note S = link_at_bounds [OF assms(1)]
  have m: "middle_ok (lk_queued s) a d l c (lk_sp s) (lk_inflight s)" and k: "acks_ok b d l c ks" "list_all2 is_ack (lk_down s) ks"
    using assms(1) by (simp_all add: link_at_def)
  from middle_force [OF m assms(2)] show ?thesis
  proof cases
    case 1
    then have "?s' = s" by simp
    then show ?thesis using link_okI [OF assms(1)] by simp
  next
    case 2
    have "acks_ok b d (l + c) 0 (ks @ [l + c])"
      using acks_ok_send [OF k(1), of "l + c" d] 2(1) S by (simp add: max_ack_block_size_def)
    then have "link_at ?s' b S a d (l + c) 0 (ks @ [l + c])"
      using assms(1) 2 list_all2_snocI [OF k(2) 2(2)] by (simp add: link_at_def)
    then show ?thesis by (rule link_okI)
  qed
qed

lemma link_at_control:
  assumes "link_at s b S a d l c ks" "few (lk_queued s)" "lk_down s = x # down" "on_control x (lk_sd s) = (r, sd)"
  shows "link_ok (s\<lparr>lk_sd := sd, lk_down := down, lk_up := lk_up s @ outputs r, lk_failed := lk_failed s \<or> isl r\<rparr>)" (is "link_ok ?s'")
proof -
  let ?q = "lk_queued s"
  note S = link_at_bounds [OF assms(1)]
  have w: "window_ok ?q b S (lk_sd s)" and k: "acks_ok b d l c ks" "list_all2 is_ack (x # down) ks"
    using assms(1,3) by (simp_all add: link_at_def)
  from k(2) obtain n ns where ks: "ks = n # ns" "is_ack x n" "list_all2 is_ack down ns"
    by (auto simp: list_all2_Cons1)
  note n = acks_ok_receive [OF k(1) [unfolded ks(1)] S(5,2)]
  then have "0 < S" "n \<le> S" using S by auto
  from window_ack [OF w assms(2) this(1) n(2) this(2)] obtain S' released close sd' where S': "S \<le> S'"
    "window_ok ?q (min S (max b (Suc n))) S' sd'"
    "ack_window (of_nat n) (lk_sd s) = (Inr (map (packet_msg ?q) [S..<S'], close), released, sd')" .
  then have "r = Inr (map (packet_msg ?q) [S..<S'])" "sd = sd'"
    using assms(4) ks(2) by (auto simp: on_control_def is_ack_def)
  then have "link_at ?s' (min S (max b (Suc n))) S' a d l c ns"
    using assms(1) S' n(1) ks(3) S by (simp add: link_at_def outputs_def upt_map_append)
  then show ?thesis by (rule link_okI)
qed

lemma link_ok_step:
  assumes "link_step s s'" "link_ok s" "few (lk_queued s')"
  shows "link_ok s'"
proof -
  from assms(2) obtain b S a d l c ks where l: "link_at s b S a d l c ks" unfolding link_ok_def by blast
  from assms(1) show ?thesis
  proof cases
    case (lk_open g i sp)
    have m: "middle_ok (lk_queued s) a d l c (lk_sp s) (lk_inflight s)" using l by (simp add: link_at_def)
    have "link_at s' b S a d l c ks" using l middle_open [OF m lk_open(3,2)] by (simp add: link_at_def lk_open(1))
    then show ?thesis by (rule link_okI)
  next
    case (lk_send i buf p sid out sd)
    have "good_packet (lk_sp s) p" using lk_send
      by (auto simp: good_packet_def new_packet_def unat_of_nat default_max_msg_size_def take_bit_nat_eq_self)
    then show ?thesis using link_at_send [OF l _ _ lk_send(6)] assms(3) lk_send(1) by simp
  next
    case (lk_deliver x up addr sptr r sp ms new)
    with link_at_deliver [OF l lk_deliver(2,3)] show ?thesis by simp
  next
    case (lk_done x fl out sp)
    then show ?thesis using link_at_done [OF l] by simp
  next
    case (lk_force ff out sp)
    then show ?thesis using link_at_force [OF l] by simp
  next
    case (lk_control x down r sd)
    then show ?thesis using link_at_control [OF l _ lk_control(2,3)] assms(3) by simp
  next
    case (lk_modules ms)
    then show ?thesis using assms(2) by (simp add: link_ok_def link_at_def)
  qed
qed

lemma link_ok_new:
  assumes "new_socket_proxy sid parent ms = Inr sp"
  shows "link_ok (new_link indet sp ms)"
proof -
  have sp: "next_expected_seq_nr sp = 0" "m_send_buf sp = max_buf" "last_acknowledged sp = 0" "ack_counter sp = 0" "m_streams sp = []"
    using assms by (auto simp: new_socket_proxy_def Let_def rbind_def hc_require_def split: if_splits)
  have "link_at (new_link indet sp ms) 0 0 0 0 0 0 []"
    using sp by (simp add: link_at_def new_link_def window_ok_def middle_ok_def acks_ok_def new_socket_data_def
        groups_ok_def max_ack_block_size_def)
  then show ?thesis by (rule link_okI)
qed

lemma link_step_few: "link_step s s' \<Longrightarrow> few (lk_queued s') \<Longrightarrow> few (lk_queued s)"
  by (induction rule: link_step.induct) (simp_all add: few_def)

lemma link_ok_reachable:
  assumes "link_step\<^sup>*\<^sup>* (new_link indet sp ms) s" "new_socket_proxy sid parent ms = Inr sp" "few (lk_queued s)"
  shows "link_ok s"
  using assms(1,3)
proof (induction rule: rtranclp_induct)
  case base
  show ?case by (rule link_ok_new) (rule assms(2))
next
  case (step s s')
  then show ?case using link_ok_step link_step_few by blast
qed

text \<open>At rest nothing is on its way and no acknowledgement is due.\<close>

definition at_rest :: "'m link \<Rightarrow> bool" where
  "at_rest s \<longleftrightarrow> lk_up s = [] \<and> lk_inflight s = [] \<and> lk_down s = [] \<and> ack_counter (lk_sp s) = 0"

definition sent_messages :: "outgoing_mcast_packet list \<Rightarrow> message list" where
  "sent_messages q = map (packet_msg q) [0..<length q]"

lemma link_at_rest:
  assumes "link_at s b S a d l c ks" "at_rest s"
  shows "a = length (lk_queued s)" "b = length (lk_queued s)"
proof -
  note S = link_at_bounds [OF assms(1)]
  have w: "window_ok (lk_queued s) b S (lk_sd s)" using assms(1) by (simp add: link_at_def)
  have "a = S" "d = a" "ks = []" "c = 0" using assms S by (auto simp: link_at_def at_rest_def middle_ok_def)
  moreover from this have "S \<le> b" using assms(1) by (simp add: link_at_def acks_ok_def)
  ultimately have "b = S" "\<not> S < length (lk_queued s)" using w S by (auto simp: window_ok_def max_pending_sends_def)
  then show "a = length (lk_queued s)" "b = length (lk_queued s)" using S \<open>a = S\<close> by auto
qed

text \<open>An acknowledgement when the next number to send is past the buffer.\<close>

lemma ack_past_buffer:
  assumes buf: "sd_buffer sd = map (numbered q) [b..<length q]" and few: "few q"
    and ls: "last_sent sd + 1 = of_nat f" "length q \<le> f" "f < 2 ^ 32" and k: "k < 2 ^ 32"
  obtains released close sd' where "ack_window (of_nat k) sd = (Inr ([], close), released, sd')"
    "sd_buffer sd' = map (numbered q) [min (length q) (max b (Suc k))..<length q]"
proof -
  let ?b = "map (numbered q) [min (length q) (max b (Suc k))..<length q]"
  obtain released sd1 where d: "drop_smaller_or_equal_seq_nrs (of_nat k) sd = (released, sd1)" by fastforce
  have n: "length q \<le> 2 ^ 32" using few by (simp add: few_def)
  from d have sd1: "sd_buffer sd1 = ?b" "last_sent sd1 = last_sent sd"
    by (auto simp: drop_smaller_or_equal_seq_nrs_def Let_def buf numbered_upto [OF n k])
  have "map_of ?b (of_nat f) = None" using ls numbered_lookup [OF n ls(3)] by simp
  then have "do_send (last_sent sd1 + 1) to sd1 = (Inr [], sd1)" for to
    by (simp add: do_send_def sd1 ls(1))
  then have "ack_window (of_nat k) sd =
    (if sd_state sd1 = socket_about_to_close_state \<and> \<not> has_pending_sends sd1
     then (Inr ([], delayed_close_message sd1), released, sd1\<lparr>delayed_close_message := None\<rparr>)
     else (Inr ([], None), released, sd1))"
    by (simp add: ack_window_def d Let_def)
  with sd1(1) show ?thesis
    by (cases "sd_state sd1 = socket_about_to_close_state \<and> \<not> has_pending_sends sd1")
      (auto intro: that [of "delayed_close_message sd1" released "sd1\<lparr>delayed_close_message := None\<rparr>"] that [of None released sd1])
qed

section \<open>Properties\<close>


text \<open>C34: A request for retransmission stops a socket for good. The client sends the packets
  from the requested one on again, but counts them as new: with every packet sent before, the
  next packet of the application is not sent, and it is still not sent when the middleware has
  acknowledged all the others, although nothing is on its way any more.\<close>

theorem retransmit_stalls:
  assumes w: "window_ok q b (length q) sd" and k: "b \<le> k" "k < length q" and few: "2 * length q + 512 \<le> 2 ^ 32"
  shows "fst (retransmit_window (of_nat k) sd) = Inr (map (packet_msg q) [k..<length q])
    \<and> fst (enqueue_packet p (snd (retransmit_window (of_nat k) sd))) = []
    \<and> (\<exists>released close sd'. ack_window (of_nat (length q - 1)) (snd (enqueue_packet p (snd (retransmit_window (of_nat k) sd))))
          = (Inr ([], close), released, sd') \<and> sd_buffer sd' = [numbered (q @ [p]) (length q)])"
proof -
  let ?n = "length q"
  have fq: "few q" "few (q @ [p])" using few k by (auto simp: few_def)
  have b: "sd_buffer sd = map (numbered q) [b..<?n]" "seq_nrs sd = of_nat ?n" "pending_sends sd = int ?n - int b"
    and ls: "last_sent sd = of_nat (?n - 1)"
    using w k by (auto simp: window_ok_def of_nat_diff algebra_simps)
  let ?sd1 = "sd\<lparr>pending_sends := int ?n - int b + int (?n - k), last_sent := of_nat (?n - 1) + of_nat (?n - k)\<rparr>"
  have r: "retransmit_window (of_nat k) sd = (Inr (map (packet_msg q) [k..<?n]), ?sd1)"
    using window_do_send [OF b(1) fq(1) k(1), of "?n - 1"] k few
    by (simp add: retransmit_window_def ls b(3) Let_def)
  have ls1: "last_sent ?sd1 + 1 = of_nat (?n + (?n - k))"
  proof -
    have "(of_nat (?n - 1) + 1 :: u32) = of_nat ?n" using k by (metis Suc_diff_1 Suc_eq_plus1 gr_implies_not0 neq0_conv of_nat_Suc add.commute)
    then show ?thesis by (simp add: algebra_simps)
  qed
  have ne: "of_nat ?n \<noteq> (0 :: u32)" "of_nat ?n \<noteq> last_sent ?sd1 + 1"
    unfolding ls1 using k few of_nat_eq_u32 [of ?n 0] of_nat_eq_u32 [of ?n "?n + (?n - k)"] by auto
  let ?sd2 = "?sd1\<lparr>seq_nrs := of_nat ?n + 1, sd_buffer := map (numbered (q @ [p])) [b..<Suc ?n]\<rparr>"
  have ins: "sm_insert (of_nat ?n) (p\<lparr>omp_seq_nr := of_nat ?n\<rparr>) (sd_buffer sd) = map (numbered (q @ [p])) [b..<Suc ?n]"
    using insert_numbered [of q b p] k few by (simp add: b(1))
  have e: "enqueue_packet p ?sd1 = ([], ?sd2)"
    using ne ins by (simp add: enqueue_packet_def next_id_def Let_def b(2))
  have buf: "sd_buffer ?sd2 = map (numbered (q @ [p])) [b..<length (q @ [p])]"
    and nx: "last_sent ?sd2 + 1 = of_nat (?n + (?n - k))" using ls1 by simp_all
  obtain released close sd' where a: "ack_window (of_nat (?n - 1)) ?sd2 = (Inr ([], close), released, sd')"
    "sd_buffer sd' = map (numbered (q @ [p])) [min (length (q @ [p])) (max b (Suc (?n - 1)))..<length (q @ [p])]"
    by (rule ack_past_buffer [OF buf fq(2) nx, of "?n - 1"]) (use k few in auto)
  have "min (length (q @ [p])) (max b (Suc (?n - 1))) = ?n" using k by auto
  with a(2) have "sd_buffer sd' = [numbered (q @ [p]) ?n]" by simp
  with r e a(1) show ?thesis by auto
qed

section \<open>Witnesses\<close>

definition example_packet :: outgoing_mcast_packet where
  "example_packet = new_packet 3 0 ''hi''"

definition example_window :: socket_data where
  "example_window = snd (enqueue_packet example_packet (new_socket_data 7))"

lemma example_enqueue: "enqueue_packet example_packet (new_socket_data indet) =
    ([packet_msg [example_packet] 0],
     (new_socket_data indet)\<lparr>pending_sends := 1, last_sent := 0, seq_nrs := 1, sd_buffer := [numbered [example_packet] 0]\<rparr>)"
  by (simp add: enqueue_packet_def new_socket_data_def next_id_def max_pending_sends_def packet_msg_def numbered_def Let_def)


theorem retransmit_stalls_witness:
  "fst (retransmit_window 0 example_window) = Inr [packet_msg [example_packet] 0]
   \<and> fst (enqueue_packet example_packet (snd (retransmit_window 0 example_window))) = []"
proof -
  have "window_ok [example_packet] 0 (length [example_packet]) example_window"
    by (simp add: example_window_def example_enqueue window_ok_def max_pending_sends_def)
  from retransmit_stalls [OF this, of 0 example_packet] show ?thesis by simp
qed

end
