(* ===== verification/Loopback.thy ===== *)
theory Loopback
  imports Socket_Proxy
begin

text \<open>
  The loopback module (\<open>modules/loopback/loopback.cpp\<close>): a technology module that gives every
  packet back to the host. It is one of the modules the middleware loads, so its functions are
  an instance of the record \<open>hc_module_handle\<close> that the theory of technology modules has as a
  parameter.

  The lemmas show that the loopback module, in the place of the parameter, never makes the
  worker fail and gives every packet back to the sockets that have joined its group.
\<close>

section \<open>The module\<close>

text \<open>
  \<open>lb_events\<close> are the calls of the event callback, in order; the code does not store them.
  \<open>lb_handle\<close> tells whether \<open>hc_init\<close> has set the handle of the instance.
\<close>

datatype loopback_module_msg = lb_kill_t | lb_send_t bytes uri

record loopback_module =
  lb_queue :: "loopback_module_msg list"
  lb_handle :: bool
  lb_events :: "(membership_event_type \<times> uri) list"

definition new_loopback_module :: loopback_module where
  "new_loopback_module = \<lparr>lb_queue = [], lb_handle = False, lb_events = []\<rparr>"

definition lb_set_handle :: "loopback_module \<Rightarrow> loopback_module" where
  "lb_set_handle m = m\<lparr>lb_handle := True\<rparr>"

definition lb_event :: "membership_event_type \<Rightarrow> uri \<Rightarrow> loopback_module \<Rightarrow> loopback_module" where
  "lb_event t g m = (if lb_handle m then m\<lparr>lb_events := lb_events m @ [(t, g)]\<rparr> else m)"

definition lb_join :: "uri \<Rightarrow> loopback_module \<Rightarrow> int \<times> loopback_module" where
  "lb_join g m = (HC_SUCCESS, lb_event join_event g m)"

definition lb_leave :: "uri \<Rightarrow> loopback_module \<Rightarrow> int \<times> loopback_module" where
  "lb_leave g m = (HC_SUCCESS, lb_event leave_event g m)"

text \<open>The packets of the middleware have less than 2 GB, so the length is not negative.\<close>

definition lb_sendto :: "bytes option \<Rightarrow> u32 \<Rightarrow> u8 \<Rightarrow> uri \<Rightarrow> loopback_module \<Rightarrow> int \<times> loopback_module" where
  "lb_sendto buf len ttl src m =
     (HC_SUCCESS, (case buf of None \<Rightarrow> m | Some b \<Rightarrow> m\<lparr>lb_queue := lb_queue m @ [lb_send_t (take (unat len) b) src]\<rparr>))"

definition lb_map :: "uri \<Rightarrow> loopback_module \<Rightarrow> hc_uri_result \<times> loopback_module" where
  "lb_map g m = (\<lparr>uri_str = None, uri_obj = Some g\<rparr>, m)"

definition HC_IGNORED :: int where
  "HC_IGNORED = -1"

definition HC_IS_NOT_A_DESIGNATED_HOST :: int where
  "HC_IS_NOT_A_DESIGNATED_HOST = 0"

definition empty_uri_list :: "hc_uri_node list" where
  "empty_uri_list = [\<lparr>node_type = HC_IGNORED, node_uri_str = None, node_uri_obj = None\<rparr>]"

text \<open>The destructor waits until the thread of \<open>recv_loop\<close> has come to the message it pushes.\<close>

definition lb_delete :: "loopback_module \<Rightarrow> loopback_module" where
  "lb_delete m = m\<lparr>lb_queue := lb_queue m @ [lb_kill_t]\<rparr>"

definition loopback_handle :: "loopback_module hc_module_handle" where
  "loopback_handle =
     \<lparr>map_fun = lb_map, sendto_fun = lb_sendto, leave_fun = lb_leave, join_fun = lb_join,
      group_set_fun = (\<lambda>m. (empty_uri_list, m)), neighbor_set_fun = (\<lambda>m. (empty_uri_list, m)),
      children_set_fun = (\<lambda>_ m. (empty_uri_list, m)), parent_set_fun = (\<lambda>_ m. (empty_uri_list, m)),
      designated_host_fun = (\<lambda>_ m. (HC_IS_NOT_A_DESIGNATED_HOST, m)), delete_instance_fun = lb_delete\<rparr>"

text \<open>One message of \<open>recv_loop\<close>, and the loop over what is in the queue.\<close>

definition lb_recv_msg ::
  "(nat \<Rightarrow> nat \<Rightarrow> 's \<Rightarrow> bool \<times> 's) \<Rightarrow> (nat \<Rightarrow> u32) \<Rightarrow> (nat \<Rightarrow> nat) \<Rightarrow> loopback_module tech_module \<Rightarrow> loopback_module_msg
    \<Rightarrow> ('s, (nat \<times> session_msg) list) op" where
  "lb_recv_msg acquire sid parent_session hdl lmm =
     (case lmm of
        lb_kill_t \<Rightarrow> sret []
      | lb_send_t buf source \<Rightarrow>
          recv_callback acquire sid parent_session (Some hdl) (Some buf) (int (length buf)) (Some source) (Some (str source)))"

fun lb_recv_loop ::
  "(nat \<Rightarrow> nat \<Rightarrow> 's \<Rightarrow> bool \<times> 's) \<Rightarrow> (nat \<Rightarrow> u32) \<Rightarrow> (nat \<Rightarrow> nat) \<Rightarrow> loopback_module tech_module \<Rightarrow> loopback_module_msg list
    \<Rightarrow> ('s, (nat \<times> session_msg) list) op" where
  "lb_recv_loop acquire sid parent_session hdl [] = sret []"
| "lb_recv_loop acquire sid parent_session hdl (lmm # q) =
     (if lmm = lb_kill_t then sret []
      else sbind (lb_recv_msg acquire sid parent_session hdl lmm)
             (\<lambda>ms. sbind (lb_recv_loop acquire sid parent_session hdl q) (\<lambda>ms'. sret (ms @ ms'))))"

section \<open>Lemmas\<close>

lemma loopback_maps: "maps_by loopback_handle (\<lambda>u. u)"
  by (simp add: maps_by_def loopback_handle_def lb_map_def tm_mapping_helper_def)

lemma loopback_send:
  assumes "joins_ok tm" "named_by (\<lambda>u. u) tm" "m_receiver j \<noteq> default_uri"
    "msg_content (m_msg j) = Some ct" "unat (msg_content_size (m_msg j)) = length ct"
  obtains tm' where "worker_msg loopback_handle freed (send_job_t j) tm = (Inr no_future, tm')"
    "lb_queue (m_instance tm') = lb_queue (m_instance tm) @ [lb_send_t ct (m_receiver j)]"
    "members tm' = members tm" "joins_ok tm'" "named_by (\<lambda>u. u) tm'"
proof -
  from worker_lookup_named [OF loopback_maps assms(1,2,3)] obtain tm1 where
    l: "worker_lookup loopback_handle (m_receiver j) tm = (Inr (m_receiver j), tm1)" and n: "named_by (\<lambda>u. u) tm1"
    and "m_instance tm1 = m_instance tm"
    by (auto simp: loopback_handle_def lb_map_def)
  moreover have "members tm1 = members tm" "joins_ok tm1" using worker_lookup_members [OF assms(1) l] by auto
  moreover have s: "sendto_fun loopback_handle = lb_sendto" by (simp add: loopback_handle_def)
  ultimately show ?thesis using assms(4,5)
    by (intro that [of "tm1\<lparr>m_instance := snd (lb_sendto (Some ct) (msg_content_size (m_msg j)) (job_ttl j) (m_receiver j) (m_instance tm1))\<rparr>"])
      (simp_all add: sbind_def call_module_def lb_sendto_def)
qed

text \<open>A job as a socket makes it: to a group, with a content of the stated size.\<close>

definition loop_job :: "send_job \<Rightarrow> bool" where
  "loop_job j \<longleftrightarrow> m_receiver j \<noteq> default_uri \<and> msg_content (m_msg j) \<noteq> None
     \<and> unat (msg_content_size (m_msg j)) = length (the (msg_content (m_msg j)))
     \<and> 0 < msg_content_size (m_msg j) \<and> msg_content_size (m_msg j) \<le> 65536"

definition job_data :: "send_job \<Rightarrow> bytes" where
  "job_data j = the (msg_content (m_msg j))"

lemma loop_job_data:
  assumes "loop_job j"
  shows "msg_content (m_msg j) = Some (job_data j)" "unat (msg_content_size (m_msg j)) = length (job_data j)"
    "m_receiver j \<noteq> default_uri" "job_data j \<noteq> []" "length (job_data j) \<le> 65536"
proof -
  let ?n = "msg_content_size (m_msg j)"
  show "msg_content (m_msg j) = Some (job_data j)" and l: "unat ?n = length (job_data j)" and "m_receiver j \<noteq> default_uri"
    using assms by (auto simp: loop_job_def job_data_def)
  have "0 < unat ?n" "unat ?n \<le> unat (65536 :: u32)"
    using assms by (auto simp: loop_job_def word_le_nat_alt word_less_nat_alt)
  with l show "job_data j \<noteq> []" "length (job_data j) \<le> 65536" by auto
qed

lemma loopback_send_all:
  assumes "joins_ok tm" "named_by (\<lambda>u. u) tm" "list_all loop_job js"
  shows "\<exists>tm'. worker_loop loopback_handle freed (map send_job_t js) tm = (Inr (replicate (length js) no_future), tm')
    \<and> lb_queue (m_instance tm') = lb_queue (m_instance tm) @ map (\<lambda>j. lb_send_t (job_data j) (m_receiver j)) js
    \<and> members tm' = members tm"
  using assms
proof (induction js arbitrary: tm)
  case (Cons j js)
  then have j: "loop_job j" by simp
  from loopback_send [OF Cons.prems(1,2) loop_job_data(3,1,2) [OF j]] obtain tm1 where
    1: "worker_msg loopback_handle freed (send_job_t j) tm = (Inr no_future, tm1)"
    "lb_queue (m_instance tm1) = lb_queue (m_instance tm) @ [lb_send_t (job_data j) (m_receiver j)]"
    "members tm1 = members tm" "joins_ok tm1" "named_by (\<lambda>u. u) tm1" .
  have "list_all loop_job js" using Cons.prems(3) by simp
  from Cons.IH [OF 1(4,5) this] 1(1-3) show ?case by (auto simp: sbind_def)
qed simp

lemma loopback_receive:
  assumes "joins_ok tm" "loop_job j"
  shows "\<exists>ss socks'. lb_recv_msg acquire_at sid parent tm (lb_send_t (job_data j) g) socks =
      (Inr (map (\<lambda>s. (parent s, outgoing_mcast_pckt_t (packet_class (int (length (job_data j)))) (sid s) g (job_data j))) ss), socks')
    \<and> distinct ss \<and> set ss = {s. (g, s) \<in> members tm \<and> int (length (job_data j)) \<le> m_receive_buf (socks s)}"
  using handle_receive_exact [OF assms(1), of "job_data j" "int (length (job_data j))" sid parent g socks] loop_job_data [OF assms(2)]
  by (auto simp: lb_recv_msg_def recv_callback_def)

section \<open>Properties\<close>


definition example_job :: send_job where
  "example_job = \<lparr>job_addr = 77, m_msg = example_send, m_receiver = uri_of ''ham:ip:239.0.0.1'', job_ttl = 1, m_client = 9\<rparr>"


end
