(* ===== verification/Configuration.thy ===== *)
theory Configuration
  imports Session
begin

text \<open>
  The configuration of the middleware: the INI file (\<open>libhamcast/src/config_map.cpp\<close>), the file
  that tells clients where the middleware runs (\<open>libhamcast/src/middleware_configuration.cpp\<close>),
  what \<open>middleware/main.cpp\<close> does with the INI file, and the handshake of a new connection
  (\<open>main.cpp\<close> and \<open>client_channel.cpp\<close>).

  The lemmas show that the INI reader accepts exactly the lines of its patterns and reads back
  what is written in its format, that port and process id survive the file of the middleware,
  and that the handshake accepts clients of the same version.
\<close>

section \<open>INI files\<close>

type_synonym config_map = "(string, (string, string) smap) smap"

text \<open>
  The three patterns of \<open>read_ini\<close>. Every part of them ends at the first character that does not
  belong to it, so a match is found without backtracking.
\<close>

definition name_char :: "char \<Rightarrow> bool" where
  "name_char c \<longleftrightarrow> c = CHR ''-'' \<or> (CHR ''a'' \<le> c \<and> c \<le> CHR ''z'') \<or> (CHR ''A'' \<le> c \<and> c \<le> CHR ''Z'')
     \<or> is_digit c \<or> c = CHR ''.'' \<or> c = CHR ''_''"

definition rx_end :: "string \<Rightarrow> bool" where
  "rx_end s = (case dropWhile is_space s of [] \<Rightarrow> True | c # _ \<Rightarrow> c = CHR '';'')"

definition rx_section :: "string \<Rightarrow> string option" where
  "rx_section line =
     (case line of
        [] \<Rightarrow> None
      | c # s \<Rightarrow>
          (case dropWhile name_char s of
             [] \<Rightarrow> None
           | d # t \<Rightarrow> if c = CHR ''['' \<and> d = CHR '']'' \<and> takeWhile name_char s \<noteq> [] \<and> rx_end t
                     then Some (takeWhile name_char s) else None))"

text \<open>The key, the equal sign and the blanks around it; the result is the key and what follows.\<close>

definition rx_key :: "string \<Rightarrow> (string \<times> string) option" where
  "rx_key line =
     (case dropWhile is_space (dropWhile name_char line) of
        [] \<Rightarrow> None
      | c # s \<Rightarrow> if c = CHR ''='' \<and> takeWhile name_char line \<noteq> []
                then Some (takeWhile name_char line, dropWhile is_space s) else None)"

definition value_char :: "char \<Rightarrow> bool" where
  "value_char c \<longleftrightarrow> name_char c \<or> c = CHR ''/''"

definition rx_value :: "string \<Rightarrow> (string \<times> string) option" where
  "rx_value line =
     (case rx_key line of
        None \<Rightarrow> None
      | Some (key, s) \<Rightarrow>
          if takeWhile value_char s \<noteq> [] \<and> rx_end (dropWhile value_char s)
          then Some (key, takeWhile value_char s) else None)"

definition quote_char :: char where
  "quote_char = CHR 0x22"

definition rx_string_value :: "string \<Rightarrow> (string \<times> string) option" where
  "rx_string_value line =
     (case rx_key line of
        None \<Rightarrow> None
      | Some (key, s) \<Rightarrow>
          (case s of
             [] \<Rightarrow> None
           | c # t \<Rightarrow>
               (case dropWhile (\<lambda>c. c \<noteq> quote_char) t of
                  [] \<Rightarrow> None
                | d # v \<Rightarrow> if c = quote_char \<and> takeWhile (\<lambda>c. c \<noteq> quote_char) t \<noteq> [] \<and> rx_end v
                          then Some (key, takeWhile (\<lambda>c. c \<noteq> quote_char) t) else None)))"

text \<open>The state is the map and the name of the current section.\<close>

definition new_section :: "string \<Rightarrow> (config_map \<times> string, unit) op" where
  "new_section sec_name = (\<lambda>(cm, sec).
     if map_of cm sec_name \<noteq> None then (Inl (Runtime_error (''section '' @ sec_name @ '' already defined'')), cm, sec)
     else (Inr (), sm_put sec_name [] cm, sec_name))"

definition add_key_value_pair :: "string \<Rightarrow> string \<Rightarrow> (config_map \<times> string, unit) op" where
  "add_key_value_pair key val = (\<lambda>(cm, sec).
     if sec = [] then (Inl (Runtime_error ''key value pair outside section''), cm, sec)
     else
       (let kv_map = (case map_of cm sec of Some m \<Rightarrow> m | None \<Rightarrow> []) in
        if map_of kv_map key \<noteq> None
        then (Inl (Runtime_error (''key '' @ key @ '' already defined'')), sm_put sec kv_map cm, sec)
        else (Inr (), sm_put sec (sm_put key val kv_map) cm, sec)))"

text \<open>The result tells whether a pattern matches.\<close>

definition matches :: "string \<Rightarrow> (config_map \<times> string, bool) op" where
  "matches line =
     (case rx_section line of
        Some n \<Rightarrow> sbind (new_section n) (\<lambda>_. sret True)
      | None \<Rightarrow>
          (case rx_value line of
             Some (k, v) \<Rightarrow> sbind (add_key_value_pair k v) (\<lambda>_. sret True)
           | None \<Rightarrow>
               (case rx_string_value line of
                  Some (k, v) \<Rightarrow> sbind (add_key_value_pair k v) (\<lambda>_. sret True)
                | None \<Rightarrow> sret False)))"

definition read_line :: "string \<Rightarrow> (config_map \<times> string, unit) op" where
  "read_line line =
     (if line = [] then sret ()
      else if hd line = CHR '';'' then sret ()
      else sbind (matches line) (\<lambda>_. sret ()))"

fun read_lines :: "string list \<Rightarrow> (config_map \<times> string, unit) op" where
  "read_lines [] = sret ()"
| "read_lines (line # ls) = sbind (read_line line) (\<lambda>_. read_lines ls)"

text \<open>\<open>getline\<close> until the end of the stream; a last line needs no newline.\<close>

definition newline :: char where
  "newline = CHR 0x0A"

fun getlines :: "string \<Rightarrow> string \<Rightarrow> string list" where
  "getlines acc [] = (if acc = [] then [] else [acc])"
| "getlines acc (c # s) = (if c = newline then acc # getlines [] s else getlines (acc @ [c]) s)"

text \<open>\<open>content\<close> is the content of the file, if it can be opened.\<close>

definition read_ini :: "string \<Rightarrow> string option \<Rightarrow> (config_map, unit) op" where
  "read_ini filename content m_data =
     (case content of
        None \<Rightarrow> (Inl (Runtime_error (''Config file '' @ filename @ '' not found'')), m_data)
      | Some s \<Rightarrow> (case read_lines (getlines [] s) (m_data, []) of (r, cm, _) \<Rightarrow> (r, cm)))"

definition has_group :: "string \<Rightarrow> config_map \<Rightarrow> bool" where
  "has_group grp m_data \<longleftrightarrow> map_of m_data grp \<noteq> None"

definition cm_get :: "string \<Rightarrow> string \<Rightarrow> config_map \<Rightarrow> string" where
  "cm_get grp key m_data =
     (case map_of m_data grp of
        None \<Rightarrow> []
      | Some m \<Rightarrow> (case map_of m key of None \<Rightarrow> [] | Some v \<Rightarrow> v))"

definition cm_at :: "string \<Rightarrow> config_map \<Rightarrow> (string, string) smap res" where
  "cm_at grp m_data =
     (case map_of m_data grp of
        None \<Rightarrow> Inl (Range_error (''unknown group: '' @ grp))
      | Some m \<Rightarrow> Inr m)"

section \<open>The middleware's use of the INI file\<close>

text \<open>
  \<open>run_middleware\<close> up to the loop that waits for clients: the log levels that are set, the
  maximum message size and the modules for which \<open>tech_module::load\<close> is called, with their
  section, as long as no call throws. The conversion of a number is a function of a library;
  messages on the console are left out.
\<close>

datatype log_action = Log_level string | Log_off | Log_illegal

definition log_action_of :: "string \<Rightarrow> log_action" where
  "log_action_of lvl =
     (if lvl \<in> {''trace'', ''debug'', ''info'', ''warn'', ''error'', ''fatal''} then Log_level lvl
      else if lvl = ''none'' then Log_off else Log_illegal)"

record middleware_setup =
  log_actions :: "log_action list"
  setup_max_msg_size :: u32
  loaded :: "(string \<times> (string, string) smap) list"

definition run_middleware :: "(string \<Rightarrow> u32 option) \<Rightarrow> string \<Rightarrow> string option \<Rightarrow> middleware_setup res" where
  "run_middleware lexical_cast_u32 ini_file content =
     (case read_ini ini_file content [] of
        (Inl e, _) \<Rightarrow> Inl e
      | (Inr _, ini) \<Rightarrow>
          rbind (cm_at ''global'' ini) (\<lambda>global.
            let mmsize = cm_get ''global'' ''max_msg_size'' ini in
            Inr \<lparr>log_actions = map (\<lambda>(_, lvl). log_action_of lvl) (filter (\<lambda>(k, _). k = ''log_level'') global),
                 setup_max_msg_size =
                   (case (if mmsize = [] then None else lexical_cast_u32 mmsize) of
                      None \<Rightarrow> of_nat default_max_msg_size | Some n \<Rightarrow> n),
                 loaded = [(fname, m). (section, m) \<leftarrow> ini, section \<noteq> ''global'',
                             fname \<leftarrow> [case map_of m ''file'' of None \<Rightarrow> [] | Some f \<Rightarrow> f], fname \<noteq> []]\<rparr>))"

section \<open>The file of the running middleware\<close>

record middleware_configuration =
  mc_port :: u16
  mc_str_port :: string
  mc_pid :: int

definition empty_middleware_configuration :: middleware_configuration where
  "empty_middleware_configuration = \<lparr>mc_port = 0, mc_str_port = ''0'', mc_pid = 0\<rparr>"

definition new_middleware_configuration :: "(u16 \<Rightarrow> string) \<Rightarrow> int \<Rightarrow> u16 \<Rightarrow> middleware_configuration" where
  "new_middleware_configuration lexical_cast_string getpid p = \<lparr>mc_port = p, mc_str_port = lexical_cast_string p, mc_pid = getpid\<rparr>"

definition int_string :: "int \<Rightarrow> string" where
  "int_string n = (if n < 0 then CHR ''-'' # dec_string (nat (- n)) else dec_string (nat n))"

text \<open>The content of the file that \<open>write_to\<close> writes.\<close>

definition mc_write_to :: "middleware_configuration \<Rightarrow> string" where
  "mc_write_to mc =
     ''middleware.port = '' @ mc_str_port mc @ [newline] @ ''middleware.pid = '' @ int_string (mc_pid mc) @ [newline]"

definition rx_number :: "string \<Rightarrow> string \<Rightarrow> string option" where
  "rx_number prefix line =
     (let ds = drop (length prefix) line in
      if take (length prefix) line = prefix \<and> ds \<noteq> [] \<and> CHR ''1'' \<le> hd ds \<and> hd ds \<le> CHR ''9'' \<and> list_all is_digit (tl ds)
      then Some ds else None)"

text \<open>
  The loop of \<open>read_from\<close>; \<open>pg\<close> and \<open>ig\<close> tell whether port and process id were found. \<open>lc_port\<close>
  and \<open>lc_pid\<close> are the conversions of \<open>boost::lexical_cast\<close>, without result where it throws.
\<close>

fun mc_read_lines ::
  "(string \<Rightarrow> u16 option) \<Rightarrow> (string \<Rightarrow> int option) \<Rightarrow> string list \<Rightarrow> bool \<Rightarrow> bool
    \<Rightarrow> middleware_configuration \<Rightarrow> bool \<times> middleware_configuration" where
  "mc_read_lines lc_port lc_pid [] pg ig mc = (pg \<and> ig, mc)"
| "mc_read_lines lc_port lc_pid (line # ls) pg ig mc =
     (if line = [] then mc_read_lines lc_port lc_pid ls pg ig mc
      else case rx_number ''middleware.port = '' line of
        Some captured \<Rightarrow>
          if pg then (False, mc)
          else (case lc_port captured of
                  None \<Rightarrow> (False, mc)
                | Some p \<Rightarrow> mc_read_lines lc_port lc_pid ls True ig (mc\<lparr>mc_port := p\<rparr>))
      | None \<Rightarrow>
          (case rx_number ''middleware.pid = '' line of
             Some captured \<Rightarrow>
               if ig then (False, mc)
               else (case lc_pid captured of
                       None \<Rightarrow> (False, mc)
                     | Some p \<Rightarrow> mc_read_lines lc_port lc_pid ls pg True (mc\<lparr>mc_pid := p\<rparr>))
           | None \<Rightarrow> mc_read_lines lc_port lc_pid ls pg ig mc))"

definition mc_read_from ::
  "(string \<Rightarrow> u16 option) \<Rightarrow> (string \<Rightarrow> int option) \<Rightarrow> string \<Rightarrow> middleware_configuration \<Rightarrow> bool \<times> middleware_configuration" where
  "mc_read_from lc_port lc_pid content mc =
     mc_read_lines lc_port lc_pid (getlines [] content) False False (mc\<lparr>mc_port := 0, mc_str_port := ''0''\<rparr>)"

section \<open>The handshake\<close>

definition magic_number :: u32 where "magic_number = 0xDEADC0DE"
definition major_version :: u32 where "major_version = 0"
definition minor_version :: u32 where "minor_version = 6"
definition min_compatile_major_version :: u32 where "min_compatile_major_version = 0"
definition min_compatile_minor_version :: u32 where "min_compatile_minor_version = 6"

definition in_range :: "'a::linorder \<Rightarrow> 'a \<Rightarrow> 'a \<Rightarrow> bool" where
  "in_range x min_value max_value \<longleftrightarrow> x \<ge> min_value \<and> x \<le> max_value"

definition verify_client :: "(nat \<Rightarrow> ('s, bytes) op) \<Rightarrow> ('s \<times> uri_cache, bool) op" where
  "verify_client rd =
     sbind (des_u32 rd) (\<lambda>v.
       if v \<noteq> magic_number then sret False
       else sbind (des_u32 rd) (\<lambda>v.
         if \<not> in_range v min_compatile_major_version major_version then sret False
         else sbind (des_u32 rd) (\<lambda>v.
           if \<not> in_range v min_compatile_minor_version minor_version then sret False
           else sret True)))"

text \<open>The middleware's side: the answer goes to the sink \<open>wr\<close>, then the maximum message size.\<close>

definition client_compatible ::
  "(nat \<Rightarrow> ('s, bytes) op) \<Rightarrow> (bytes \<Rightarrow> ('t, unit) op) \<Rightarrow> u32 \<Rightarrow> 's \<Rightarrow> 't \<Rightarrow> bool res \<times> 's \<times> 't" where
  "client_compatible rd wr max_msg_size i out =
     (case verify_client rd (i, []) of
        (Inl e, i', _) \<Rightarrow> (Inl e, i', out)
      | (Inr ok, i', _) \<Rightarrow>
          (let result = (if ok then 1 else 0) :: u8 in
           case sbind (ser_u8 wr result) (\<lambda>_. ser_u32 wr max_msg_size) out of
             (Inl e, out') \<Rightarrow> (Inl e, i', out')
           | (Inr _, out') \<Rightarrow> (Inr (result = 1), i', out')))"

text \<open>
  The client's side: what it sends, whether it is accepted, and what it does with the answer.
  A client that is not accepted throws \<open>connection_to_middleware_failed\<close>, which is no result;
  otherwise the result is the size that the constructor of \<open>client_channel\<close> reads.
\<close>

definition client_hello :: "(bytes \<Rightarrow> ('t, unit) op) \<Rightarrow> ('t, unit) op" where
  "client_hello wr =
     sbind (ser_u32 wr magic_number) (\<lambda>_. sbind (ser_u32 wr major_version) (\<lambda>_. ser_u32 wr minor_version))"

definition client_accepted :: "(nat \<Rightarrow> ('s, bytes) op) \<Rightarrow> ('s \<times> uri_cache, bool) op" where
  "client_accepted rd = sbind (des_u8 rd) (\<lambda>answer. sret (answer = 1))"

definition client_answer :: "(nat \<Rightarrow> ('s, bytes) op) \<Rightarrow> ('s \<times> uri_cache, u32 option) op" where
  "client_answer rd =
     sbind (client_accepted rd) (\<lambda>accepted.
       if \<not> accepted then sret None else sbind (des_u32 rd) (\<lambda>max_msg_size. sret (Some max_msg_size)))"

section \<open>The patterns\<close>

lemma takeWhile_all_append:
  "list_all P xs \<Longrightarrow> ys = [] \<or> \<not> P (hd ys) \<Longrightarrow> takeWhile P (xs @ ys) = xs \<and> dropWhile P (xs @ ys) = ys"
  by (induction xs) (cases ys; auto)+

lemma name_char_simps [simp]:
  "\<not> name_char CHR '']''" "\<not> name_char CHR ''[''" "\<not> name_char CHR '';''" "\<not> name_char CHR ''=''" "\<not> name_char CHR '' ''"
  "\<not> name_char quote_char" "\<not> name_char newline"
  by code_simp+

text \<open>The patterns as the regular expressions of the source.\<close>

definition blanks :: "string \<Rightarrow> bool" where
  "blanks s \<longleftrightarrow> list_all is_space s"

definition comment :: "string \<Rightarrow> bool" where
  "comment s \<longleftrightarrow> s = [] \<or> hd s = CHR '';''"

lemma rx_end_iff: "rx_end s \<longleftrightarrow> (\<exists>w c. s = w @ c \<and> blanks w \<and> comment c)"
proof
  assume "rx_end s"
  then have "comment (dropWhile is_space s)" by (auto simp: rx_end_def comment_def split: list.splits)
  moreover have "blanks (takeWhile is_space s)" by (auto simp: blanks_def list_all_iff dest: set_takeWhileD)
  ultimately show "\<exists>w c. s = w @ c \<and> blanks w \<and> comment c"
    by (intro exI [of _ "takeWhile is_space s"] exI [of _ "dropWhile is_space s"]) (simp)
next
  assume "\<exists>w c. s = w @ c \<and> blanks w \<and> comment c"
  then obtain w c where s: "s = w @ c" "blanks w" "comment c" by blast
  have "c = [] \<or> \<not> is_space (hd c)" using s(3) by (auto simp: comment_def is_space_def)
  with s have "dropWhile is_space s = c" using takeWhile_all_append [of is_space w c] by (simp add: blanks_def)
  with s(3) show "rx_end s" by (auto simp: rx_end_def comment_def split: list.splits)
qed

lemma rx_section_iff:
  "rx_section line = Some n \<longleftrightarrow>
     (\<exists>w c. line = CHR ''['' # n @ CHR '']'' # w @ c \<and> n \<noteq> [] \<and> list_all name_char n \<and> blanks w \<and> comment c)"
proof
  assume r: "rx_section line = Some n"
  then obtain s where l: "line = CHR ''['' # s" "n = takeWhile name_char s" "n \<noteq> []"
    by (auto simp: rx_section_def split: list.splits if_splits)
  with r obtain t where t: "dropWhile name_char s = CHR '']'' # t" "rx_end t"
    by (auto simp: rx_section_def split: list.splits if_splits)
  have "s = n @ CHR '']'' # t" using l t takeWhile_dropWhile_id [of name_char s] by simp
  moreover have "list_all name_char n" using l by (auto simp: list_all_iff dest: set_takeWhileD)
  ultimately show "\<exists>w c. line = CHR ''['' # n @ CHR '']'' # w @ c \<and> n \<noteq> [] \<and> list_all name_char n \<and> blanks w \<and> comment c"
    using l t(2) rx_end_iff by auto
next
  assume "\<exists>w c. line = CHR ''['' # n @ CHR '']'' # w @ c \<and> n \<noteq> [] \<and> list_all name_char n \<and> blanks w \<and> comment c"
  then obtain w c where l: "line = CHR ''['' # n @ CHR '']'' # w @ c" "n \<noteq> []" "list_all name_char n" "rx_end (w @ c)"
    using rx_end_iff by blast
  with takeWhile_all_append [of name_char n "CHR '']'' # w @ c"] show "rx_section line = Some n"
    by (simp add: rx_section_def)
qed

lemma split_while:
  assumes "list_all P xs" "ys = [] \<or> \<not> P (hd ys)"
  shows "takeWhile P (xs @ ys) = xs" "dropWhile P (xs @ ys) = ys"
  using takeWhile_all_append [OF assms] by auto

lemma all_takeWhile: "list_all P (takeWhile P xs)"
  by (auto simp: list_all_iff dest: set_takeWhileD)

lemma hd_dropWhile_not: "dropWhile P xs = [] \<or> \<not> P (hd (dropWhile P xs))"
  using hd_dropWhile by blast

lemma blank_not_name: "is_space c \<Longrightarrow> \<not> name_char c"
  unfolding is_space_def by (elim insertE emptyE; hypsubst; code_simp)

lemma rx_key_iff:
  "rx_key line = Some (k, s) \<longleftrightarrow>
     (\<exists>w1 w2. line = k @ w1 @ CHR ''='' # w2 @ s \<and> k \<noteq> [] \<and> list_all name_char k \<and> blanks w1 \<and> blanks w2
        \<and> (s = [] \<or> \<not> is_space (hd s)))"
proof
  assume r: "rx_key line = Some (k, s)"
  let ?t = "dropWhile name_char line"
  from r obtain u where u: "dropWhile is_space ?t = CHR ''='' # u" "k = takeWhile name_char line" "k \<noteq> []" "s = dropWhile is_space u"
    by (auto simp: rx_key_def split: list.splits if_splits)
  have "line = k @ takeWhile is_space ?t @ CHR ''='' # takeWhile is_space u @ s"
    using takeWhile_dropWhile_id [of name_char line] takeWhile_dropWhile_id [of is_space ?t] takeWhile_dropWhile_id [of is_space u] u
    by (metis append_Cons)
  then show "\<exists>w1 w2. line = k @ w1 @ CHR ''='' # w2 @ s \<and> k \<noteq> [] \<and> list_all name_char k \<and> blanks w1 \<and> blanks w2
        \<and> (s = [] \<or> \<not> is_space (hd s))"
    using u hd_dropWhile_not [of is_space u] all_takeWhile [of name_char line]
    by (intro exI [of _ "takeWhile is_space ?t"] exI [of _ "takeWhile is_space u"]) (simp add: blanks_def all_takeWhile)
next
  assume "\<exists>w1 w2. line = k @ w1 @ CHR ''='' # w2 @ s \<and> k \<noteq> [] \<and> list_all name_char k \<and> blanks w1 \<and> blanks w2
        \<and> (s = [] \<or> \<not> is_space (hd s))"
  then obtain w1 w2 where l: "line = k @ w1 @ CHR ''='' # w2 @ s" "k \<noteq> []" "list_all name_char k" "blanks w1" "blanks w2"
    "s = [] \<or> \<not> is_space (hd s)" by blast
  have "\<not> name_char (hd (w1 @ CHR ''='' # w2 @ s))"
    using l(4) blank_not_name by (cases w1) (auto simp: blanks_def)
  then have 1: "takeWhile name_char line = k" "dropWhile name_char line = w1 @ CHR ''='' # w2 @ s"
    using split_while [OF l(3), of "w1 @ CHR ''='' # w2 @ s"] l(1) by auto
  have 2: "dropWhile is_space (w1 @ CHR ''='' # w2 @ s) = CHR ''='' # w2 @ s"
    using split_while(2) [of is_space w1 "CHR ''='' # w2 @ s"] l(4) by (simp add: blanks_def is_space_def)
  have 3: "dropWhile is_space (w2 @ s) = s" using split_while(2) [of is_space w2 s] l(5,6) by (simp add: blanks_def)
  show "rx_key line = Some (k, s)" using l(2) by (simp add: rx_key_def 1 2 3)
qed

text \<open>What follows a value: blanks and a comment.\<close>

definition tail :: "string \<Rightarrow> bool" where
  "tail s \<longleftrightarrow> (\<exists>w c. s = w @ c \<and> blanks w \<and> comment c)"

lemma tail_hd: "tail s \<Longrightarrow> s = [] \<or> is_space (hd s) \<or> hd s = CHR '';''"
proof -
  assume "tail s"
  then obtain w c where s: "s = w @ c" "blanks w" "comment c" by (auto simp: tail_def)
  then show ?thesis by (cases w) (auto simp: blanks_def comment_def)
qed

lemma rx_end_tail: "rx_end s = tail s"
  by (simp add: tail_def rx_end_iff)

lemma value_char_simps [simp]: "\<not> value_char CHR '';''" "\<not> value_char quote_char" "\<not> is_space quote_char"
  by code_simp+

lemma blank_not_value: "is_space c \<Longrightarrow> \<not> value_char c"
  unfolding is_space_def by (elim insertE emptyE; hypsubst; code_simp)

lemma rx_value_iff:
  "rx_value line = Some (k, v) \<longleftrightarrow> (\<exists>t. rx_key line = Some (k, v @ t) \<and> v \<noteq> [] \<and> list_all value_char v \<and> tail t)"
proof
  assume "rx_value line = Some (k, v)"
  then obtain s where "rx_key line = Some (k, s)" "v = takeWhile value_char s" "v \<noteq> []" "tail (dropWhile value_char s)"
    by (auto simp: rx_value_def rx_end_tail split: option.splits if_splits)
  then show "\<exists>t. rx_key line = Some (k, v @ t) \<and> v \<noteq> [] \<and> list_all value_char v \<and> tail t"
    by (intro exI [of _ "dropWhile value_char s"]) (simp add: all_takeWhile)
next
  assume "\<exists>t. rx_key line = Some (k, v @ t) \<and> v \<noteq> [] \<and> list_all value_char v \<and> tail t"
  then obtain t where t: "rx_key line = Some (k, v @ t)" "v \<noteq> []" "list_all value_char v" "tail t" by blast
  have "t = [] \<or> \<not> value_char (hd t)" using tail_hd [OF t(4)] blank_not_value by auto
  from split_while [OF t(3) this] t show "rx_value line = Some (k, v)" by (simp add: rx_value_def rx_end_tail)
qed

lemma rx_string_value_iff:
  "rx_string_value line = Some (k, v) \<longleftrightarrow>
     (\<exists>t. rx_key line = Some (k, quote_char # v @ quote_char # t) \<and> v \<noteq> [] \<and> quote_char \<notin> set v \<and> tail t)"
proof
  let ?P = "\<lambda>c. c \<noteq> quote_char"
  assume "rx_string_value line = Some (k, v)"
  then obtain u d w where key: "rx_key line = Some (k, quote_char # u)" and v: "v = takeWhile ?P u" "v \<noteq> []"
    and w0: "dropWhile ?P u = d # w" "tail w"
    unfolding rx_string_value_def rx_end_tail by (auto split: option.splits list.splits if_splits)
  have "d = quote_char" using hd_dropWhile_not [of ?P u] w0 by simp
  with w0 have w: "dropWhile ?P u = quote_char # w" "tail w" by auto
  have u: "u = v @ quote_char # w" unfolding v(1) w(1) [symmetric] by simp
  have "quote_char \<notin> set v" unfolding v(1) by (auto dest: set_takeWhileD)
  then show "\<exists>t. rx_key line = Some (k, quote_char # v @ quote_char # t) \<and> v \<noteq> [] \<and> quote_char \<notin> set v \<and> tail t"
    using key [unfolded u] v(2) w(2) by blast
next
  let ?P = "\<lambda>c. c \<noteq> quote_char"
  assume "\<exists>t. rx_key line = Some (k, quote_char # v @ quote_char # t) \<and> v \<noteq> [] \<and> quote_char \<notin> set v \<and> tail t"
  then obtain t where t: "rx_key line = Some (k, quote_char # v @ quote_char # t)" "v \<noteq> []" "quote_char \<notin> set v" "tail t" by blast
  have "list_all ?P v" using t(3) by (auto simp: list_all_iff)
  from split_while [OF this, of "quote_char # t"] t show "rx_string_value line = Some (k, v)"
    by (simp add: rx_string_value_def rx_end_tail)
qed

section \<open>Writing and reading\<close>

text \<open>A configuration in the format of an INI file, every value in quotes.\<close>

definition section_line :: "string \<Rightarrow> string" where
  "section_line n = CHR ''['' # n @ [CHR '']'']"

definition pair_line :: "string \<times> string \<Rightarrow> string" where
  "pair_line kv = fst kv @ '' = '' @ quote_char # snd kv @ [quote_char]"

definition ini_lines :: "config_map \<Rightarrow> string list" where
  "ini_lines cm = concat (map (\<lambda>(n, kvs). section_line n # map pair_line kvs) cm)"

definition ini_text :: "config_map \<Rightarrow> string" where
  "ini_text cm = concat (map (\<lambda>l. l @ [newline]) (ini_lines cm))"

definition name_ok :: "string \<Rightarrow> bool" where
  "name_ok n \<longleftrightarrow> n \<noteq> [] \<and> list_all name_char n"

definition value_ok :: "string \<Rightarrow> bool" where
  "value_ok v \<longleftrightarrow> v \<noteq> [] \<and> quote_char \<notin> set v \<and> newline \<notin> set v"

definition section_ok :: "string \<times> (string, string) smap \<Rightarrow> bool" where
  "section_ok p \<longleftrightarrow> name_ok (fst p) \<and> sm_ok (snd p) \<and> (\<forall>kv \<in> set (snd p). name_ok (fst kv) \<and> value_ok (snd kv))"

definition config_ok :: "config_map \<Rightarrow> bool" where
  "config_ok cm \<longleftrightarrow> sm_ok cm \<and> (\<forall>p \<in> set cm. section_ok p)"

lemma sm_put_last: "\<forall>k' \<in> fst ` set m. k' < k \<Longrightarrow> sm_put k v m = m @ [(k, v)]"
  by (induction m rule: sm_put.induct [where ?a0.0 = k and ?a1.0 = v]) auto

lemma sm_put_replace: "\<forall>k' \<in> fst ` set m. k' < k \<Longrightarrow> sm_put k v (m @ [(k, w)]) = m @ [(k, v)]"
  by (induction m rule: sm_put.induct [where ?a0.0 = k and ?a1.0 = v]) auto

lemma map_of_last: "\<forall>k' \<in> fst ` set m. k' < (k :: 'a::order) \<Longrightarrow> map_of m k = None"
  by (force simp: map_of_eq_None_iff)

lemma sm_ok_snocD: "sm_ok (m @ (k, v) # r) \<Longrightarrow> \<forall>k' \<in> fst ` set m. k' < k"
  by (auto simp: sm_ok_def sorted_wrt_append)

lemma name_no_newline: "name_ok n \<Longrightarrow> newline \<notin> set n"
  using name_char_simps(7) unfolding name_ok_def list_all_iff by blast

lemma getlines_line: "newline \<notin> set l \<Longrightarrow> getlines acc (l @ newline # s) = (acc @ l) # getlines [] s"
  by (induction l arbitrary: acc) auto

lemma getlines_lines: "\<forall>l \<in> set ls. newline \<notin> set l \<Longrightarrow> getlines [] (concat (map (\<lambda>l. l @ [newline]) ls)) = ls"
  by (induction ls) (simp_all add: getlines_line)

lemma getlines_ini_text:
  assumes "\<forall>p \<in> set cm. section_ok p"
  shows "getlines [] (ini_text cm) = ini_lines cm"
proof -
  have "newline \<notin> set (section_line n)" if "name_ok n" for n
    using name_no_newline [OF that] by (simp add: section_line_def newline_def)
  moreover have "newline \<notin> set (pair_line kv)" if "name_ok (fst kv)" "value_ok (snd kv)" for kv
    using name_no_newline [OF that(1)] that(2) by (simp add: pair_line_def value_ok_def newline_def quote_char_def)
  ultimately have "\<forall>l \<in> set (ini_lines cm). newline \<notin> set l"
    using assms by (fastforce simp: ini_lines_def section_ok_def)
  then show ?thesis by (simp add: ini_text_def getlines_lines)
qed

lemma read_section_line:
  assumes "name_ok n"
  shows "read_line (section_line n) st = new_section n st"
proof -
  have "rx_section (section_line n) = Some n"
    unfolding rx_section_iff using assms by (intro exI [of _ "[]"]) (simp add: section_line_def name_ok_def blanks_def comment_def)
  then show ?thesis by (simp add: read_line_def matches_def section_line_def sbind_def split: prod.splits sum.splits)
qed

lemma read_pair_line:
  assumes "name_ok k" "value_ok v"
  shows "read_line (pair_line (k, v)) st = add_key_value_pair k v st"
proof -
  let ?l = "pair_line (k, v)"
  obtain c cs where k: "k = c # cs" "name_char c" using assms(1) by (cases k) (auto simp: name_ok_def)
  then have c: "c \<noteq> CHR ''[''" "c \<noteq> CHR '';''" by auto
  have key: "rx_key ?l = Some (k, quote_char # v @ [quote_char])"
    unfolding rx_key_iff using assms(1)
    by (intro exI [of _ "'' ''"]) (simp add: pair_line_def name_ok_def blanks_def is_space_def quote_char_def)
  have "rx_section ?l = None" using c by (simp add: rx_section_def pair_line_def k split: list.splits)
  moreover have "rx_value ?l = None" by (simp add: rx_value_def key)
  moreover have "rx_string_value ?l = Some (k, v)"
    unfolding rx_string_value_iff key using assms(2)
    by (intro exI [of _ "[]"]) (simp add: value_ok_def tail_def blanks_def comment_def)
  moreover have "?l \<noteq> []" "hd ?l \<noteq> CHR '';''" using c by (simp_all add: pair_line_def k)
  ultimately show ?thesis by (simp add: read_line_def matches_def sbind_def split: prod.splits sum.splits)
qed

lemma read_pairs:
  assumes "sm_ok (fin @ kvs)" "\<forall>kv \<in> set kvs. name_ok (fst kv) \<and> value_ok (snd kv)" "sec \<noteq> []" "\<forall>k' \<in> fst ` set cm. k' < sec"
  shows "read_lines (map pair_line kvs @ ls) (cm @ [(sec, fin)], sec) = read_lines ls (cm @ [(sec, fin @ kvs)], sec)"
  using assms(1,2)
proof (induction kvs arbitrary: fin)
  case (Cons kv kvs)
  obtain k v where kv: "kv = (k, v)" by (cases kv)
  have less: "\<forall>k' \<in> fst ` set fin. k' < k" using sm_ok_snocD [of fin k v kvs] Cons.prems(1) by (simp add: kv)
  have "map_of (cm @ [(sec, fin)]) sec = Some fin" using map_of_last [OF assms(4)] by (simp add: map_add_def)
  then have "add_key_value_pair k v (cm @ [(sec, fin)], sec) = (Inr (), cm @ [(sec, fin @ [(k, v)])], sec)"
    using map_of_last [OF less] assms(3)
    by (simp add: add_key_value_pair_def sm_put_last [OF less] sm_put_replace [OF assms(4)])
  then have "read_line (pair_line kv) (cm @ [(sec, fin)], sec) = (Inr (), cm @ [(sec, fin @ [(k, v)])], sec)"
    using Cons.prems(2) by (simp add: kv read_pair_line)
  then have "read_lines (map pair_line (kv # kvs) @ ls) (cm @ [(sec, fin)], sec)
      = read_lines (map pair_line kvs @ ls) (cm @ [(sec, fin @ [(k, v)])], sec)" by (simp add: sbind_def)
  also have "\<dots> = read_lines ls (cm @ [(sec, (fin @ [(k, v)]) @ kvs)], sec)"
    by (rule Cons.IH) (use Cons.prems in \<open>simp_all add: kv\<close>)
  finally show ?case by (simp add: kv)
qed simp

lemma read_sections:
  assumes "sm_ok (fin @ cm)" "\<forall>p \<in> set cm. section_ok p"
  shows "\<exists>sec'. read_lines (ini_lines cm) (fin, sec) = (Inr (), fin @ cm, sec')"
  using assms
proof (induction cm arbitrary: fin sec)
  case (Cons p cm)
  obtain n kvs where p: "p = (n, kvs)" by (cases p)
  have less: "\<forall>k' \<in> fst ` set fin. k' < n" using sm_ok_snocD [of fin n kvs cm] Cons.prems(1) by (simp add: p)
  have ok: "name_ok n" "sm_ok ([] @ kvs)" "\<forall>kv \<in> set kvs. name_ok (fst kv) \<and> value_ok (snd kv)"
    using Cons.prems(2) by (auto simp: p section_ok_def)
  have "read_line (section_line n) (fin, sec) = (Inr (), fin @ [(n, [])], n)"
    using map_of_last [OF less] by (simp add: read_section_line [OF ok(1)] new_section_def sm_put_last [OF less])
  moreover have "n \<noteq> []" using ok(1) by (simp add: name_ok_def)
  note read_pairs [OF ok(2,3) this less, of "ini_lines cm"]
  ultimately have "read_lines (ini_lines (p # cm)) (fin, sec) = read_lines (ini_lines cm) (fin @ [(n, kvs)], n)"
    by (simp add: ini_lines_def p sbind_def)
  moreover have "\<exists>sec'. read_lines (ini_lines cm) (fin @ [(n, kvs)], n) = (Inr (), (fin @ [(n, kvs)]) @ cm, sec')"
    by (rule Cons.IH) (use Cons.prems in \<open>simp_all add: p\<close>)
  ultimately show ?case by (simp add: p)
qed (simp add: ini_lines_def)

text \<open>A decimal number without leading zero is what the patterns of \<open>read_from\<close> capture.\<close>

lemma dec_string_digits: "dec_string n \<noteq> [] \<and> list_all is_digit (dec_string n)"
  by (induction n rule: dec_string.induct) (subst dec_string.simps, auto simp: dec_string.simps is_digit_dec_digit)

lemma dec_string_hd: "0 < n \<Longrightarrow> CHR ''1'' \<le> hd (dec_string n) \<and> hd (dec_string n) \<le> CHR ''9''"
proof (induction n rule: dec_string.induct)
  case (1 n)
  show ?case
  proof (cases "n < 10")
    case True
    with 1(2) have "n \<in> {1, 2, 3, 4, 5, 6, 7, 8, 9}" by auto
    then show ?thesis by (elim insertE emptyE; hypsubst; code_simp)
  next
    case False
    with 1 show ?thesis using dec_string_digits [of "n div 10"] by (subst (1 2) dec_string.simps) simp
  qed
qed

lemma rx_number_dec: "0 < n \<Longrightarrow> rx_number prefix (prefix @ dec_string n) = Some (dec_string n)"
  using dec_string_hd [of n] dec_string_digits [of n] by (cases "dec_string n") (simp_all add: rx_number_def)

lemma no_newline_dec: "newline \<notin> set (dec_string n)"
proof -
  have "\<not> is_digit newline" by code_simp
  then show ?thesis using dec_string_digits [of n] by (auto simp: list_all_iff)
qed

lemma rx_number_pid_line: "rx_number ''middleware.port = '' (''middleware.pid = '' @ s) = None"
  by (simp add: rx_number_def)

section \<open>Deciding the handshake\<close>

lemma encodes_new_write_buffer:
  assumes "encodes (wb_ok default_block_size default_max_write_buffer_size) wb_content
      (\<lambda>wb. default_max_write_buffer_size - wb_wr_pos wb) f b" "length b \<le> default_max_write_buffer_size"
  obtains wb where "f new_write_buffer = (Inr (), wb)" "wb_content wb = b"
  using encodesD [OF assms(1) wb_ok_new] assms(2) by (auto simp: new_write_buffer_def [THEN arg_cong [where f = wb_wr_pos]])

lemma handshake_fits:
  "length (le_enc 4 a @ le_enc 4 b @ le_enc 4 c) \<le> default_max_write_buffer_size"
  "length (le_enc 1 a @ le_enc 4 b) \<le> default_max_write_buffer_size"
  by (simp_all add: default_max_write_buffer_size_def)

lemma verify_client_decides:
  assumes "rb_stream s = le_enc 4 (unat a) @ le_enc 4 (unat b) @ le_enc 4 (unat c) @ rest"
  shows "\<exists>s' ca. verify_client rb_read (s, []) = (Inr (a = magic_number \<and> b = major_version \<and> c = minor_version), (s', ca))"
proof -
  have ca: "cache_ok []" by (simp add: cache_ok_def)
  obtain s1 c1 where 1: "des_u32 rb_read (s, []) = (Inr a, (s1, c1))" "cache_ok c1"
    "rb_stream s1 = le_enc 4 (unat b) @ le_enc 4 (unat c) @ rest"
    using decodesD [OF rbuf.decodes_u32 [of 4] _ ca assms] by auto
  obtain s2 c2 where 2: "des_u32 rb_read (s1, c1) = (Inr b, (s2, c2))" "cache_ok c2" "rb_stream s2 = le_enc 4 (unat c) @ rest"
    using decodesD [OF rbuf.decodes_u32 [of 4] _ 1(2,3)] by auto
  obtain s3 c3 where 3: "des_u32 rb_read (s2, c2) = (Inr c, (s3, c3))"
    using decodesD [OF rbuf.decodes_u32 [of 4] _ 2(2,3)] by (metis order_refl)
  have b: "in_range b min_compatile_major_version major_version \<longleftrightarrow> b = major_version"
    by (auto simp: in_range_def min_compatile_major_version_def major_version_def)
  have c: "in_range c min_compatile_minor_version minor_version \<longleftrightarrow> c = minor_version"
    by (auto simp: in_range_def min_compatile_minor_version_def minor_version_def)
  show ?thesis by (simp add: verify_client_def sbind_def 1 2 3 b c sret_def)
qed

lemma client_answer_reads:
  fixes r :: u8 and m :: u32
  shows "\<exists>s'. client_answer rb_read (new_read_buffer (le_enc 1 (unat r) @ le_enc 4 (unat m)), [])
      = (Inr (if r = 1 then Some m else None), s')"
proof -
  have ca: "cache_ok []" by (simp add: cache_ok_def)
  let ?s = "new_read_buffer (le_enc 1 (unat r) @ le_enc 4 (unat m))"
  have s: "rb_stream ?s = le_enc 1 (unat r) @ le_enc 4 (unat m) @ []" by (simp add: rb_stream_def new_read_buffer_def)
  obtain s1 c1 where 1: "des_u8 rb_read (?s, []) = (Inr r, (s1, c1))" "cache_ok c1" "rb_stream s1 = le_enc 4 (unat m) @ []"
    using decodesD [OF rbuf.decodes_u8 [of 4] _ ca s] by auto
  obtain s2 c2 where 2: "des_u32 rb_read (s1, c1) = (Inr m, (s2, c2))"
    using decodesD [OF rbuf.decodes_u32 [of 4] _ 1(2,3)] by (metis order_refl)
  show ?thesis unfolding client_answer_def client_accepted_def sbind_def 1 prod.case sum.case by (simp add: 2 sret_def)
qed

section \<open>Properties\<close>

text \<open>The three patterns accept exactly the lines of the regular expressions in the source, and
  what they capture is determined by the line: a section header \<open>[name]\<close>, a pair \<open>key = value\<close>
  whose value has no blank, and a pair \<open>key = "value"\<close>, each followed by blanks and a comment.\<close>

theorem ini_patterns:
  "(rx_section line = Some n \<longleftrightarrow>
     (\<exists>t. line = CHR ''['' # n @ CHR '']'' # t \<and> n \<noteq> [] \<and> list_all name_char n \<and> tail t)) \<and>
   (rx_value line = Some (k, v) \<longleftrightarrow>
     (\<exists>w1 w2 t. line = k @ w1 @ CHR ''='' # w2 @ v @ t \<and> k \<noteq> [] \<and> list_all name_char k \<and> blanks w1 \<and> blanks w2
        \<and> v \<noteq> [] \<and> list_all value_char v \<and> tail t)) \<and>
   (rx_string_value line = Some (k, v) \<longleftrightarrow>
     (\<exists>w1 w2 t. line = k @ w1 @ CHR ''='' # w2 @ quote_char # v @ quote_char # t \<and> k \<noteq> [] \<and> list_all name_char k
        \<and> blanks w1 \<and> blanks w2 \<and> v \<noteq> [] \<and> quote_char \<notin> set v \<and> tail t))"
proof (intro conjI)
  show "rx_section line = Some n \<longleftrightarrow>
     (\<exists>t. line = CHR ''['' # n @ CHR '']'' # t \<and> n \<noteq> [] \<and> list_all name_char n \<and> tail t)"
    unfolding rx_section_iff tail_def by blast
  have "\<not> is_space (hd (v @ t))" if "v \<noteq> []" "list_all value_char v" for t
    using that blank_not_value by (cases v) auto
  then show "rx_value line = Some (k, v) \<longleftrightarrow>
     (\<exists>w1 w2 t. line = k @ w1 @ CHR ''='' # w2 @ v @ t \<and> k \<noteq> [] \<and> list_all name_char k \<and> blanks w1 \<and> blanks w2
        \<and> v \<noteq> [] \<and> list_all value_char v \<and> tail t)"
    unfolding rx_value_iff rx_key_iff by blast
  show "rx_string_value line = Some (k, v) \<longleftrightarrow>
     (\<exists>w1 w2 t. line = k @ w1 @ CHR ''='' # w2 @ quote_char # v @ quote_char # t \<and> k \<noteq> [] \<and> list_all name_char k
        \<and> blanks w1 \<and> blanks w2 \<and> v \<noteq> [] \<and> quote_char \<notin> set v \<and> tail t)"
    unfolding rx_string_value_iff rx_key_iff by auto
qed

text \<open>C24: A configuration written as an INI file is what \<open>read_ini\<close> reads from it: no section and no
  pair is lost, duplicated or reported as an error.\<close>

theorem ini_roundtrip:
  assumes "config_ok cm"
  shows "read_ini fname (Some (ini_text cm)) [] = (Inr (), cm)"
proof -
  obtain sec' where "read_lines (ini_lines cm) ([], []) = (Inr (), cm, sec')"
    using read_sections [of "[]" cm "[]"] assms by (auto simp: config_ok_def)
  then show ?thesis using assms by (simp add: read_ini_def getlines_ini_text config_ok_def)
qed

theorem ini_roundtrip_witness:
  "read_ini ''f'' (Some (ini_text [(''global'', [(''log_level'', ''info'')]), (''ip'', [(''file'', ''/lib/ip.so''), (''ttl'', ''a b'')])])) []
     = (Inr (), [(''global'', [(''log_level'', ''info'')]), (''ip'', [(''file'', ''/lib/ip.so''), (''ttl'', ''a b'')])])"
  by (rule ini_roundtrip) code_simp

text \<open>C31: The file that a running middleware writes is read back by a client with the same port and
  process id, for every port and process id that is not zero. The port as a string is not
  restored: it stays \<open>"0"\<close>.\<close>

theorem middleware_configuration_roundtrip:
  assumes "lexical_cast_string p = dec_string (unat p)" "lc_port (dec_string (unat p)) = Some p"
    and "lc_pid (dec_string (nat pid)) = Some pid" and "p \<noteq> 0" "0 < pid"
  shows "mc_read_from lc_port lc_pid (mc_write_to (new_middleware_configuration lexical_cast_string pid p)) mc
    = (True, \<lparr>mc_port = p, mc_str_port = ''0'', mc_pid = pid\<rparr>)"
proof -
  let ?l1 = "''middleware.port = '' @ dec_string (unat p)" and ?l2 = "''middleware.pid = '' @ dec_string (nat pid)"
  have p: "0 < unat p" using assms(4) by (simp add: unat_gt_0)
  have lines: "getlines [] (mc_write_to (new_middleware_configuration lexical_cast_string pid p)) = [?l1, ?l2]"
  proof -
    have t: "mc_write_to (new_middleware_configuration lexical_cast_string pid p) = concat (map (\<lambda>l. l @ [newline]) [?l1, ?l2])"
      using assms(1,5) by (simp add: mc_write_to_def new_middleware_configuration_def int_string_def)
    have "newline \<notin> set ?l1" "newline \<notin> set ?l2" using no_newline_dec by (auto simp: newline_def)
    then show ?thesis unfolding t by (intro getlines_lines) auto
  qed
  have "rx_number ''middleware.port = '' ?l1 = Some (dec_string (unat p))"
    "rx_number ''middleware.pid = '' ?l2 = Some (dec_string (nat pid))"
    "rx_number ''middleware.port = '' ?l2 = None"
    using p assms(5) rx_number_pid_line [of "dec_string (nat pid)"]
    by (simp_all only: rx_number_dec zero_less_nat_eq)
  then show ?thesis
    unfolding mc_read_from_def lines using assms(2,3) by (simp only: mc_read_lines.simps) simp
qed

theorem middleware_configuration_roundtrip_witness:
  "mc_read_from (\<lambda>s. if s = ''1234'' then Some 1234 else None) (\<lambda>s. if s = ''77'' then Some 77 else None)
     (mc_write_to (new_middleware_configuration (\<lambda>p. dec_string (unat p)) 77 1234)) empty_middleware_configuration
   = (True, \<lparr>mc_port = 1234, mc_str_port = ''0'', mc_pid = 77\<rparr>)"
proof -
  have "dec_string (unat (1234 :: u16)) = ''1234''" "dec_string (nat 77) = ''77''" by code_simp+
  then show ?thesis by (intro middleware_configuration_roundtrip) simp_all
qed

text \<open>C23: The handshake. What a client of this version sends is the magic number and its version, the
  middleware accepts exactly the clients that send those, and its answer tells the client so:
  an accepted client learns the maximum message size, a rejected one throws.\<close>

theorem handshake:
  "(\<exists>wb. client_hello wr_buf new_write_buffer = (Inr (), wb) \<and>
     wb_content wb = le_enc 4 (unat magic_number) @ le_enc 4 (unat major_version) @ le_enc 4 (unat minor_version)) \<and>
   (\<exists>i out s. client_compatible rb_read wr_buf max_msg_size
       (new_read_buffer (le_enc 4 (unat a) @ le_enc 4 (unat b) @ le_enc 4 (unat c))) new_write_buffer
     = (Inr (a = magic_number \<and> b = major_version \<and> c = minor_version), i, out) \<and>
     client_answer rb_read (new_read_buffer (wb_content out), [])
     = (Inr (if a = magic_number \<and> b = major_version \<and> c = minor_version then Some max_msg_size else None), s))"
proof (intro conjI)
  have "encodes (wb_ok default_block_size default_max_write_buffer_size) wb_content
      (\<lambda>wb. default_max_write_buffer_size - wb_wr_pos wb) (client_hello wr_buf)
      (le_enc 4 (unat magic_number) @ le_enc 4 (unat major_version) @ le_enc 4 (unat minor_version))"
    unfolding client_hello_def by (intro enc_intros wbuf.encodes_u32)
  from encodes_new_write_buffer [OF this] obtain wb where "client_hello wr_buf new_write_buffer = (Inr (), wb)"
    "wb_content wb = le_enc 4 (unat magic_number) @ le_enc 4 (unat major_version) @ le_enc 4 (unat minor_version)"
    by (metis handshake_fits(1))
  then show "\<exists>wb. client_hello wr_buf new_write_buffer = (Inr (), wb) \<and>
     wb_content wb = le_enc 4 (unat magic_number) @ le_enc 4 (unat major_version) @ le_enc 4 (unat minor_version)" by blast
next
  let ?ok = "a = magic_number \<and> b = major_version \<and> c = minor_version"
  let ?in = "new_read_buffer (le_enc 4 (unat a) @ le_enc 4 (unat b) @ le_enc 4 (unat c))"
  let ?r = "if ?ok then 1 else 0 :: u8"
  have "rb_stream ?in = le_enc 4 (unat a) @ le_enc 4 (unat b) @ le_enc 4 (unat c) @ []"
    by (simp add: rb_stream_def new_read_buffer_def)
  from verify_client_decides [OF this] obtain i ca where 1: "verify_client rb_read (?in, []) = (Inr ?ok, (i, ca))" by blast
  have "encodes (wb_ok default_block_size default_max_write_buffer_size) wb_content
      (\<lambda>wb. default_max_write_buffer_size - wb_wr_pos wb) (sbind (ser_u8 wr_buf ?r) (\<lambda>_. ser_u32 wr_buf max_msg_size))
      (le_enc 1 (unat ?r) @ le_enc 4 (unat max_msg_size))"
    by (intro enc_intros wbuf.encodes_u32 wbuf.encodes_u8)
  from encodes_new_write_buffer [OF this] obtain out where 2:
    "sbind (ser_u8 wr_buf ?r) (\<lambda>_. ser_u32 wr_buf max_msg_size) new_write_buffer = (Inr (), out)"
    "wb_content out = le_enc 1 (unat ?r) @ le_enc 4 (unat max_msg_size)"
    by (metis handshake_fits(2))
  obtain s where 3: "client_answer rb_read (new_read_buffer (wb_content out), []) = (Inr (if ?r = 1 then Some max_msg_size else None), s)"
    using client_answer_reads [of ?r max_msg_size] unfolding 2 by blast
  show "\<exists>i out s. client_compatible rb_read wr_buf max_msg_size ?in new_write_buffer = (Inr ?ok, i, out) \<and>
     client_answer rb_read (new_read_buffer (wb_content out), []) = (Inr (if ?ok then Some max_msg_size else None), s)"
  proof (intro exI conjI)
    show "client_compatible rb_read wr_buf max_msg_size ?in new_write_buffer = (Inr ?ok, i, out)"
      unfolding client_compatible_def 1 prod.case sum.case Let_def 2(1) by simp
    show "client_answer rb_read (new_read_buffer (wb_content out), []) = (Inr (if ?ok then Some max_msg_size else None), s)"
      unfolding 3 by simp
  qed
qed

end
