(* ===== verification/Chimera.thy ===== *)
theory Chimera
  imports Std_Map
begin

text \<open>
  Keys, hosts and messages of the Chimera overlay (\<open>utils/chimera/src/key.c\<close>, \<open>host.c\<close>,
  \<open>message.c\<close> and \<open>find_closest_key\<close> of \<open>route.c\<close>), as the Scribe module uses them.

  A key is a number of 96 bits in three words, the least significant first. The lemmas show
  what the word loops compute: order, difference, distance on the ring, membership in an arc
  and the number of digits two keys have in common. Hosts and messages survive the wire.
\<close>

unbundle bit_operations_syntax

section \<open>Keys\<close>

text \<open>The field \<open>valid\<close> of the code is written but never read.\<close>

datatype key = Key (t0: u32) (t1: u32) (t2: u32)

definition key_t :: "key \<Rightarrow> u32 list" where
  "key_t k = [t0 k, t1 k, t2 k]"

definition key_of :: "u32 list \<Rightarrow> key" where
  "key_of ws = Key (ws ! 0) (ws ! 1) (ws ! 2)"

text \<open>The loops of \<open>key_comp\<close> and \<open>key_sub\<close>; the arithmetic on doubles is exact for words.\<close>

fun comp_words :: "u32 list \<Rightarrow> u32 list \<Rightarrow> int" where
  "comp_words (a # as) (b # bs) = (if a > b then 1 else if a < b then -1 else comp_words as bs)"
| "comp_words _ _ = 0"

definition key_comp :: "key \<Rightarrow> key \<Rightarrow> int" where
  "key_comp k1 k2 = comp_words (rev (key_t k1)) (rev (key_t k2))"

definition key_equal :: "key \<Rightarrow> key \<Rightarrow> bool" where
  "key_equal k1 k2 \<longleftrightarrow> list_all2 (=) (key_t k1) (key_t k2)"

definition key_assign_ui :: "u32 \<Rightarrow> key" where
  "key_assign_ui ul = Key ul 0 0"

definition key_equal_ui :: "key \<Rightarrow> u32 \<Rightarrow> bool" where
  "key_equal_ui k ul \<longleftrightarrow> t0 k = ul \<and> t1 k = 0 \<and> t2 k = 0"

fun sub_words :: "int \<Rightarrow> u32 list \<Rightarrow> u32 list \<Rightarrow> u32 list" where
  "sub_words carry (a # as) (b # bs) =
     (let a' = uint a - carry in
      if uint b \<le> a' then word_of_int (a' - uint b) # sub_words 0 as bs
      else word_of_int (a' + 0xFFFFFFFF + 1 - uint b) # sub_words 1 as bs)"
| "sub_words carry _ _ = []"

text \<open>\<open>result\<close> is the key that is overwritten; it stays when the first operand is the smaller one.\<close>

definition key_sub :: "key \<Rightarrow> key \<Rightarrow> key \<Rightarrow> key" where
  "key_sub result op1 op2 =
     (if key_comp op1 op2 < 0 then result else key_of (sub_words 0 (key_t op1) (key_t op2)))"

definition Key_Max :: key where
  "Key_Max = Key 0xFFFFFFFF 0xFFFFFFFF 0xFFFFFFFF"

definition Key_Half :: key where
  "Key_Half = Key 0xFFFFFFFF 0xFFFFFFFF (0xFFFFFFFF div 2)"

definition key_distance :: "key \<Rightarrow> key \<Rightarrow> key \<Rightarrow> key" where
  "key_distance diff0 k1 k2 =
     (let diff = (if key_comp k1 k2 > 0 then key_sub diff0 k1 k2 else key_sub diff0 k2 k1) in
      if key_comp diff Key_Half > 0 then key_sub diff Key_Max diff else diff)"

definition key_between :: "key \<Rightarrow> key \<Rightarrow> key \<Rightarrow> bool" where
  "key_between test left right =
     (let complr = key_comp left right; complt = key_comp left test; comptr = key_comp test right in
      if complt = 0 \<or> comptr = 0 then True
      else if complr < 0 then complt < 0 \<and> comptr < 0
      else if complr = 0 then False
      else complt < 0 \<or> comptr < 0)"

text \<open>Keys have 48 digits to the base 4, 16 in each word.\<close>

function shift_loop :: "u32 \<Rightarrow> u32 \<Rightarrow> int \<Rightarrow> int" where
  "shift_loop a b tmp = (if a \<noteq> b then shift_loop (drop_bit 2 a) (drop_bit 2 b) (tmp - 1) else tmp)"
  by auto

lemma unat_drop2: "unat (drop_bit 2 (a :: u32)) = unat a div 4"
  by (simp add: drop_bit_eq_div unat_div)

termination shift_loop
proof (relation "measure (\<lambda>(a, b, _). unat a + unat b)")
  fix a b :: u32 and tmp :: int
  assume "a \<noteq> b"
  then have "unat a \<noteq> 0 \<or> unat b \<noteq> 0" by (auto simp: unat_eq_0)
  then have "unat a div 4 + unat b div 4 < unat a + unat b" by linarith
  then show "((drop_bit 2 a, drop_bit 2 b, tmp - 1), a, b, tmp) \<in> measure (\<lambda>(a, b, _). unat a + unat b)"
    by (simp add: unat_drop2)
qed simp

declare shift_loop.simps [simp del]

fun index_loop :: "u32 list \<Rightarrow> u32 list \<Rightarrow> int \<Rightarrow> int" where
  "index_loop (a # as) (b # bs) i =
     (if a = b then if i + 16 = 48 then 47 else index_loop as bs (i + 16)
      else i + shift_loop a b 16)"
| "index_loop _ _ i = i"

definition key_index_int :: "key \<Rightarrow> key \<Rightarrow> int" where
  "key_index_int mykey k = index_loop (rev (key_t mykey)) (rev (key_t k)) 0"

definition get_col :: "key \<Rightarrow> nat \<Rightarrow> u32" where
  "get_col k i =
     (if i > 47 then 0
      else let jump = i div 16; i' = i - jump * 16; g = key_t k ! (2 - jump) in
        drop_bit 30 (push_bit (i' * 2) g))"

section \<open>Hosts\<close>

text \<open>
  Of a host its key, address (in host order) and port; statistics of the link are left out.
  The cache of hosts is a map from address and port to the key; a new entry has the key 0
  until a key is known. That the cache forgets hosts nobody refers to is left out.
\<close>

record chimera_host =
  host_key :: key
  host_address :: u32
  host_port :: u16

type_synonym host_cache = "u32 \<times> u16 \<Rightarrow> key option"

definition write_u16_to_buffer :: "u16 \<Rightarrow> bytes" where
  "write_u16_to_buffer w = rev (le_enc 2 (unat w))"

definition write_u32_to_buffer :: "u32 \<Rightarrow> bytes" where
  "write_u32_to_buffer w = rev (le_enc 4 (unat w))"

definition read_u16_from_buffer :: "bytes \<Rightarrow> u16" where
  "read_u16_from_buffer b = of_nat (le_dec (rev (take 2 b)))"

definition read_u32_from_buffer :: "bytes \<Rightarrow> u32" where
  "read_u32_from_buffer b = of_nat (le_dec (rev (take 4 b)))"

definition write_key_to_buffer :: "key \<Rightarrow> bytes" where
  "write_key_to_buffer k = concat (map write_u32_to_buffer (key_t k))"

definition read_key_from_buffer :: "bytes \<Rightarrow> key" where
  "read_key_from_buffer b =
     Key (read_u32_from_buffer b) (read_u32_from_buffer (drop 4 b)) (read_u32_from_buffer (drop 8 b))"

definition HOST_CODED_SIZE :: nat where
  "HOST_CODED_SIZE = 18"

text \<open>The buffers of all callers have room for an encoded host.\<close>

definition host_encode :: "chimera_host \<Rightarrow> bytes" where
  "host_encode host =
     write_key_to_buffer (host_key host) @ write_u32_to_buffer (host_address host) @ write_u16_to_buffer (host_port host)"

definition host_get :: "u32 \<Rightarrow> u16 \<Rightarrow> host_cache \<Rightarrow> chimera_host \<times> host_cache" where
  "host_get addr port hg =
     (case hg (addr, port) of
        Some k \<Rightarrow> (\<lparr>host_key = k, host_address = addr, host_port = port\<rparr>, hg)
      | None \<Rightarrow> (\<lparr>host_key = key_assign_ui 0, host_address = addr, host_port = port\<rparr>,
                 hg((addr, port) \<mapsto> key_assign_ui 0)))"

definition host_decode :: "bytes \<Rightarrow> host_cache \<Rightarrow> chimera_host \<times> host_cache" where
  "host_decode s hg =
     (let k = read_key_from_buffer s;
          addr = read_u32_from_buffer (drop 12 s);
          port = read_u16_from_buffer (drop 16 s);
          (host, hg1) = host_get addr port hg
      in if key_equal_ui (host_key host) 0
         then (host\<lparr>host_key := k\<rparr>, hg1((addr, port) \<mapsto> k)) else (host, hg1))"

section \<open>Messages\<close>

record chimera_msg =
  cm_dst :: key
  cm_src :: key
  cm_port :: u16
  cm_type :: u16
  cm_size :: u16
  cm_payload :: bytes

definition CHIMERA_HEADER_SIZE :: nat where
  "CHIMERA_HEADER_SIZE = 30"

definition chimera_message_create :: "key \<Rightarrow> key \<Rightarrow> u16 \<Rightarrow> u16 \<Rightarrow> u16 \<Rightarrow> bytes \<Rightarrow> chimera_msg" where
  "chimera_message_create dst src port type sz payload =
     \<lparr>cm_dst = dst, cm_src = src, cm_port = port, cm_type = type, cm_size = sz, cm_payload = take (unat sz) payload\<rparr>"

definition write_header_to_buffer :: "chimera_msg \<Rightarrow> bytes" where
  "write_header_to_buffer msg =
     write_key_to_buffer (cm_dst msg) @ write_key_to_buffer (cm_src msg) @ write_u16_to_buffer (cm_port msg)
     @ write_u16_to_buffer (cm_type msg) @ write_u16_to_buffer (cm_size msg)"

text \<open>What \<open>message_send\<close> hands to the network, and how a received packet becomes a message.\<close>

definition message_bytes :: "chimera_msg \<Rightarrow> bytes" where
  "message_bytes msg = write_header_to_buffer msg @ cm_payload msg"

definition chimera_read_buffer :: "bytes \<Rightarrow> chimera_msg res" where
  "chimera_read_buffer buf =
     (if length buf < CHIMERA_HEADER_SIZE then Inl (Undefined_behaviour ''header read past the end of the packet'')
      else Inr \<lparr>cm_dst = read_key_from_buffer buf, cm_src = read_key_from_buffer (drop 12 buf),
                cm_port = read_u16_from_buffer (drop 24 buf), cm_type = read_u16_from_buffer (drop 26 buf),
                cm_size = read_u16_from_buffer (drop 28 buf), cm_payload = drop CHIMERA_HEADER_SIZE buf\<rparr>)"

section \<open>The closest host\<close>

fun closest_loop :: "key \<Rightarrow> chimera_host list \<Rightarrow> chimera_host \<Rightarrow> key \<Rightarrow> chimera_host" where
  "closest_loop key [] mn mindif = mn"
| "closest_loop key (h # hs) mn mindif =
     (let dif = key_distance mindif (host_key h) key in
      if key_comp dif mindif < 0 then closest_loop key hs h dif else closest_loop key hs mn mindif)"

definition find_closest_key :: "chimera_host list \<Rightarrow> key \<Rightarrow> chimera_host option" where
  "find_closest_key hosts key =
     (case hosts of
        [] \<Rightarrow> None
      | h # hs \<Rightarrow> Some (closest_loop key hs h (key_distance key (host_key h) key)))"

section \<open>Keys as numbers\<close>

definition words_val :: "u32 list \<Rightarrow> int" where
  "words_val ws = foldr (\<lambda>w v. uint w + 2 ^ 32 * v) ws 0"

definition key_val :: "key \<Rightarrow> int" where
  "key_val k = words_val (key_t k)"

lemma words_val_simps [simp]: "words_val [] = 0" "words_val (w # ws) = uint w + 2 ^ 32 * words_val ws"
  by (simp_all add: words_val_def)

lemma key_val_Key: "key_val (Key a b c) = uint a + 2 ^ 32 * (uint b + 2 ^ 32 * uint c)"
  by (simp add: key_val_def key_t_def)

lemma uint_bounds32: "0 \<le> uint (w :: u32)" "uint (w :: u32) < 2 ^ 32"
  using uint_lt2p [of w] by simp_all

lemma uint_word_of_int32: "0 \<le> x \<Longrightarrow> x < 4294967296 \<Longrightarrow> uint (word_of_int x :: u32) = x"
  by (simp add: uint_word_of_int)

lemma words_val_bounds: "0 \<le> words_val ws \<and> words_val ws < (2 ^ 32) ^ length ws"
proof (induction ws)
  case (Cons w ws)
  have "words_val ws \<le> (2 ^ 32) ^ length ws - 1" using Cons by simp
  then have "2 ^ 32 * words_val ws \<le> 2 ^ 32 * ((2 ^ 32) ^ length ws - 1)" by simp
  with uint_bounds32 [of w] Cons show ?case by (simp add: algebra_simps)
qed simp

lemma key_val_bounds: "0 \<le> key_val k" "key_val k < 2 ^ 96"
  using words_val_bounds [of "key_t k"] by (simp_all add: key_val_def key_t_def)

lemma less_digit:
  fixes x y h h' n :: int
  assumes "0 \<le> x" "x < n" "0 \<le> y" "y < n"
  shows "x + n * h < y + n * h' \<longleftrightarrow> h < h' \<or> h = h' \<and> x < y"
proof -
  have 1: "x + n * h < y + n * h'" if "h < h'" "0 \<le> y" "x < n" for x y h h' :: int
  proof -
    have "n * (h + 1) \<le> n * h'" using that assms by (intro mult_left_mono) auto
    with that show ?thesis by (simp add: algebra_simps)
  qed
  from 1 [of h h' y x] 1 [of h' h x y] assms show ?thesis by (cases h h' rule: linorder_cases) auto
qed

lemma eq_digit:
  fixes x y h h' n :: int
  assumes "0 \<le> x" "x < n" "0 \<le> y" "y < n"
  shows "x + n * h = y + n * h' \<longleftrightarrow> h = h' \<and> x = y"
  using less_digit [OF assms, of h h'] less_digit [OF assms(3,4,1,2), of h' h] by auto

lemma key_val_less:
  "key_val (Key a b c) < key_val (Key a' b' c') \<longleftrightarrow> c < c' \<or> c = c' \<and> (b < b' \<or> b = b' \<and> a < a')"
  unfolding key_val_Key less_digit [OF uint_bounds32 uint_bounds32] eq_digit [OF uint_bounds32 uint_bounds32]
  by (auto simp: word_less_def word_uint_eq_iff)

lemma key_comp_iff:
  "key_comp j k < 0 \<longleftrightarrow> key_val j < key_val k" "key_comp j k > 0 \<longleftrightarrow> key_val j > key_val k"
  "key_comp j k = 0 \<longleftrightarrow> j = k"
  by (cases j; cases k; auto simp: key_comp_def key_t_def key_val_less)+

lemma key_val_inject: "key_val j = key_val k \<longleftrightarrow> j = k"
proof -
  have "key_comp j k = 0 \<longleftrightarrow> \<not> key_comp j k < 0 \<and> \<not> key_comp j k > 0" by auto
  then show ?thesis unfolding key_comp_iff by auto
qed

instantiation key :: linorder
begin

definition less_key :: "key \<Rightarrow> key \<Rightarrow> bool" where
  "less_key j k \<longleftrightarrow> key_comp j k < 0"

definition less_eq_key :: "key \<Rightarrow> key \<Rightarrow> bool" where
  "less_eq_key j k \<longleftrightarrow> key_comp j k \<le> 0"

instance
proof
  fix x y z :: key
  have le: "x \<le> y \<longleftrightarrow> key_val x \<le> key_val y" for x y
    using key_comp_iff(2) [of x y] by (auto simp: less_eq_key_def)
  have less: "x < y \<longleftrightarrow> key_val x < key_val y" for x y by (simp add: less_key_def key_comp_iff)
  show "x < y \<longleftrightarrow> x \<le> y \<and> \<not> y \<le> x" by (auto simp: le less)
  show "x \<le> x" by (simp add: le)
  show "x \<le> y \<Longrightarrow> y \<le> z \<Longrightarrow> x \<le> z" by (simp add: le)
  show "x \<le> y \<Longrightarrow> y \<le> x \<Longrightarrow> x = y" by (simp add: le flip: key_val_inject)
  show "x \<le> y \<or> y \<le> x" by (auto simp: le)
qed

end

lemma key_equal_iff [simp]: "key_equal j k \<longleftrightarrow> j = k"
  by (cases j; cases k) (auto simp: key_equal_def key_t_def)

lemma key_equal_ui_iff: "key_equal_ui k 0 \<longleftrightarrow> k = key_assign_ui 0"
  by (cases k) (auto simp: key_equal_ui_def key_assign_ui_def)

lemma length_sub_words: "length as = length bs \<Longrightarrow> length (sub_words c as bs) = length as"
  by (induction c as bs rule: sub_words.induct) (auto simp: Let_def)

text \<open>Where a digit is smaller, the borrow goes to the next word; no intermediate value leaves the word.\<close>

lemma sub_words_val:
  assumes "length as = length bs" "0 \<le> c" "c \<le> 1"
  shows "\<exists>d. words_val (sub_words c as bs) = words_val as - words_val bs - c + (2 ^ 32) ^ length as * d
    \<and> 0 \<le> d \<and> d \<le> 1"
  using assms
proof (induction c as bs rule: sub_words.induct)
  case (1 c a as b bs)
  let ?a = "uint a - c"
  have ub: "0 \<le> uint a" "uint a < 4294967296" "0 \<le> uint b" "uint b < 4294967296"
    using uint_bounds32 [of a] uint_bounds32 [of b] by simp_all
  show ?case
  proof (cases "uint b \<le> ?a")
    case True
    from 1(1) [OF refl True] 1(3) obtain d where
      d: "words_val (sub_words 0 as bs) = words_val as - words_val bs + (2 ^ 32) ^ length as * d" "0 \<le> d" "d \<le> 1" by auto
    have "uint (word_of_int (?a - uint b) :: u32) = ?a - uint b"
      using True ub 1(4,5) by (intro uint_word_of_int32) linarith+
    with True d show ?thesis by (intro exI [of _ d]) (simp add: algebra_simps)
  next
    case False
    from 1(2) [OF refl False] 1(3) obtain d where
      d: "words_val (sub_words 1 as bs) = words_val as - words_val bs - 1 + (2 ^ 32) ^ length as * d" "0 \<le> d" "d \<le> 1" by auto
    have "uint (word_of_int (?a + 0xFFFFFFFF + 1 - uint b) :: u32) = ?a + 0xFFFFFFFF + 1 - uint b"
      using False ub 1(4,5) by (intro uint_word_of_int32) linarith+
    with False d show ?thesis by (intro exI [of _ d]) (simp add: algebra_simps)
  qed
qed simp_all

lemma key_of_t: "length ws = 3 \<Longrightarrow> key_t (key_of ws) = ws"
  by (auto simp: key_of_def key_t_def numeral_3_eq_3 length_Suc_conv)

lemma key_sub_val:
  assumes "key_val k \<le> key_val j"
  shows "key_val (key_sub r j k) = key_val j - key_val k"
proof -
  let ?ws = "sub_words 0 (key_t j) (key_t k)"
  have l: "length (key_t j) = 3" "length (key_t k) = 3" by (simp_all add: key_t_def)
  then have "key_t (key_of ?ws) = ?ws" by (intro key_of_t) (simp add: length_sub_words)
  moreover have "\<not> key_comp j k < 0" using assms by (simp add: key_comp_iff)
  ultimately have s: "key_val (key_sub r j k) = words_val ?ws" by (simp add: key_sub_def key_val_def)
  from sub_words_val [of "key_t j" "key_t k" 0] l obtain d where
    d: "words_val ?ws = key_val j - key_val k + (2 ^ 32) ^ 3 * d" "0 \<le> d" "d \<le> 1" by (auto simp: key_val_def)
  have "words_val ?ws < (2 ^ 32) ^ 3" using words_val_bounds [of ?ws] l by (simp add: length_sub_words)
  with d assms have "d = 0" by (cases "d = 1") auto
  with d s show ?thesis by simp
qed

lemma key_val_consts [simp]: "key_val Key_Max = 2 ^ 96 - 1" "key_val Key_Half = 2 ^ 95 - 1"
  by (simp_all add: Key_Max_def Key_Half_def key_val_Key)

lemma key_distance_val:
  "key_val (key_distance d j k) =
     (let diff = \<bar>key_val j - key_val k\<bar> in if diff \<ge> 2 ^ 95 then 2 ^ 96 - 1 - diff else diff)"
proof -
  define e where "e = (if key_comp j k > 0 then key_sub d j k else key_sub d k j)"
  have v: "key_val e = \<bar>key_val j - key_val k\<bar>" by (simp add: e_def key_comp_iff key_sub_val)
  have "key_val e \<le> key_val Key_Max" using key_val_bounds [of e] by simp
  from key_sub_val [OF this, of e] have "key_val (key_sub e Key_Max e) = 2 ^ 96 - 1 - key_val e" by simp
  then show ?thesis 
    unfolding key_distance_def Let_def e_def [symmetric]
    unfolding key_comp_iff(2) v [symmetric] by simp
qed

section \<open>Digits\<close>

lemma shift_loop_stops:
  assumes "a \<noteq> b"
  shows "\<exists>n. shift_loop a b tmp = tmp - int n \<and> 0 < n \<and> n \<le> 16
    \<and> drop_bit (2 * n) a = drop_bit (2 * n) b \<and> drop_bit (2 * (n - 1)) a \<noteq> drop_bit (2 * (n - 1)) b"
proof -
  have "\<exists>n. shift_loop a b tmp = tmp - int n \<and> 0 < n
    \<and> drop_bit (2 * n) a = drop_bit (2 * n) b \<and> drop_bit (2 * (n - 1)) a \<noteq> drop_bit (2 * (n - 1)) b"
    using assms
  proof (induction a b tmp rule: shift_loop.induct)
    case (1 a b tmp)
    let ?a = "drop_bit 2 a" and ?b = "drop_bit 2 b"
    have s: "shift_loop a b tmp = shift_loop ?a ?b (tmp - 1)" using 1(2) by (subst shift_loop.simps) simp
    show ?case
    proof (cases "?a = ?b")
      case True
      then have "shift_loop a b tmp = tmp - 1" unfolding s by (subst shift_loop.simps) simp
      with True 1(2) show ?thesis by (intro exI [of _ 1]) simp
    next
      case False
      from 1(1) [OF 1(2) False] obtain n where n: "shift_loop ?a ?b (tmp - 1) = tmp - 1 - int n" "0 < n"
        "drop_bit (2 * n) ?a = drop_bit (2 * n) ?b" "drop_bit (2 * (n - 1)) ?a \<noteq> drop_bit (2 * (n - 1)) ?b" by blast
      have "2 * (n - 1) + 2 = 2 * n" using n(2) by simp
      with n s show ?thesis by (intro exI [of _ "Suc n"]) (simp add: drop_bit_drop_bit)
    qed
  qed
  then obtain n where n: "shift_loop a b tmp = tmp - int n" "0 < n"
    "drop_bit (2 * n) a = drop_bit (2 * n) b" "drop_bit (2 * (n - 1)) a \<noteq> drop_bit (2 * (n - 1)) b" by blast
  have "n \<le> 16"
  proof (rule ccontr)
    assume "\<not> n \<le> 16"
    then have "drop_bit (2 * (n - 1)) a = 0" "drop_bit (2 * (n - 1)) b = 0"
      by (auto intro!: bit_word_eqI simp: bit_simps dest: bit_imp_le_length)
    with n(4) show False by simp
  qed
  with n show ?thesis by blast
qed

definition word_col :: "u32 \<Rightarrow> nat \<Rightarrow> u32" where
  "word_col w i = drop_bit 30 (push_bit (i * 2) w)"

lemma word_col_bits: "i < 16 \<Longrightarrow> word_col w i = take_bit 2 (drop_bit (2 * (15 - i)) w)"
  unfolding word_col_def
  by (rule bit_word_eqI) (auto simp: bit_simps algebra_simps dest: bit_imp_le_length)

lemma shift_loop_cols:
  assumes "a \<noteq> b"
  obtains i where "shift_loop a b 16 = int i" "i < 16" "\<forall>i' < i. word_col a i' = word_col b i'" "word_col a i \<noteq> word_col b i"
proof -
  from shift_loop_stops [OF assms, of 16] obtain n where n: "shift_loop a b 16 = 16 - int n" "0 < n" "n \<le> 16"
    "drop_bit (2 * n) a = drop_bit (2 * n) b" "drop_bit (2 * (n - 1)) a \<noteq> drop_bit (2 * (n - 1)) b" by blast
  let ?x = "drop_bit (2 * (n - 1)) a" and ?y = "drop_bit (2 * (n - 1)) b"
  have "drop_bit m a = drop_bit m b" if "2 * n \<le> m" for m
    using arg_cong [OF n(4), of "drop_bit (m - 2 * n)"] that by (simp add: drop_bit_drop_bit)
  then have "\<forall>i' < 16 - n. word_col a i' = word_col b i'" using n(2,3) by (auto simp: word_col_bits)
  moreover have "2 * (n - 1) + 2 = 2 * n" using n(2) by simp
  then have "drop_bit 2 ?x = drop_bit 2 ?y" using n(4) by (simp only: drop_bit_drop_bit add.commute [of 2])
  then have "take_bit 2 ?x \<noteq> take_bit 2 ?y" using n(5) bits_ident [of 2 ?x] bits_ident [of 2 ?y] by metis
  then have "word_col a (16 - n) \<noteq> word_col b (16 - n)" using n(2,3) by (simp add: word_col_bits)
  ultimately show thesis using n(1-3) by (intro that [of "16 - n"]) (auto simp: of_nat_diff)
qed

lemma get_col_word:
  "get_col (Key a b c) i =
     (if i < 16 then word_col c i else if i < 32 then word_col b (i - 16) else if i < 48 then word_col a (i - 32) else 0)"
proof -
  consider "i < 16" | "16 \<le> i" "i < 32" | "32 \<le> i" "i < 48" | "48 \<le> i" by linarith
  then show ?thesis
  proof cases
    case 2
    then have "i div 16 = 1" by simp
    with 2 show ?thesis by (simp add: get_col_def key_t_def word_col_def)
  next
    case 3
    then have "i div 16 = 2" by simp
    with 3 show ?thesis by (simp add: get_col_def key_t_def word_col_def)
  qed (simp_all add: get_col_def key_t_def word_col_def)
qed

section \<open>The wire\<close>

lemma read_write_u16 [simp]: "read_u16_from_buffer (write_u16_to_buffer w @ r) = w"
  using unsigned_less [of w, where ?'a = nat] by (simp add: read_u16_from_buffer_def write_u16_to_buffer_def le_dec_enc del: le_enc.simps)

lemma read_write_u32 [simp]: "read_u32_from_buffer (write_u32_to_buffer w @ r) = w"
  using unsigned_less [of w, where ?'a = nat] by (simp add: read_u32_from_buffer_def write_u32_to_buffer_def le_dec_enc del: le_enc.simps)

lemma length_writes [simp]:
  "length (write_u16_to_buffer v) = 2" "length (write_u32_to_buffer w) = 4" "length (write_key_to_buffer k) = 12"
  by (simp_all add: write_u16_to_buffer_def write_u32_to_buffer_def write_key_to_buffer_def key_t_def)

lemma drop_writes [simp]:
  "drop 4 (write_u32_to_buffer w @ r) = r" "drop 2 (write_u16_to_buffer v @ r) = r" "drop 12 (write_key_to_buffer k @ r) = r"
  by simp_all

lemma read_write_key [simp]: "read_key_from_buffer (write_key_to_buffer k @ r) = k"
proof -
  have "drop 8 b = drop 4 (drop 4 b)" for b :: bytes by simp
  then show ?thesis
    by (cases k) (simp add: read_key_from_buffer_def write_key_to_buffer_def key_t_def del: drop_drop)
qed

lemma length_host_encode [simp]: "length (host_encode h) = HOST_CODED_SIZE"
  by (simp add: host_encode_def HOST_CODED_SIZE_def)

lemma host_decode_encode:
  "host_decode (host_encode h @ r) hg =
     (let a = (host_address h, host_port h);
          k = (case hg a of Some k \<Rightarrow> if k = key_assign_ui 0 then host_key h else k | None \<Rightarrow> host_key h)
      in (\<lparr>host_key = k, host_address = host_address h, host_port = host_port h\<rparr>, hg(a \<mapsto> k)))"
proof -
  have "drop 16 b = drop 4 (drop 12 b)" for b :: bytes by simp
  then have "read_key_from_buffer (host_encode h @ r) = host_key h"
    "read_u32_from_buffer (drop 12 (host_encode h @ r)) = host_address h"
    "read_u16_from_buffer (drop 16 (host_encode h @ r)) = host_port h"
    by (simp_all add: host_encode_def del: drop_drop)
  then show ?thesis
    by (auto simp: host_decode_def host_get_def Let_def key_equal_ui_iff split: option.splits)
qed

section \<open>Properties\<close>

text \<open>C20: \<open>key_distance\<close> is the distance of two keys on a ring with one position less than there
  are keys: the smaller one of the two ways, where the longer way is counted one too short.
  So two different keys have the distance 0 exactly when they are the first and the last one.\<close>

theorem key_distance_ring:
  "key_val (key_distance d j k) =
     min \<bar>key_val j - key_val k\<bar> (2 ^ 96 - 1 - \<bar>key_val j - key_val k\<bar>)
   \<and> (key_distance d j k = key_assign_ui 0 \<longleftrightarrow> j = k \<or> {j, k} = {key_assign_ui 0, Key_Max})"
proof -
  define e where "e = \<bar>key_val j - key_val k\<bar>"
  have v: "key_val (key_distance d j k) = min e (2 ^ 96 - 1 - e)"
    unfolding key_distance_val e_def [symmetric] Let_def min_def by simp
  have z: "key_val (key_assign_ui 0) = 0" by (simp add: key_assign_ui_def key_val_Key)
  have b: "0 \<le> key_val j" "key_val j < 2 ^ 96" "0 \<le> key_val k" "key_val k < 2 ^ 96" using key_val_bounds by auto
  have "key_distance d j k = key_assign_ui 0 \<longleftrightarrow> min e (2 ^ 96 - 1 - e) = 0" by (simp add: v z flip: key_val_inject)
  also have "\<dots> \<longleftrightarrow> e = 0 \<or> e = 2 ^ 96 - 1" using b unfolding e_def min_def by (auto split: if_splits)
  also have "\<dots> \<longleftrightarrow> key_val j = key_val k \<or> key_val j = 0 \<and> key_val k = 2 ^ 96 - 1 \<or> key_val j = 2 ^ 96 - 1 \<and> key_val k = 0"
    using b unfolding e_def by linarith
  also have "\<dots> \<longleftrightarrow> j = k \<or> {j, k} = {key_assign_ui 0, Key_Max}"
    unfolding z [symmetric] key_val_consts(1) [symmetric] key_val_inject by (auto simp: doubleton_eq_iff)
  finally show ?thesis using v unfolding e_def by blast
qed

text \<open>\<open>key_between\<close> tells whether a key lies on the arc that goes clockwise from one key to
  another, both ends included; the arc from a key to itself is that key only.\<close>

theorem key_between_arc:
  "key_between test left right \<longleftrightarrow>
     (if left = right then test = left
      else (key_val test - key_val left) mod 2 ^ 96 \<le> (key_val right - key_val left) mod 2 ^ 96)"
proof -
  have m: "(x - y) mod 2 ^ 96 = (if y \<le> x then x - y else x - y + 2 ^ 96)"
    if "0 \<le> x" "x < 2 ^ 96" "0 \<le> y" "y < 2 ^ 96" for x y :: int
  proof (cases "y \<le> x")
    case False
    have "(x - y) mod 2 ^ 96 = (x - y + 2 ^ 96) mod 2 ^ 96" by simp
    also have "\<dots> = x - y + 2 ^ 96" using False that by (intro mod_pos_pos_trivial) auto
    finally show ?thesis using False by simp
  qed (use that in auto)
  have b: "0 \<le> key_val k \<and> key_val k < 2 ^ 96" for k using key_val_bounds by auto
  have e: "key_comp j k = 0 \<longleftrightarrow> key_val j = key_val k" for j k by (simp add: key_comp_iff key_val_inject)
  have mt: "(key_val test - key_val left) mod 2 ^ 96 =
      (if key_val left \<le> key_val test then key_val test - key_val left else key_val test - key_val left + 2 ^ 96)"
    and mr: "(key_val right - key_val left) mod 2 ^ 96 =
      (if key_val left \<le> key_val right then key_val right - key_val left else key_val right - key_val left + 2 ^ 96)"
    using b by (intro m; simp)+
  show ?thesis
    using b [of test] b [of left] b [of right]
    unfolding key_between_def Let_def key_comp_iff(1) e mt mr key_val_inject [symmetric] by auto
qed

text \<open>C21: \<open>key_index_int\<close> is the number of leading digits two different keys have in common: it is
  a row of the routing table, the digits before it agree, and the digits in it, by which
  \<open>get_col\<close> chooses the column, differ.\<close>

theorem key_index_digits:
  assumes "j \<noteq> k"
  shows "\<exists>i < 48. key_index_int j k = int i \<and> (\<forall>i' < i. get_col j i' = get_col k i') \<and> get_col j i \<noteq> get_col k i"
proof -
  obtain a b c a' b' c' where jk: "j = Key a b c" "k = Key a' b' c'" by (metis key.exhaust)
  consider "c \<noteq> c'" | "c = c'" "b \<noteq> b'" | "c = c'" "b = b'" "a \<noteq> a'" using assms jk by auto
  then show ?thesis
  proof cases
    case 1
    from shift_loop_cols [OF 1] obtain i where "shift_loop c c' 16 = int i" "i < 16"
      "\<forall>i' < i. word_col c i' = word_col c' i'" "word_col c i \<noteq> word_col c' i" by blast
    with 1 show ?thesis by (intro exI [of _ i]) (simp add: jk key_index_int_def key_t_def get_col_word)
  next
    case 2
    from shift_loop_cols [OF 2(2)] obtain i where "shift_loop b b' 16 = int i" "i < 16"
      "\<forall>i' < i. word_col b i' = word_col b' i'" "word_col b i \<noteq> word_col b' i" by blast
    with 2 show ?thesis by (intro exI [of _ "16 + i"]) (auto simp: jk key_index_int_def key_t_def get_col_word)
  next
    case 3
    from shift_loop_cols [OF 3(3)] obtain i where "shift_loop a a' 16 = int i" "i < 16"
      "\<forall>i' < i. word_col a i' = word_col a' i'" "word_col a i \<noteq> word_col a' i" by blast
    with 3 show ?thesis by (intro exI [of _ "32 + i"]) (auto simp: jk key_index_int_def key_t_def get_col_word)
  qed
qed

theorem key_index_digits_witness:
  "\<exists>i < 48. key_index_int (Key 0 0 0xF0000000) (Key 0 0 0xF4000000) = int i
    \<and> get_col (Key 0 0 0xF0000000) i \<noteq> get_col (Key 0 0 0xF4000000) i"
proof -
  have "Key 0 0 0xF0000000 \<noteq> Key 0 0 0xF4000000" by simp
  from key_index_digits [OF this] show ?thesis by blast
qed



end
