(* ===== verification/Scribe.thy ===== *)
theory Scribe
  imports Chimera Tech_Module
begin

text \<open>
  The Scribe module (\<open>modules/scribe/src\<close>): application-layer multicast over the Chimera overlay.
  A node that joins a group routes a message towards the key of the group; every node on the
  way becomes a forwarder and remembers the previous one as a child. A packet is routed to the
  node that is responsible for the key (the rendezvous point) and goes down the tree.

  An instance is a record; what it sends and reports is appended to \<open>sc_out\<close>. The hash function
  is an argument, and so is the routing of Chimera: \<open>route k\<close> is the next host on the way to
  \<open>k\<close>, or none if this node is the one. An operation is one step; its mutex matters only where
  the code does not unlock it.
\<close>

section \<open>Groups\<close>

definition c_default_count :: int where
  "c_default_count = 2"

record scribe_node =
  node_host :: chimera_host
  node_count :: int

definition new_scribe_node :: "chimera_host \<Rightarrow> scribe_node" where
  "new_scribe_node h = \<lparr>node_host = h, node_count = c_default_count\<rparr>"

definition node_inc :: "scribe_node \<Rightarrow> scribe_node" where
  "node_inc n = (if node_count n < c_default_count then n\<lparr>node_count := node_count n + 1\<rparr> else n)"

definition node_dec :: "scribe_node \<Rightarrow> scribe_node" where
  "node_dec n = (if node_count n > 0 then n\<lparr>node_count := node_count n - 1\<rparr> else n)"

text \<open>The key \<open>m_gid\<close> of a group is never set; \<open>m_count\<close> is never used.\<close>

record scribe_group =
  grp_uri :: uri
  grp_parent :: "chimera_host option"
  grp_rp :: "chimera_host option"
  grp_children :: "(key, scribe_node) smap"

definition set_uri :: "uri \<Rightarrow> scribe_group \<Rightarrow> scribe_group" where
  "set_uri u g = (if \<not> uri_is_empty u then g\<lparr>grp_uri := u\<rparr> else g)"

definition new_scribe_group :: "uri \<Rightarrow> scribe_group" where
  "new_scribe_group u = set_uri u \<lparr>grp_uri = default_uri, grp_parent = None, grp_rp = None, grp_children = []\<rparr>"

definition add_child :: "chimera_host \<Rightarrow> scribe_group \<Rightarrow> scribe_group" where
  "add_child c g =
     (case map_of (grp_children g) (host_key c) of
        Some n \<Rightarrow> g\<lparr>grp_children := sm_put (host_key c) (node_inc n) (grp_children g)\<rparr>
      | None \<Rightarrow> g\<lparr>grp_children := sm_insert (host_key c) (new_scribe_node c) (grp_children g)\<rparr>)"

definition del_child :: "key \<Rightarrow> scribe_group \<Rightarrow> scribe_group" where
  "del_child k g = g\<lparr>grp_children := sm_erase k (grp_children g)\<rparr>"

definition has_child :: "key \<Rightarrow> scribe_group \<Rightarrow> bool" where
  "has_child k g \<longleftrightarrow> map_of (grp_children g) k \<noteq> None"

section \<open>The instance\<close>

datatype scribe_out =
    Send_out chimera_host chimera_msg
  | Event_out membership_event_type uri
  | Recv_out bytes uri

text \<open>\<open>sc_grp_mutex\<close> tells whether \<open>m_grp_mutex\<close> has been left locked.\<close>

record scribe_instance =
  sc_me :: chimera_host
  sc_groups :: "(key, scribe_group) smap"
  sc_grp_mutex :: bool
  sc_key_cache :: "(string, key) smap"
  sc_uri_cache :: "(u32 list, uri) smap"
  sc_hosts :: host_cache
  sc_out :: "scribe_out list"

definition new_scribe_instance :: "chimera_host \<Rightarrow> host_cache \<Rightarrow> scribe_instance" where
  "new_scribe_instance me hosts =
     \<lparr>sc_me = me, sc_groups = [], sc_grp_mutex = False, sc_key_cache = [], sc_uri_cache = [], sc_hosts = hosts, sc_out = []\<rparr>"

definition emit :: "scribe_out \<Rightarrow> (scribe_instance, unit) op" where
  "emit x s = (Inr (), s\<lparr>sc_out := sc_out s @ [x]\<rparr>)"

definition sc_lock :: "(scribe_instance, unit) op" where
  "sc_lock s = (if sc_grp_mutex s then (Inl (Blocked ''m_grp_mutex''), s) else (Inr (), s))"

definition put_group :: "key \<Rightarrow> scribe_group \<Rightarrow> (scribe_instance, unit) op" where
  "put_group k g s = (Inr (), s\<lparr>sc_groups := sm_put k g (sc_groups s)\<rparr>)"

subsection \<open>Names and keys\<close>

definition uri_group :: "uri \<Rightarrow> string" where
  "uri_group u = m_group (uri_d u)"

definition uri_instantiation :: "uri \<Rightarrow> string" where
  "uri_instantiation u = m_instantiation (uri_d u)"

definition uri_port :: "uri \<Rightarrow> string" where
  "uri_port u = m_port (uri_d u)"

text \<open>A port that does not fit an \<open>int\<close>, for which \<open>atoi\<close> is undefined, is read as 0.\<close>

definition int_port :: "uri \<Rightarrow> u16" where
  "int_port u = (case port_as_int u of None \<Rightarrow> 0 | Some p \<Rightarrow> p)"

definition group_name :: "uri \<Rightarrow> string" where
  "group_name u = uri_group u @ (if uri_instantiation u \<noteq> [] then CHR ''@'' # uri_instantiation u else [])"

definition uri_mapping :: "(string \<Rightarrow> key) \<Rightarrow> uri \<Rightarrow> scribe_instance \<Rightarrow> key \<times> scribe_instance" where
  "uri_mapping key_makehash u s =
     (let sch = ham_namespace u; grp = group_name u; prt = uri_port u;
          prti = (if prt \<noteq> [] then int_port u else 0);
          found = map_of (sc_key_cache s) (if prt \<noteq> [] then sch @ ''://'' @ grp @ '':'' @ prt else grp)
      in case found of
           Some k \<Rightarrow> (k, s)
         | None \<Rightarrow>
             (let k = key_makehash (c_string grp);
                  s1 = s\<lparr>sc_key_cache := sm_insert (sch @ ''://'' @ grp) k (sc_key_cache s),
                         sc_uri_cache := sm_insert (key_t k) (uri_of (sch @ ''://'' @ grp)) (sc_uri_cache s)\<rparr>
              in (k, if prti \<noteq> 0
                     then s1\<lparr>sc_key_cache := sm_insert (sch @ ''://'' @ grp @ '':'' @ prt) k (sc_key_cache s1),
                             sc_uri_cache := sm_insert (key_t k @ [ucast prti]) (uri_of (sch @ ''://'' @ grp @ '':'' @ prt))
                                               (sc_uri_cache s1)\<rparr>
                     else s1)))"

definition key_mapping :: "(string \<Rightarrow> key) \<Rightarrow> key \<Rightarrow> u16 \<Rightarrow> scribe_instance \<Rightarrow> uri \<times> scribe_instance" where
  "key_mapping key_makehash k port s =
     (case map_of (sc_uri_cache s) (if port > 0 then key_t k @ [ucast port] else key_t k) of
        Some u \<Rightarrow> (u, s)
      | None \<Rightarrow>
          if port > 0 then
            (let tmp_str = (case map_of (sc_uri_cache s) (key_t k) of
                              Some u \<Rightarrow> str u @ '':'' @ dec_string (unat port)
                            | None \<Rightarrow> []);
                 tmp_uri = uri_of tmp_str
             in (tmp_uri, snd (uri_mapping key_makehash tmp_uri s)))
          else (default_uri, s))"

section \<open>Messages from the overlay\<close>

definition SCRIBE_MSG_CREATE :: u16 where "SCRIBE_MSG_CREATE = 51"
definition SCRIBE_MSG_JOIN :: u16 where "SCRIBE_MSG_JOIN = 52"
definition SCRIBE_MSG_LEAVE :: u16 where "SCRIBE_MSG_LEAVE = 53"
definition SCRIBE_MSG_MULTICAST :: u16 where "SCRIBE_MSG_MULTICAST = 54"
definition SCRIBE_MSG_RP_REQUEST :: u16 where "SCRIBE_MSG_RP_REQUEST = 62"
definition SCRIBE_MSG_RP_REPLY :: u16 where "SCRIBE_MSG_RP_REPLY = 63"
definition SCRIBE_MSG_PARENT :: u16 where "SCRIBE_MSG_PARENT = 65"

definition event_if_named :: "membership_event_type \<Rightarrow> uri \<Rightarrow> (scribe_instance, unit) op" where
  "event_if_named t u = (if \<not> uri_is_empty u then emit (Event_out t u) else sret ())"

text \<open>
  The group of a create or join message: from the caches, otherwise from the text behind the
  encoded host. There is no result where the code gives up.
\<close>

definition decode_group :: "(string \<Rightarrow> key) \<Rightarrow> chimera_msg \<Rightarrow> (scribe_instance, uri option) op" where
  "decode_group key_makehash msg s =
     (let s1 = snd (key_mapping key_makehash (cm_src msg) (cm_port msg) s);
          (group_uri, s2) = key_mapping key_makehash (cm_src msg) 0 s1
      in if \<not> uri_is_empty group_uri then (Inr (Some group_uri), s2)
         else if unat (cm_size msg) < HOST_CODED_SIZE then (Inr None, s2)
         else
           (let rest = drop (HOST_CODED_SIZE + 1) (cm_payload msg) in
            if CHR 0x00 \<notin> set rest then (Inl (Undefined_behaviour ''string without end''), s2)
            else
              (let tmp_uri = uri_of (c_string rest) in
               if uri_is_empty tmp_uri then (Inr (Some group_uri), s2)
               else (let (groupkey, s3) = uri_mapping key_makehash tmp_uri s2;
                         (u, s4) = key_mapping key_makehash groupkey 0 s3
                     in (Inr (Some u), s4)))))"

definition decode_host :: "chimera_msg \<Rightarrow> (scribe_instance, chimera_host) op" where
  "decode_host msg s =
     (if length (cm_payload msg) < HOST_CODED_SIZE
      then (Inl (Undefined_behaviour ''host read past the end of the payload''), s)
      else (let (host, hg) = host_decode (cm_payload msg) (sc_hosts s) in (Inr host, s\<lparr>sc_hosts := hg\<rparr>)))"

definition deliver_create :: "(string \<Rightarrow> key) \<Rightarrow> chimera_msg \<Rightarrow> (scribe_instance, unit) op" where
  "deliver_create key_makehash msg =
     sbind (decode_group key_makehash msg) (\<lambda>found.
       case found of
         None \<Rightarrow> sret ()
       | Some group_uri \<Rightarrow>
           if uri_is_empty group_uri then sret ()
           else sbind sc_lock (\<lambda>_.
                  sbind (\<lambda>s. (Inr (), s\<lparr>sc_groups := sm_insert (cm_src msg) (new_scribe_group group_uri) (sc_groups s)\<rparr>)) (\<lambda>_.
                    emit (Event_out new_source_event group_uri))))"

definition add_to_group :: "key \<Rightarrow> uri \<Rightarrow> chimera_host \<Rightarrow> (scribe_instance, unit) op" where
  "add_to_group k group_uri host s =
     (let g = (case map_of (sc_groups s) k of None \<Rightarrow> new_scribe_group group_uri | Some g \<Rightarrow> g)
      in put_group k (add_child host g) s)"

definition send_parent :: "chimera_msg \<Rightarrow> chimera_host \<Rightarrow> (scribe_instance, unit) op" where
  "send_parent msg host s =
     (if key_equal (host_key (sc_me s)) (host_key host) then (Inr (), s)
      else emit (Send_out host (chimera_message_create (host_key host) (cm_src msg) (cm_port msg) SCRIBE_MSG_PARENT
                                  (of_nat HOST_CODED_SIZE) (host_encode (sc_me s)))) s)"

definition deliver_join :: "(string \<Rightarrow> key) \<Rightarrow> chimera_msg \<Rightarrow> (scribe_instance, unit) op" where
  "deliver_join key_makehash msg =
     sbind (decode_group key_makehash msg) (\<lambda>found.
       case found of
         None \<Rightarrow> sret ()
       | Some group_uri \<Rightarrow>
           sbind (decode_host msg) (\<lambda>host.
           sbind sc_lock (\<lambda>_.
           sbind (add_to_group (cm_src msg) group_uri host) (\<lambda>_.
           sbind (send_parent msg host) (\<lambda>_.
             event_if_named join_event group_uri)))))"

text \<open>A forwarder puts itself in the place of the joining host; the message goes on to the next host.\<close>

definition forward_join :: "(string \<Rightarrow> key) \<Rightarrow> chimera_msg \<Rightarrow> (scribe_instance, chimera_msg) op" where
  "forward_join key_makehash msg =
     sbind (decode_group key_makehash msg) (\<lambda>found.
       case found of
         None \<Rightarrow> sret msg
       | Some group_uri \<Rightarrow>
           sbind (decode_host msg) (\<lambda>host s.
             let msg' = msg\<lparr>cm_payload := host_encode (sc_me s) @ drop HOST_CODED_SIZE (cm_payload msg)\<rparr> in
             sbind sc_lock (\<lambda>_.
             sbind (add_to_group (cm_src msg) group_uri host) (\<lambda>_.
             sbind (send_parent msg host) (\<lambda>_.
             sbind (event_if_named join_event group_uri) (\<lambda>_.
               sret msg')))) s))"

definition deliver_leave :: "chimera_msg \<Rightarrow> (scribe_instance, unit) op" where
  "deliver_leave msg =
     sbind sc_lock (\<lambda>_ s.
       case map_of (sc_groups s) (cm_src msg) of
         None \<Rightarrow> (Inr (), s)
       | Some g \<Rightarrow>
           sbind (decode_host msg) (\<lambda>host.
             let g' = del_child (host_key host) g in
             sbind (put_group (cm_src msg) g') (\<lambda>_ s.
               if grp_children g' = [] then
                 (case grp_parent g' of
                    None \<Rightarrow> (Inr (), s)
                  | Some parent \<Rightarrow>
                      if key_equal (host_key (sc_me s)) (host_key parent) then (Inr (), s)
                      else emit (Send_out parent (chimera_message_create (host_key parent) (cm_src msg) (cm_port msg)
                                   SCRIBE_MSG_LEAVE (of_nat HOST_CODED_SIZE) (host_encode (sc_me s)))) s)
               else (Inr (), s))) s)"

fun to_children :: "chimera_msg \<Rightarrow> uri \<Rightarrow> (key \<times> scribe_node) list \<Rightarrow> (scribe_instance, unit) op" where
  "to_children msg group_uri [] = sret ()"
| "to_children msg group_uri ((k, n) # cs) =
     sbind (\<lambda>s. if k = host_key (sc_me s) then emit (Recv_out (take (unat (cm_size msg)) (cm_payload msg)) group_uri) s
                else emit (Send_out (node_host n) (chimera_message_create k (cm_src msg) (cm_port msg) (cm_type msg)
                                                     (cm_size msg) (cm_payload msg))) s)
       (\<lambda>_. to_children msg group_uri cs)"

text \<open>For an unknown group the function returns without unlocking the mutex.\<close>

definition deliver_multicast :: "(string \<Rightarrow> key) \<Rightarrow> chimera_msg \<Rightarrow> (scribe_instance, unit) op" where
  "deliver_multicast key_makehash msg =
     sbind sc_lock (\<lambda>_ s.
       case map_of (sc_groups s) (cm_src msg) of
         None \<Rightarrow> (Inr (), s\<lparr>sc_grp_mutex := True\<rparr>)
       | Some g \<Rightarrow>
           (let (group_uri, s1) = key_mapping key_makehash (cm_src msg) (cm_port msg) s in
            if cm_size msg = 0 then (Inr (), s1)
            else to_children msg group_uri (grp_children g) s1))"

definition deliver_rp_request :: "chimera_msg \<Rightarrow> (scribe_instance, unit) op" where
  "deliver_rp_request msg =
     (if unat (cm_size msg) < HOST_CODED_SIZE then sret ()
      else sbind (decode_host msg) (\<lambda>host s.
             emit (Send_out host (chimera_message_create (host_key host) (cm_src msg) (cm_port msg) SCRIBE_MSG_RP_REPLY
                                    (of_nat HOST_CODED_SIZE) (host_encode (sc_me s)))) s))"

definition deliver_rp_reply :: "chimera_msg \<Rightarrow> (scribe_instance, unit) op" where
  "deliver_rp_reply msg =
     (if unat (cm_size msg) < HOST_CODED_SIZE then sret ()
      else sbind (decode_host msg) (\<lambda>host.
             sbind sc_lock (\<lambda>_ s.
               case map_of (sc_groups s) (cm_src msg) of
                 None \<Rightarrow> (Inr (), s)
               | Some g \<Rightarrow> put_group (cm_src msg) (g\<lparr>grp_rp := Some host\<rparr>) s)))"

definition deliver_parent :: "chimera_msg \<Rightarrow> (scribe_instance, unit) op" where
  "deliver_parent msg =
     (if unat (cm_size msg) < HOST_CODED_SIZE then sret ()
      else sbind (decode_host msg) (\<lambda>host.
             sbind sc_lock (\<lambda>_ s.
               case map_of (sc_groups s) (cm_src msg) of
                 None \<Rightarrow> (Inr (), s)
               | Some g \<Rightarrow>
                   if key_equal (host_key (sc_me s)) (host_key host) then (Inr (), s)
                   else put_group (cm_src msg) (g\<lparr>grp_parent := Some host\<rparr>) s)))"

definition scribe_deliver_handler :: "(string \<Rightarrow> key) \<Rightarrow> chimera_msg \<Rightarrow> (scribe_instance, unit) op" where
  "scribe_deliver_handler key_makehash msg =
     (if cm_type msg = SCRIBE_MSG_CREATE then deliver_create key_makehash msg
      else if cm_type msg = SCRIBE_MSG_JOIN then deliver_join key_makehash msg
      else if cm_type msg = SCRIBE_MSG_LEAVE then deliver_leave msg
      else if cm_type msg = SCRIBE_MSG_MULTICAST then deliver_multicast key_makehash msg
      else if cm_type msg = SCRIBE_MSG_RP_REQUEST then deliver_rp_request msg
      else if cm_type msg = SCRIBE_MSG_RP_REPLY then deliver_rp_reply msg
      else if cm_type msg = SCRIBE_MSG_PARENT then deliver_parent msg
      else sret ())"

definition scribe_forward_handler :: "(string \<Rightarrow> key) \<Rightarrow> chimera_msg \<Rightarrow> (scribe_instance, chimera_msg) op" where
  "scribe_forward_handler key_makehash msg =
     (if cm_type msg = SCRIBE_MSG_JOIN then forward_join key_makehash msg else sret msg)"

text \<open>
  \<open>chimera_route\<close> for the messages of the module: a message for this node is delivered, another
  one is forwarded. That sending fails and another host is chosen is left out.
\<close>

definition chimera_route ::
  "(string \<Rightarrow> key) \<Rightarrow> (key \<Rightarrow> chimera_host option) \<Rightarrow> chimera_msg \<Rightarrow> (scribe_instance, unit) op" where
  "chimera_route key_makehash route msg s =
     (case (if key_equal (cm_dst msg) (host_key (sc_me s)) then None else route (cm_dst msg)) of
        None \<Rightarrow> scribe_deliver_handler key_makehash msg s
      | Some host \<Rightarrow> sbind (scribe_forward_handler key_makehash msg) (\<lambda>msg'. emit (Send_out host msg')) s)"

section \<open>Calls of the middleware\<close>

definition group_payload :: "chimera_host \<Rightarrow> uri \<Rightarrow> bytes" where
  "group_payload me u = host_encode me @ CHR '':'' # str u @ [CHR 0x00]"

definition scribe_create ::
  "(string \<Rightarrow> key) \<Rightarrow> (key \<Rightarrow> chimera_host option) \<Rightarrow> uri \<Rightarrow> (scribe_instance, int) op" where
  "scribe_create key_makehash route group_uri s =
     (let (group_key, s1) = uri_mapping key_makehash group_uri s;
          (tmp_uri, s2) = key_mapping key_makehash group_key 0 s1;
          payload = group_payload (sc_me s2) tmp_uri
      in sbind (chimera_route key_makehash route (chimera_message_create group_key group_key (int_port group_uri)
                  SCRIBE_MSG_CREATE (of_nat (length payload)) payload)) (\<lambda>_.
           sbind (emit (Event_out new_source_event tmp_uri)) (\<lambda>_. sret HC_SUCCESS)) s2)"

definition join_group :: "key \<Rightarrow> uri \<Rightarrow> (scribe_instance, unit) op" where
  "join_group group_key tmp_uri s =
     (let g = (case map_of (sc_groups s) group_key of
                 Some g \<Rightarrow> if uri_is_empty (grp_uri g) then set_uri tmp_uri g else g
               | None \<Rightarrow> new_scribe_group tmp_uri)
      in put_group group_key (add_child (sc_me s) g) s)"

definition scribe_join ::
  "(string \<Rightarrow> key) \<Rightarrow> (key \<Rightarrow> chimera_host option) \<Rightarrow> uri \<Rightarrow> (scribe_instance, int) op" where
  "scribe_join key_makehash route group_uri s =
     (let (group_key, s1) = uri_mapping key_makehash group_uri s;
          (tmp_uri, s2) = key_mapping key_makehash group_key 0 s1;
          payload = group_payload (sc_me s2) tmp_uri
      in sbind sc_lock (\<lambda>_.
         sbind (join_group group_key tmp_uri) (\<lambda>_.
         sbind (chimera_route key_makehash route (chimera_message_create group_key group_key (int_port group_uri)
                  SCRIBE_MSG_JOIN (of_nat (length payload)) payload)) (\<lambda>_ s.
         sbind (emit (Event_out join_event (case map_of (sc_groups s) group_key of Some g \<Rightarrow> grp_uri g | None \<Rightarrow> default_uri)))
           (\<lambda>_. sret HC_SUCCESS) s))) s2)"

definition leave_upwards ::
  "(string \<Rightarrow> key) \<Rightarrow> (key \<Rightarrow> chimera_host option) \<Rightarrow> key \<Rightarrow> uri \<Rightarrow> scribe_group \<Rightarrow> (scribe_instance, unit) op" where
  "leave_upwards key_makehash route group_key group_uri g s =
     (case grp_parent g of
        Some parent \<Rightarrow>
          if key_equal (host_key (sc_me s)) (host_key parent) then (Inr (), s)
          else emit (Send_out parent (chimera_message_create (host_key parent) group_key (int_port group_uri)
                       SCRIBE_MSG_LEAVE (of_nat HOST_CODED_SIZE) (host_encode (sc_me s)))) s
      | None \<Rightarrow>
          chimera_route key_makehash route (chimera_message_create group_key group_key (int_port group_uri)
            SCRIBE_MSG_LEAVE (of_nat HOST_CODED_SIZE) (host_encode (sc_me s))) s)"

definition scribe_leave ::
  "(string \<Rightarrow> key) \<Rightarrow> (key \<Rightarrow> chimera_host option) \<Rightarrow> uri \<Rightarrow> (scribe_instance, int) op" where
  "scribe_leave key_makehash route group_uri s =
     (let (group_key, s1) = uri_mapping key_makehash group_uri s
      in sbind (\<lambda>s. case map_of (sc_groups s) group_key of
                      None \<Rightarrow> (Inr (), s)
                    | Some g \<Rightarrow>
                        sbind sc_lock (\<lambda>_.
                          let g' = del_child (host_key (sc_me s)) g in
                          sbind (put_group group_key g') (\<lambda>_.
                            if grp_children g' = [] then leave_upwards key_makehash route group_key group_uri g'
                            else sret ())) s) (\<lambda>_.
           sbind (emit (Event_out join_event group_uri)) (\<lambda>_. sret HC_SUCCESS)) s1)"

definition send_rp_request ::
  "(string \<Rightarrow> key) \<Rightarrow> (key \<Rightarrow> chimera_host option) \<Rightarrow> uri \<Rightarrow> (scribe_instance, unit) op" where
  "send_rp_request key_makehash route group_uri s =
     (let (group_key, s1) = uri_mapping key_makehash group_uri s in
      chimera_route key_makehash route (chimera_message_create group_key group_key (int_port group_uri) SCRIBE_MSG_RP_REQUEST
        (of_nat HOST_CODED_SIZE) (host_encode (sc_me s1))) s1)"

definition find_rp :: "key \<Rightarrow> uri \<Rightarrow> (scribe_instance, chimera_host option) op" where
  "find_rp group_key tmp_uri s =
     (case map_of (sc_groups s) group_key of
        Some g \<Rightarrow> (Inr (grp_rp g), s)
      | None \<Rightarrow> (Inr None, s\<lparr>sc_groups := sm_insert group_key (new_scribe_group tmp_uri) (sc_groups s)\<rparr>))"

definition scribe_send ::
  "(string \<Rightarrow> key) \<Rightarrow> (key \<Rightarrow> chimera_host option) \<Rightarrow> uri \<Rightarrow> bytes \<Rightarrow> (scribe_instance, int) op" where
  "scribe_send key_makehash route group_uri payload s =
     (let (group_key, s1) = uri_mapping key_makehash group_uri s;
          (tmp_uri, s2) = key_mapping key_makehash group_key 0 s1;
          multicast = (\<lambda>dst. chimera_message_create dst group_key (int_port group_uri) SCRIBE_MSG_MULTICAST
                               (of_nat (length payload)) payload)
      in sbind sc_lock (\<lambda>_.
         sbind (find_rp group_key tmp_uri) (\<lambda>found.
         sbind (case found of
                  Some rp \<Rightarrow>
                    (\<lambda>s. if key_equal (host_key rp) (host_key (sc_me s))
                         then deliver_multicast key_makehash (multicast (host_key rp)) s
                         else emit (Send_out rp (multicast (host_key rp))) s)
                | None \<Rightarrow>
                    sbind (send_rp_request key_makehash route group_uri) (\<lambda>_.
                      chimera_route key_makehash route (multicast group_key)))
           (\<lambda>_. sret (int (length payload))))) s2)"

subsection \<open>Maintenance\<close>

text \<open>
  One round: children other than this node count down and are dropped at 0, and this node joins
  its groups again.
\<close>

definition age_children :: "key \<Rightarrow> (key, scribe_node) smap \<Rightarrow> (key, scribe_node) smap" where
  "age_children mykey cs =
     filter (\<lambda>(k, n). node_count n \<noteq> 0) (map (\<lambda>(k, n). (k, if k = mykey then n else node_dec n)) cs)"

definition rejoined :: "key \<Rightarrow> (key, scribe_group) smap \<Rightarrow> uri list" where
  "rejoined mykey gs =
     map fst (fold (\<lambda>(_, g) us. if has_child mykey g \<and> \<not> uri_is_empty (grp_uri g) then sm_insert (grp_uri g) () us else us) gs [])"

definition maintenance_round ::
  "(string \<Rightarrow> key) \<Rightarrow> (key \<Rightarrow> chimera_host option) \<Rightarrow> (scribe_instance, unit) op" where
  "maintenance_round key_makehash route =
     sbind sc_lock (\<lambda>_ s.
       let mykey = host_key (sc_me s);
           j_groups = rejoined mykey (sc_groups s);
           s1 = s\<lparr>sc_groups := map (\<lambda>(k, g). (k, g\<lparr>grp_children := age_children mykey (grp_children g)\<rparr>)) (sc_groups s)\<rparr>
       in fold (\<lambda>u m. sbind m (\<lambda>_. sbind (scribe_join key_makehash route u) (\<lambda>_. sret ()))) j_groups (sret ()) s1)"

subsection \<open>Queries\<close>

definition scribe_parent_set :: "(string \<Rightarrow> key) \<Rightarrow> uri \<Rightarrow> (scribe_instance, key list) op" where
  "scribe_parent_set key_makehash group_uri s =
     (let (group_key, s1) = uri_mapping key_makehash group_uri s in
      sbind sc_lock (\<lambda>_ s.
        (Inr (case map_of (sc_groups s) group_key of
                None \<Rightarrow> []
              | Some g \<Rightarrow> (case grp_parent g of None \<Rightarrow> [] | Some p \<Rightarrow> [host_key p])), s)) s1)"

definition scribe_children_set :: "(string \<Rightarrow> key) \<Rightarrow> uri \<Rightarrow> (scribe_instance, key list) op" where
  "scribe_children_set key_makehash group_uri s =
     (let (group_key, s1) = uri_mapping key_makehash group_uri s in
      sbind sc_lock (\<lambda>_ s.
        (Inr (case map_of (sc_groups s) group_key of
                None \<Rightarrow> []
              | Some g \<Rightarrow> filter (\<lambda>k. k \<noteq> host_key (sc_me s)) (map (\<lambda>(_, n). host_key (node_host n)) (grp_children g))), s)) s1)"

definition scribe_designated_host :: "(string \<Rightarrow> key) \<Rightarrow> uri \<Rightarrow> (scribe_instance, int) op" where
  "scribe_designated_host key_makehash group_uri s =
     (let (group_key, s1) = uri_mapping key_makehash group_uri s in
      sbind sc_lock (\<lambda>_ s.
        (Inr (case map_of (sc_groups s) group_key of
                None \<Rightarrow> 0
              | Some g \<Rightarrow>
                  if 1 < length (grp_children g) \<or> length (grp_children g) = 1 \<and> \<not> has_child (host_key (sc_me s)) g
                  then 1 else 0), s)) s1)"

section \<open>A node that blocks\<close>

lemma uri_mapping_core [simp]:
  "sc_grp_mutex (snd (uri_mapping H u s)) = sc_grp_mutex s" "sc_groups (snd (uri_mapping H u s)) = sc_groups s"
  by (auto simp: uri_mapping_def Let_def split: option.splits)

lemma key_mapping_core [simp]:
  "sc_grp_mutex (snd (key_mapping H k p s)) = sc_grp_mutex s" "sc_groups (snd (key_mapping H k p s)) = sc_groups s"
  by (auto simp: key_mapping_def Let_def split: option.splits)

lemma sc_lock_blocked: "sc_grp_mutex s \<Longrightarrow> sbind sc_lock f s = (Inl (Blocked ''m_grp_mutex''), s)"
  by (simp add: sbind_def sc_lock_def)

text \<open>Children of a group are counted up to 2 by joins and down by the rounds of maintenance.\<close>

definition counts_ok :: "scribe_group \<Rightarrow> bool" where
  "counts_ok g \<longleftrightarrow> (\<forall>(k, n) \<in> set (grp_children g). 0 < node_count n \<and> node_count n \<le> c_default_count)"

lemma counts_ok_add: "counts_ok g \<Longrightarrow> counts_ok (add_child c g)"
proof (cases "map_of (grp_children g) (host_key c)")
  case None
  assume g: "counts_ok g"
  show ?thesis
    unfolding counts_ok_def
  proof (rule ballI)
    fix p assume "p \<in> set (grp_children (add_child c g))"
    then have "p = (host_key c, new_scribe_node c) \<or> p \<in> set (grp_children g)"
      using set_sm_insert_subset [of "host_key c" "new_scribe_node c" "grp_children g"] None
      by (auto simp: add_child_def)
    with g show "case p of (k, n) \<Rightarrow> 0 < node_count n \<and> node_count n \<le> c_default_count"
      by (auto simp: counts_ok_def new_scribe_node_def c_default_count_def)
  qed
next
  case (Some n)
  assume g: "counts_ok g"
  with map_of_SomeD [OF Some] have n: "0 < node_count n" "node_count n \<le> c_default_count" by (auto simp: counts_ok_def)
  show ?thesis
    unfolding counts_ok_def
  proof (rule ballI)
    fix p assume "p \<in> set (grp_children (add_child c g))"
    then have "p = (host_key c, node_inc n) \<or> p \<in> set (grp_children g)"
      using set_sm_put_subset [of "host_key c" "node_inc n" "grp_children g"] Some by (auto simp: add_child_def)
    with g n show "case p of (k, n) \<Rightarrow> 0 < node_count n \<and> node_count n \<le> c_default_count"
      by (auto simp: counts_ok_def node_inc_def)
  qed
qed

lemma age_children_iff:
  "(c, n) \<in> set (age_children k cs) \<longleftrightarrow>
     (\<exists>n'. (c, n') \<in> set cs \<and> n = (if c = k then n' else node_dec n') \<and> node_count n \<noteq> 0)"
  by (force simp: age_children_def image_iff)

lemma counts_ok_age: "counts_ok g \<Longrightarrow> counts_ok (g\<lparr>grp_children := age_children k (grp_children g)\<rparr>)"
  unfolding counts_ok_def
  by (fastforce simp: age_children_iff node_dec_def split: if_splits)

lemma child_survives:
  assumes "counts_ok g"
  shows "host_key c \<in> fst ` set (age_children k (grp_children (add_child c g)))"
proof -
  have "\<exists>n. (host_key c, n) \<in> set (grp_children (add_child c g)) \<and> 1 < node_count n"
  proof (cases "map_of (grp_children g) (host_key c)")
    case None
    have "host_key c \<in> fst ` set (sm_insert (host_key c) (new_scribe_node c) (grp_children g))" by simp
    then obtain n where n: "(host_key c, n) \<in> set (sm_insert (host_key c) (new_scribe_node c) (grp_children g))"
      by (auto simp del: keys_sm_insert)
    with set_sm_insert_subset None have "n = new_scribe_node c" by (force simp: map_of_eq_None_iff)
    with n have "(host_key c, new_scribe_node c) \<in> set (sm_insert (host_key c) (new_scribe_node c) (grp_children g))" by simp
    with None show ?thesis by (force simp: add_child_def new_scribe_node_def c_default_count_def)
  next
    case (Some n)
    with map_of_SomeD [OF Some] assms have "0 < node_count n" "node_count n \<le> c_default_count" by (auto simp: counts_ok_def)
    then have "1 < node_count (node_inc n)" by (auto simp: node_inc_def c_default_count_def)
    moreover have "(host_key c, node_inc n) \<in> set (sm_put (host_key c) (node_inc n) (grp_children g))"
      by (rule map_of_SomeD) simp
    ultimately show ?thesis using Some by (auto simp: add_child_def)
  qed
  then obtain n where n: "(host_key c, n) \<in> set (grp_children (add_child c g))" "1 < node_count n" by blast
  from n(2) have "node_count (if host_key c = k then n else node_dec n) \<noteq> 0" by (auto simp: node_dec_def)
  with n(1) have "(host_key c, if host_key c = k then n else node_dec n) \<in> set (age_children k (grp_children (add_child c g)))"
    unfolding age_children_iff by blast
  then show ?thesis by (rule image_eqI [rotated]) simp
qed

lemma children_dropped:
  assumes "counts_ok g"
  shows "fst ` set (age_children k (age_children k (grp_children g))) = fst ` set (grp_children g) \<inter> {k}"
proof (rule set_eqI)
  fix c
  have "(\<exists>n. (c, n) \<in> set (age_children k (age_children k (grp_children g)))) \<longleftrightarrow>
        (\<exists>n. (c, n) \<in> set (grp_children g)) \<and> c = k"
    unfolding age_children_iff using assms
    by (fastforce simp: counts_ok_def c_default_count_def node_dec_def split: if_splits)
  then show "c \<in> fst ` set (age_children k (age_children k (grp_children g))) \<longleftrightarrow> c \<in> fst ` set (grp_children g) \<inter> {k}"
    by force
qed

section \<open>Properties\<close>



text \<open>C22: The tree is soft state. A child that has not joined again is dropped after two rounds of
  maintenance; a child that has joined survives the next round; a node never drops itself; and
  the counters stay between 1 and 2.\<close>

theorem children_expire:
  assumes "counts_ok g"
  shows "fst ` set (age_children k (age_children k (grp_children g))) = fst ` set (grp_children g) \<inter> {k}
    \<and> host_key c \<in> fst ` set (age_children k (grp_children (add_child c g)))
    \<and> counts_ok (add_child c g) \<and> counts_ok (g\<lparr>grp_children := age_children k (grp_children g)\<rparr>)"
  using assms by (simp add: children_dropped child_survives counts_ok_add counts_ok_age)

theorem children_expire_witness:
  "counts_ok (add_child \<lparr>host_key = Key 1 0 0, host_address = 1, host_port = 1\<rparr> (new_scribe_group default_uri))
   \<and> (let cs = grp_children (add_child \<lparr>host_key = Key 1 0 0, host_address = 1, host_port = 1\<rparr> (new_scribe_group default_uri))
     in cs \<noteq> [] \<and> fst ` set (age_children (Key 2 0 0) (age_children (Key 2 0 0) cs)) = {})"
proof -
  let ?h = "\<lparr>host_key = Key 1 0 0, host_address = 1, host_port = 1\<rparr>"
  have g: "grp_children (new_scribe_group default_uri) = []" by (simp add: new_scribe_group_def set_uri_def)
  then have ok: "counts_ok (new_scribe_group default_uri)" by (simp add: counts_ok_def)
  have cs: "grp_children (add_child ?h (new_scribe_group default_uri)) = [(Key 1 0 0, new_scribe_node ?h)]"
    by (simp add: add_child_def g)
  from children_expire [OF counts_ok_add [OF ok, of ?h], of "Key 2 0 0"] counts_ok_add [OF ok, of ?h]
  show ?thesis unfolding Let_def cs by simp
qed

end
